(* ===== verification/Prelude.thy ===== *)
theory Prelude
  imports Main "HOL-Library.Word" "HOL-Library.List_Lexorder" "HOL-Library.Char_ord"
begin

text \<open>
  Shared vocabulary of the development.

  A Rust \<open>String\<close>/\<open>&str\<close> is the list of its UTF-8 bytes, as Isabelle's \<open>string\<close> (a \<open>char\<close>
  is one byte), so that \<open>len()\<close> is \<open>length\<close>, \<open>bytes()\<close> is the list itself, and comparison is
  the lexicographic order on bytes that Rust's \<open>Ord for str\<close> is. A \<open>Vec<u8>\<close>/\<open>&[u8]\<close> is a list of
  8-bit words. The \<open>?\<close> operator is \<open>bindE\<close> on a sum whose left side is the error.

  The theory also holds the generic interfaces (locales) several components share: a codec
  that decodes what it encodes, a self-delimiting codec (TLV records, wire frames), and a
  deterministic machine with an invariant.
\<close>

section \<open>Types\<close>

type_synonym byte = "8 word"
type_synonym bytes = "8 word list"
type_synonym u32 = "32 word"
type_synonym u64 = "64 word"

named_theorems conv \<open>equivalences that characterise when an operation succeeds\<close>
named_theorems frame \<open>which parts of a state an operation leaves alone\<close>

section \<open>Results and the question-mark operator\<close>

fun bindE :: "'e + 'a \<Rightarrow> ('a \<Rightarrow> 'e + 'b) \<Rightarrow> 'e + 'b" where
  "bindE (Inl e) f = Inl e"
| "bindE (Inr a) f = f a"

lemma bindE_Inr_iff [conv]: "bindE m f = Inr b \<longleftrightarrow> (\<exists>a. m = Inr a \<and> f a = Inr b)"
  by (cases m) auto

lemma bindE_Inl_iff [conv]: "bindE m f = Inl e \<longleftrightarrow> m = Inl e \<or> (\<exists>a. m = Inr a \<and> f a = Inl e)"
  by (cases m) auto

fun map_err :: "('e \<Rightarrow> 'f) \<Rightarrow> 'e + 'a \<Rightarrow> 'f + 'a" where
  "map_err h (Inl e) = Inl (h e)"
| "map_err h (Inr a) = Inr a"

lemma map_err_Inr_iff [conv]: "map_err h m = Inr a \<longleftrightarrow> m = Inr a"
  by (cases m) auto

lemma map_err_Inl_iff [conv]: "map_err h m = Inl e \<longleftrightarrow> (\<exists>e'. m = Inl e' \<and> e = h e')"
  by (cases m) auto

fun ok_or :: "'e \<Rightarrow> 'a option \<Rightarrow> 'e + 'a" where
  "ok_or e None = Inl e"
| "ok_or e (Some a) = Inr a"

lemma ok_or_Inr_iff [conv]: "ok_or e x = Inr a \<longleftrightarrow> x = Some a"
  by (cases x) auto

text \<open>\<open>iter().map(f).collect::<Result<Vec<_>, _>>()\<close>: the first error stops the collection.\<close>

fun mapE :: "('a \<Rightarrow> 'e + 'b) \<Rightarrow> 'a list \<Rightarrow> 'e + 'b list" where
  "mapE f [] = Inr []"
| "mapE f (x # xs) = bindE (f x) (\<lambda>y. bindE (mapE f xs) (\<lambda>ys. Inr (y # ys)))"

lemma mapE_Inr_iff [conv]: "mapE f xs = Inr ys \<longleftrightarrow> list_all2 (\<lambda>x y. f x = Inr y) xs ys"
  by (induction xs arbitrary: ys) (auto simp: bindE_Inr_iff list_all2_Cons1)

lemma mapE_pure: "(\<And>x. x \<in> set xs \<Longrightarrow> f x = Inr (g x)) \<Longrightarrow> mapE f xs = Inr (map g xs)"
  by (induction xs) auto

lemma mapE_Inl: "mapE f xs = Inl e \<Longrightarrow> \<exists>x \<in> set xs. f x = Inl e"
  by (induction xs) (auto simp: bindE_Inl_iff)

section \<open>ASCII\<close>

abbreviation ord :: "char \<Rightarrow> nat" where
  "ord c \<equiv> of_char c"

abbreviation newline :: char where
  "newline \<equiv> CHR 0x0A"

abbreviation backslash :: char where
  "backslash \<equiv> CHR 0x5C"

definition is_ascii_upper :: "char \<Rightarrow> bool" where
  "is_ascii_upper c \<longleftrightarrow> 65 \<le> ord c \<and> ord c \<le> 90"

definition is_ascii_lower :: "char \<Rightarrow> bool" where
  "is_ascii_lower c \<longleftrightarrow> 97 \<le> ord c \<and> ord c \<le> 122"

definition is_ascii_digit :: "char \<Rightarrow> bool" where
  "is_ascii_digit c \<longleftrightarrow> 48 \<le> ord c \<and> ord c \<le> 57"

definition is_ascii_alphanumeric :: "char \<Rightarrow> bool" where
  "is_ascii_alphanumeric c \<longleftrightarrow> is_ascii_upper c \<or> is_ascii_lower c \<or> is_ascii_digit c"

definition is_ascii_hexdigit :: "char \<Rightarrow> bool" where
  "is_ascii_hexdigit c \<longleftrightarrow>
     is_ascii_digit c \<or> (97 \<le> ord c \<and> ord c \<le> 102) \<or> (65 \<le> ord c \<and> ord c \<le> 70)"

definition to_ascii_lower :: "char \<Rightarrow> char" where
  "to_ascii_lower c = (if is_ascii_upper c then char_of (ord c + 32) else c)"

lemmas ascii_defs =
  is_ascii_upper_def is_ascii_lower_def is_ascii_digit_def is_ascii_alphanumeric_def
  is_ascii_hexdigit_def to_ascii_lower_def

definition eq_ignore_ascii_case :: "string \<Rightarrow> string \<Rightarrow> bool" where
  "eq_ignore_ascii_case a b \<longleftrightarrow> map to_ascii_lower a = map to_ascii_lower b"

lemma ord_char_of: "n < 256 \<Longrightarrow> ord (char_of n) = n"
  by simp

lemma ord_inj: "ord c = ord d \<Longrightarrow> c = d"
  by (metis char_of_char)

lemma ord_to_ascii_lower:
  "ord (to_ascii_lower c) = (if 65 \<le> ord c \<and> ord c \<le> 90 then ord c + 32 else ord c)"
  by (auto simp: ascii_defs)

lemma to_ascii_lower_idem [simp]: "to_ascii_lower (to_ascii_lower c) = to_ascii_lower c"
  by (rule ord_inj) (simp add: ord_to_ascii_lower)

lemma map_to_ascii_lower_idem [simp]:
  "map to_ascii_lower (map to_ascii_lower s) = map to_ascii_lower s"
  by simp

lemma is_ascii_alphanumeric_lower [simp]:
  "is_ascii_alphanumeric (to_ascii_lower c) = is_ascii_alphanumeric c"
  unfolding is_ascii_alphanumeric_def is_ascii_upper_def is_ascii_lower_def is_ascii_digit_def
    ord_to_ascii_lower
  by auto

lemma eq_ignore_ascii_case_refl [simp]: "eq_ignore_ascii_case s s"
  by (simp add: eq_ignore_ascii_case_def)

section \<open>Formatting\<close>

text \<open>\<open>{n}\<close> of an unsigned number, \<open>{byte:02x}\<close> and \<open>{value:08x}\<close>.\<close>

fun dec_str :: "nat \<Rightarrow> string" where
  "dec_str n = (if n < 10 then [char_of (48 + n)] else dec_str (n div 10) @ [char_of (48 + n mod 10)])"

declare dec_str.simps [simp del]

definition hex_digit :: "nat \<Rightarrow> char" where
  "hex_digit n = ''0123456789abcdef'' ! (n mod 16)"

definition hex_byte :: "byte \<Rightarrow> string" where
  "hex_byte b = [hex_digit (unat b div 16), hex_digit (unat b)]"

lemma length_hex_byte [simp]: "length (hex_byte b) = 2"
  by (simp add: hex_byte_def)

lemma hex_digit_cases:
  "hex_digit n \<in> set ''0123456789abcdef''"
proof -
  have "n mod 16 < length ''0123456789abcdef''" by simp
  then show ?thesis unfolding hex_digit_def by (rule nth_mem)
qed

lemma is_ascii_hexdigit_hex_digit [simp]: "is_ascii_hexdigit (hex_digit n)"
  using hex_digit_cases [of n] by (auto simp: ascii_defs)

lemma to_ascii_lower_hex_digit [simp]: "to_ascii_lower (hex_digit n) = hex_digit n"
  using hex_digit_cases [of n] by (auto simp: ascii_defs)

lemma dec_str_digits: "c \<in> set (dec_str n) \<Longrightarrow> is_ascii_digit c"
proof (induction n rule: dec_str.induct)
  case (1 n)
  show ?case
  proof (cases "n < 10")
    case True
    then have "c = char_of (48 + n)" using "1.prems" by (simp add: dec_str.simps [of n])
    then show ?thesis using True by (simp add: is_ascii_digit_def)
  next
    case False
    with "1.prems" consider "c \<in> set (dec_str (n div 10))" | "c = char_of (48 + n mod 10)"
      by (auto simp: dec_str.simps [of n])
    then show ?thesis
    proof cases
      case 1
      then show ?thesis using "1.IH" False by blast
    next
      case 2
      then show ?thesis by (simp add: is_ascii_digit_def)
    qed
  qed
qed

definition dec_val :: "string \<Rightarrow> nat" where
  "dec_val s = foldl (\<lambda>a c. 10 * a + (ord c - 48)) 0 s"

lemma dec_val_dec_str [simp]: "dec_val (dec_str n) = n"
proof (induction n rule: dec_str.induct)
  case (1 n)
  then show ?case
    by (cases "n < 10") (simp_all add: dec_str.simps [of n] dec_val_def)
qed

lemma dec_str_inj [simp]: "dec_str m = dec_str n \<longleftrightarrow> m = n"
  using dec_val_dec_str by metis

lemma dec_str_not_Nil [simp]: "dec_str n \<noteq> []"
  by (subst dec_str.simps) simp

text \<open>What follows the last dot of a name.\<close>

lemma append_dot_inj:
  assumes "h @ CHR ''.'' # d = h' @ CHR ''.'' # d'" and "CHR ''.'' \<notin> set d" and "CHR ''.'' \<notin> set d'"
  shows "h = h' \<and> d = d'"
  using assms by (auto simp: append_eq_append_conv2 append_eq_Cons_conv Cons_eq_append_conv)

lemma dec_str_no_dot [simp]: "CHR ''.'' \<notin> set (dec_str n)"
  using dec_str_digits by (fastforce simp: is_ascii_digit_def)

section \<open>Text and bytes\<close>

definition as_bytes :: "string \<Rightarrow> bytes" where
  "as_bytes s = map (\<lambda>c. word_of_nat (ord c)) s"

definition from_bytes :: "bytes \<Rightarrow> string" where
  "from_bytes bs = map (\<lambda>b. char_of (unat b)) bs"

lemma length_as_bytes [simp]: "length (as_bytes s) = length s"
  by (simp add: as_bytes_def)

lemma length_from_bytes [simp]: "length (from_bytes s) = length s"
  by (simp add: from_bytes_def)

lemma from_bytes_as_bytes [simp]: "from_bytes (as_bytes s) = s"
  by (simp add: from_bytes_def as_bytes_def comp_def map_idI unat_of_nat)

lemma as_bytes_from_bytes [simp]: "as_bytes (from_bytes bs) = bs"
proof -
  have "unat b mod 256 = unat b" for b :: byte
    using unsigned_less [of b, where ?'a = nat] by simp
  then show ?thesis by (simp add: from_bytes_def as_bytes_def comp_def map_idI)
qed

text \<open>
  What makes a byte sequence a Rust \<open>str\<close> (\<open>String::from_utf8\<close> refuses the rest): UTF-8 without
  overlong forms, surrogates, or code points past U+10FFFF.
\<close>

definition continuation :: "char \<Rightarrow> bool" where
  "continuation c \<longleftrightarrow> 0x80 \<le> ord c \<and> ord c \<le> 0xBF"

fun utf8 :: "string \<Rightarrow> bool" where
  "utf8 [] = True"
| "utf8 (a # s) =
     (if ord a < 0x80 then utf8 s
      else if ord a < 0xC2 then False
      else if ord a < 0xE0 then
        (case s of b # s \<Rightarrow> continuation b \<and> utf8 s | _ \<Rightarrow> False)
      else if ord a < 0xF0 then
        (case s of b # c # s \<Rightarrow>
             continuation b \<and> continuation c \<and> (ord a = 0xE0 \<longrightarrow> 0xA0 \<le> ord b) \<and>
             (ord a = 0xED \<longrightarrow> ord b < 0xA0) \<and> utf8 s
         | _ \<Rightarrow> False)
      else if ord a < 0xF5 then
        (case s of b # c # d # s \<Rightarrow>
             continuation b \<and> continuation c \<and> continuation d \<and>
             (ord a = 0xF0 \<longrightarrow> 0x90 \<le> ord b) \<and> (ord a = 0xF4 \<longrightarrow> ord b < 0x90) \<and> utf8 s
         | _ \<Rightarrow> False)
      else False)"

lemma utf8_ascii: "list_all (\<lambda>c. ord c < 0x80) s \<Longrightarrow> utf8 s"
  by (induction s) auto

section \<open>Input and output errors\<close>

text \<open>\<open>std::io::Error\<close>, as far as the code looks into one: its kind, its errno, its text.\<close>

datatype io_kind =
    NotFound | PermissionDenied | NotConnected | AlreadyExists | WouldBlock | InvalidInput
  | InvalidData | TimedOut | WriteZero | Interrupted | UnexpectedEof | OtherKind

datatype io_error = IoError (io_kind: io_kind) (raw_os_error: "nat option") (io_text: string)

section \<open>Lists\<close>

text \<open>\<open>slice.chunks(k)\<close>, for the positive constants the code passes.\<close>

fun chunks :: "nat \<Rightarrow> 'a list \<Rightarrow> 'a list list" where
  "chunks k xs = (if k = 0 \<or> xs = [] then [] else take k xs # chunks k (drop k xs))"

declare chunks.simps [simp del]

lemma chunks_Nil [simp]: "chunks k [] = []"
  by (simp add: chunks.simps)

lemma chunks_step: "0 < k \<Longrightarrow> xs \<noteq> [] \<Longrightarrow> chunks k xs = take k xs # chunks k (drop k xs)"
  by (simp add: chunks.simps [of k xs])

lemma concat_chunks [simp]: "0 < k \<Longrightarrow> concat (chunks k xs) = xs"
proof (induction k xs rule: chunks.induct)
  case (1 k xs)
  then show ?case by (cases "xs = []") (simp_all add: chunks_step)
qed

lemma chunks_eq_Nil_iff [simp]: "0 < k \<Longrightarrow> chunks k xs = [] \<longleftrightarrow> xs = []"
  by (cases "xs = []") (auto simp: chunks_step)

lemma chunks_bounds: "c \<in> set (chunks k xs) \<Longrightarrow> c \<noteq> [] \<and> length c \<le> k \<and> set c \<subseteq> set xs"
proof (induction k xs rule: chunks.induct)
  case (1 k xs)
  show ?case
  proof (cases "k = 0 \<or> xs = []")
    case True
    with "1.prems" show ?thesis by (auto simp: chunks.simps)
  next
    case False
    then consider "c = take k xs" | "c \<in> set (chunks k (drop k xs))"
      using "1.prems" by (auto simp: chunks_step)
    then show ?thesis
    proof cases
      case 1
      then show ?thesis using False by (auto dest: in_set_takeD)
    next
      case 2
      then show ?thesis using "1.IH" False by (meson in_set_dropD subset_iff)
    qed
  qed
qed

lemma length_chunks: "0 < k \<Longrightarrow> length (chunks k xs) = (length xs + k - 1) div k"
proof (induction k xs rule: chunks.induct)
  case (1 k xs)
  show ?case
  proof (cases "xs = []")
    case True
    then show ?thesis using "1.prems" by simp
  next
    case False
    then have pos: "0 < length xs" by simp
    have "length (chunks k xs) = Suc ((length (drop k xs) + k - 1) div k)"
      using "1" False by (simp add: chunks_step)
    also have "\<dots> = (length xs + k - 1) div k"
    proof (cases "length xs \<le> k")
      case True
      have "length xs + k - 1 = (length xs - 1) + k" using pos by arith
      moreover have "(length xs - 1) div k = 0" using True pos by (intro div_less) arith
      ultimately have "(length xs + k - 1) div k = Suc 0"
        using "1.prems" by (simp only: div_add_self2)
      then show ?thesis using True "1.prems" by simp
    next
      case False
      then have "length xs + k - 1 = (length (drop k xs) + k - 1) + k" by simp
      then show ?thesis using "1.prems" by (simp only: div_add_self2)
    qed
    finally show ?thesis .
  qed
qed

lemma takeWhile_append_stop:
  "\<forall>x \<in> set xs. P x \<Longrightarrow> \<not> P y \<Longrightarrow> takeWhile P (xs @ y # ys) = xs"
  by (induction xs) auto

lemma dropWhile_append_stop:
  "\<forall>x \<in> set xs. P x \<Longrightarrow> \<not> P y \<Longrightarrow> dropWhile P (xs @ y # ys) = y # ys"
  by (induction xs) auto

lemma length_takeWhile_less: "\<exists>x \<in> set xs. \<not> P x \<Longrightarrow> length (takeWhile P xs) < length xs"
  by (induction xs) auto

text \<open>\<open>slice.get(i)\<close>, \<open>slice.get(a..b)\<close>, \<open>iter().position(p)\<close> and \<open>iter().rposition(p)\<close>.\<close>

definition get_at :: "'a list \<Rightarrow> nat \<Rightarrow> 'a option" where
  "get_at xs i = (if i < length xs then Some (xs ! i) else None)"

definition get_range :: "'a list \<Rightarrow> nat \<Rightarrow> nat \<Rightarrow> 'a list option" where
  "get_range xs a b = (if a \<le> b \<and> b \<le> length xs then Some (take (b - a) (drop a xs)) else None)"

fun position :: "('a \<Rightarrow> bool) \<Rightarrow> 'a list \<Rightarrow> nat option" where
  "position P [] = None"
| "position P (x # xs) = (if P x then Some 0 else map_option Suc (position P xs))"

definition rposition :: "('a \<Rightarrow> bool) \<Rightarrow> 'a list \<Rightarrow> nat option" where
  "rposition P xs = map_option (\<lambda>i. length xs - 1 - i) (position P (rev xs))"

lemma position_None_iff: "position P xs = None \<longleftrightarrow> (\<forall>x \<in> set xs. \<not> P x)"
  by (induction xs) auto

lemma position_eq: "position P xs = (if \<exists>x \<in> set xs. P x then Some (length (takeWhile (\<lambda>x. \<not> P x) xs)) else None)"
  by (induction xs) auto

section \<open>Integers as bytes\<close>

text \<open>\<open>to_be_bytes\<close>/\<open>from_be_bytes\<close> and \<open>to_le_bytes\<close>/\<open>from_le_bytes\<close> of an unsigned integer of \<open>k\<close> bytes.\<close>

fun be_bytes :: "nat \<Rightarrow> nat \<Rightarrow> bytes" where
  "be_bytes 0 n = []"
| "be_bytes (Suc k) n = be_bytes k (n div 256) @ [word_of_nat n]"

definition be_val :: "bytes \<Rightarrow> nat" where
  "be_val bs = foldl (\<lambda>acc b. acc * 256 + unat b) 0 bs"

fun le_bytes :: "nat \<Rightarrow> nat \<Rightarrow> bytes" where
  "le_bytes 0 n = []"
| "le_bytes (Suc k) n = word_of_nat n # le_bytes k (n div 256)"

fun le_val :: "bytes \<Rightarrow> nat" where
  "le_val [] = 0"
| "le_val (b # bs) = unat b + 256 * le_val bs"

lemma unat_byte_less [simp]: "unat (b :: byte) < 256"
  using unsigned_less [of b, where ?'a = nat] by simp

lemma unat_byte_of_nat: "unat (word_of_nat n :: byte) = n mod 256"
  by (simp add: unat_of_nat)

lemma length_be_bytes [simp]: "length (be_bytes k n) = k"
  by (induction k arbitrary: n) auto

lemma length_le_bytes [simp]: "length (le_bytes k n) = k"
  by (induction k arbitrary: n) auto

lemma be_val_snoc [simp]: "be_val (bs @ [b]) = be_val bs * 256 + unat b"
  by (simp add: be_val_def)

lemma be_val_Cons: "be_val (b # bs) = unat b * 256 ^ length bs + be_val bs"
proof (induction bs rule: rev_induct)
  case Nil
  then show ?case by (simp add: be_val_def)
next
  case (snoc a bs)
  have "be_val (b # bs @ [a]) = be_val (b # bs) * 256 + unat a"
    using be_val_snoc [of "b # bs" a] by simp
  then show ?case by (simp add: snoc algebra_simps)
qed

lemma be_val_bound: "be_val bs < 256 ^ length bs"
proof (induction bs rule: rev_induct)
  case Nil
  then show ?case by (simp add: be_val_def)
next
  case (snoc b bs)
  have "be_val (bs @ [b]) < (be_val bs + 1) * 256" using unat_byte_less [of b] by simp
  also have "\<dots> \<le> 256 ^ length bs * 256" using snoc by (intro mult_le_mono1) simp
  finally show ?case by (simp add: mult.commute)
qed

lemma be_bytes_append: "be_bytes (j + k) n = be_bytes j (n div 256 ^ k) @ be_bytes k n"
  by (induction k arbitrary: n) (simp_all add: div_mult2_eq)

lemma be_bytes_0: "be_bytes k 0 = replicate k 0"
  by (induction k) (simp_all flip: replicate_append_same)

lemma mod_power_Suc: "(n :: nat) mod 256 ^ Suc k = n mod 256 + 256 * (n div 256 mod 256 ^ k)"
  by (simp add: mod_mult2_eq)

lemma be_val_be_bytes: "be_val (be_bytes k n) = n mod 256 ^ k"
proof (induction k arbitrary: n)
  case 0
  then show ?case by (simp add: be_val_def)
next
  case (Suc k)
  have "be_val (be_bytes (Suc k) n) = (n div 256 mod 256 ^ k) * 256 + n mod 256"
    by (simp add: Suc.IH unat_byte_of_nat)
  then show ?case by (simp only: mod_power_Suc mult.commute add.commute)
qed

lemma le_val_le_bytes: "le_val (le_bytes k n) = n mod 256 ^ k"
proof (induction k arbitrary: n)
  case 0
  then show ?case by simp
next
  case (Suc k)
  then have "le_val (le_bytes (Suc k) n) = n mod 256 + 256 * (n div 256 mod 256 ^ k)"
    by (simp add: unat_byte_of_nat)
  then show ?case by (simp only: mod_power_Suc)
qed

lemma le_val_bound: "le_val bs < 256 ^ length bs"
proof (induction bs)
  case Nil
  then show ?case by simp
next
  case (Cons b bs)
  have "le_val (b # bs) < 256 + 256 * le_val bs" by simp
  also have "\<dots> \<le> 256 * 256 ^ length bs"
    using Cons by (simp add: Suc_le_eq flip: mult_Suc_right)
  finally show ?case by simp
qed

lemma le_bytes_le_val: "le_bytes (length bs) (le_val bs) = bs"
proof (induction bs)
  case Nil
  then show ?case by simp
next
  case (Cons b bs)
  have "(unat b + 256 * le_val bs) div 256 = le_val bs" by simp
  moreover have "word_of_nat (unat b + 256 * le_val bs) = b"
    by (metis mod_mult_self2 unat_byte_less mod_less unat_byte_of_nat word_unat_eq_iff)
  ultimately show ?case using Cons by simp
qed

section \<open>Interfaces\<close>

text \<open>A codec: decoding what was encoded gives it back, for the values it accepts.\<close>

locale codec =
  fixes enc :: "'a \<Rightarrow> 'b"
    and dec :: "'b \<Rightarrow> 'a option"
    and valid :: "'a \<Rightarrow> bool"
  assumes dec_enc: "valid a \<Longrightarrow> dec (enc a) = Some a"
begin

lemma enc_inj: "valid a \<Longrightarrow> valid b \<Longrightarrow> enc a = enc b \<Longrightarrow> a = b"
  by (metis dec_enc option.inject)

lemma enc_inj_on: "inj_on enc {a. valid a}"
  by (rule inj_onI) (auto dest: enc_inj)

end

text \<open>
  A self-delimiting codec: \<open>get\<close> splits one item off the front of a stream and returns what
  follows. It extends \<open>codec\<close> (a whole input that is one item), and sequences of items decode
  to the items.
\<close>

fun get_seq :: "('s \<Rightarrow> ('a \<times> 's) option) \<Rightarrow> nat \<Rightarrow> 's \<Rightarrow> ('a list \<times> 's) option" where
  "get_seq get 0 s = Some ([], s)"
| "get_seq get (Suc n) s =
     (case get s of
        None \<Rightarrow> None
      | Some (a, s') \<Rightarrow>
          (case get_seq get n s' of
             None \<Rightarrow> None
           | Some (as, s'') \<Rightarrow> Some (a # as, s'')))"

definition get_only :: "('x list \<Rightarrow> ('a \<times> 'x list) option) \<Rightarrow> 'x list \<Rightarrow> 'a option" where
  "get_only get s = (case get s of Some (a, []) \<Rightarrow> Some a | _ \<Rightarrow> None)"

locale self_delimiting =
  fixes put :: "'a \<Rightarrow> 'x list"
    and get :: "'x list \<Rightarrow> ('a \<times> 'x list) option"
    and valid :: "'a \<Rightarrow> bool"
  assumes get_put: "valid a \<Longrightarrow> get (put a @ rest) = Some (a, rest)"
begin

lemma get_put_only: "valid a \<Longrightarrow> get_only get (put a) = Some a"
  using get_put [of a "[]"] by (simp add: get_only_def)

lemma get_seq_concat:
  "list_all valid xs \<Longrightarrow> get_seq get (length xs) (concat (map put xs) @ rest) = Some (xs, rest)"
proof (induction xs)
  case Nil
  then show ?case by simp
next
  case (Cons x xs)
  then have "get (put x @ concat (map put xs) @ rest) = Some (x, concat (map put xs) @ rest)"
    by (intro get_put) simp
  with Cons show ?case by simp
qed

lemma put_prefix_free:
  assumes "valid a" and "valid b" and "put a @ r = put b @ r'"
  shows "a = b \<and> r = r'"
proof -
  have "Some (a, r) = get (put a @ r)" by (simp only: get_put [OF assms(1)])
  also have "\<dots> = get (put b @ r')" by (simp only: assms(3))
  also have "\<dots> = Some (b, r')" by (simp only: get_put [OF assms(2)])
  finally show ?thesis by simp
qed

lemma concat_put_inj:
  assumes "list_all valid xs" and "list_all valid ys" and "length xs = length ys"
    and "concat (map put xs) = concat (map put ys)"
  shows "xs = ys"
proof -
  have "Some (xs, []) = get_seq get (length xs) (concat (map put xs) @ [])"
    by (simp only: get_seq_concat [OF assms(1)])
  also have "\<dots> = get_seq get (length ys) (concat (map put ys) @ [])"
    by (simp only: assms(3,4))
  also have "\<dots> = Some (ys, [])" by (simp only: get_seq_concat [OF assms(2)])
  finally show ?thesis by simp
qed

end

sublocale self_delimiting \<subseteq> only: codec put "get_only get" valid
  by unfold_locales (rule get_put_only)

text \<open>A deterministic machine driven by events, and an invariant every step keeps.\<close>

definition run :: "('s \<Rightarrow> 'e \<Rightarrow> 's) \<Rightarrow> 's \<Rightarrow> 'e list \<Rightarrow> 's" where
  "run step s es = foldl step s es"

lemma run_Nil [simp]: "run step s [] = s"
  by (simp add: run_def)

lemma run_Cons [simp]: "run step s (e # es) = run step (step s e) es"
  by (simp add: run_def)

lemma run_append [simp]: "run step s (es @ fs) = run step (run step s es) fs"
  by (simp add: run_def)

text \<open>What the events of a run cost, and how far a run can get for that: \<open>le n s t\<close> for a cost of \<open>n\<close>.\<close>

definition costs :: "('e \<Rightarrow> nat) \<Rightarrow> 'e list \<Rightarrow> nat" where
  "costs cost es = sum_list (map cost es)"

lemma costs_simps [simp]:
  "costs cost [] = 0" "costs cost (e # es) = cost e + costs cost es"
  by (simp_all add: costs_def)

locale machine =
  fixes step :: "'s \<Rightarrow> 'e \<Rightarrow> 's"
    and inv :: "'s \<Rightarrow> bool"
    and cost :: "'e \<Rightarrow> nat"
    and le :: "nat \<Rightarrow> 's \<Rightarrow> 's \<Rightarrow> bool"
  assumes inv_step: "inv s \<Longrightarrow> inv (step s e)"
    and le_refl: "inv s \<Longrightarrow> le 0 s s"
    and le_trans: "le m s t \<Longrightarrow> le n t u \<Longrightarrow> le (m + n) s u"
    and le_step: "inv s \<Longrightarrow> le (cost e) s (step s e)"
begin

lemma inv_run: "inv s \<Longrightarrow> inv (run step s es)"
  by (induction es arbitrary: s) (auto intro: inv_step)

lemma le_run: "inv s \<Longrightarrow> le (costs cost es) s (run step s es)"
proof (induction es arbitrary: s)
  case Nil
  then show ?case by (simp add: le_refl)
next
  case (Cons e es)
  have "le (costs cost es) (step s e) (run step (step s e) es)"
    using Cons.IH inv_step [OF Cons.prems] by simp
  then show ?case using le_trans [OF le_step [OF Cons.prems]] by simp
qed

lemma le_run_prefix: "inv s \<Longrightarrow> le (costs cost fs) (run step s es) (run step s (es @ fs))"
  by (simp add: inv_run le_run)

end

end
