(* ===== verification/Wire.thy ===== *)
theory Wire
  imports Prelude
begin

text \<open>
  The control wire (\<open>trust-core/src/lib.rs\<close>): the values it carries, their MessagePack maps, the
  length-prefixed frames, and how a client collects a chunked reply.

  \<open>peios::msgpack\<close> is a crate outside this repository. Its writer is a list of tokens, one per
  \<open>write_*\<close> call, that \<open>to_bytes\<close> turns into bytes; its reader is a state type \<open>'r\<close> and one
  operation per \<open>read_*\<close> method. Both are the record \<open>msgpack\<close>, an argument of every definition
  that uses them. \<open>msgpack_laws\<close> is what the code relies on: a reader over what a complete value
  was written to returns those tokens, one by one.
\<close>

section \<open>The values\<close>

definition MAX_MESSAGE_BYTES :: nat where
  "MAX_MESSAGE_BYTES = 65536"

definition ROOTS_PER_CHUNK :: nat where
  "ROOTS_PER_CHUNK = 24"

definition TRUST_QUERY :: u32 where
  "TRUST_QUERY = 0x00000001"

definition TRUST_CONTROL :: u32 where
  "TRUST_CONTROL = 0x00000002"

datatype Source = Shipped | Added

fun source_as_str :: "Source \<Rightarrow> string" where
  "source_as_str Shipped = ''shipped''"
| "source_as_str Added = ''added''"

definition source_parse :: "string \<Rightarrow> Source option" where
  "source_parse s = (if s = ''shipped'' then Some Shipped else if s = ''added'' then Some Added else None)"

record root =
  r_fingerprint :: string
  r_subject :: string
  r_purposes :: "string list"
  r_source :: Source
  r_name :: "string option"
  r_not_after :: int
  r_der :: bytes

datatype Request =
    ReqRoots bool "string option"
  | ReqSubscribe bool
  | ReqStatus
  | ReqReload

fun required_right :: "Request \<Rightarrow> u32" where
  "required_right ReqReload = TRUST_CONTROL"
| "required_right _ = TRUST_QUERY"

datatype Health = HealthOk | Degraded

fun health_as_str :: "Health \<Rightarrow> string" where
  "health_as_str HealthOk = ''ok''"
| "health_as_str Degraded = ''degraded''"

definition health_parse :: "string \<Rightarrow> Health option" where
  "health_parse s = (if s = ''ok'' then Some HealthOk else if s = ''degraded'' then Some Degraded else None)"

record status =
  s_generation :: u64
  s_health :: Health
  s_message :: "string option"
  s_shipped :: u64
  s_added :: u64
  s_distrusted :: u64
  s_skipped :: u64
  s_effective :: u64
  s_compat_mode :: u32
  s_rendered :: "string list"

datatype Reply =
    ReplyOk
  | ReplyError string
  | ReplyRoots u64 "root list" bool
  | ReplyStatus status

text \<open>\<open>Root::default()\<close> and \<open>Status::default()\<close>.\<close>

definition root_default :: root where
  "root_default = \<lparr>r_fingerprint = [], r_subject = [], r_purposes = [], r_source = Shipped,
     r_name = None, r_not_after = 0, r_der = []\<rparr>"

definition status_default :: status where
  "status_default = \<lparr>s_generation = 0, s_health = HealthOk, s_message = None, s_shipped = 0,
     s_added = 0, s_distrusted = 0, s_skipped = 0, s_effective = 0, s_compat_mode = 0,
     s_rendered = []\<rparr>"

section \<open>MessagePack\<close>

datatype tok =
    MapHdr nat
  | ArrHdr nat
  | Str string
  | Bin bytes
  | UInt u64
  | SInt int
  | Bool bool
  | Nil

text \<open>How many values a token announces after itself, and whether the reader can return it.\<close>

fun arity :: "tok \<Rightarrow> nat" where
  "arity (MapHdr n) = 2 * n"
| "arity (ArrHdr n) = n"
| "arity _ = 0"

fun valid_tok :: "tok \<Rightarrow> bool" where
  "valid_tok (MapHdr n) = (n < 2 ^ 32)"
| "valid_tok (ArrHdr n) = (n < 2 ^ 32)"
| "valid_tok (Str s) = (length s < 2 ^ 32 \<and> utf8 s)"
| "valid_tok (Bin b) = (length b < 2 ^ 32)"
| "valid_tok (SInt i) = (- (2 ^ 63) \<le> i \<and> i < 2 ^ 63)"
| "valid_tok _ = True"

text \<open>\<open>due k ts\<close>: the tokens are exactly \<open>k\<close> values.\<close>

fun due :: "nat \<Rightarrow> tok list \<Rightarrow> bool" where
  "due k [] = (k = 0)"
| "due 0 (t # ts) = False"
| "due (Suc k) (t # ts) = due (k + arity t) ts"

definition complete_value :: "tok list \<Rightarrow> bool" where
  "complete_value ts \<longleftrightarrow> due 1 ts \<and> list_all valid_tok ts"

record ('r, 'e) msgpack =
  to_bytes :: "tok list \<Rightarrow> 'e + bytes"
  reader :: "bytes \<Rightarrow> 'r"
  read_map :: "'r \<Rightarrow> 'e + nat \<times> 'r"
  read_array :: "'r \<Rightarrow> 'e + nat \<times> 'r"
  read_str :: "'r \<Rightarrow> 'e + string \<times> 'r"
  read_bin :: "'r \<Rightarrow> 'e + bytes \<times> 'r"
  read_uint :: "'r \<Rightarrow> 'e + u64 \<times> 'r"
  read_int :: "'r \<Rightarrow> 'e + int \<times> 'r"
  read_bool :: "'r \<Rightarrow> 'e + bool \<times> 'r"
  read_nil :: "'r \<Rightarrow> 'e + 'r"
  skip :: "'r \<Rightarrow> 'e + 'r"
  peek_nil :: "'r \<Rightarrow> bool"
  remaining :: "'r \<Rightarrow> nat"

text \<open>What a reader standing before a token does with it, and where it then stands.\<close>

fun reads_tok :: "('r, 'e) msgpack \<Rightarrow> 'r \<Rightarrow> tok \<Rightarrow> 'r \<Rightarrow> bool" where
  "reads_tok M r (MapHdr n) r' \<longleftrightarrow> read_map M r = Inr (n, r')"
| "reads_tok M r (ArrHdr n) r' \<longleftrightarrow> read_array M r = Inr (n, r')"
| "reads_tok M r (Str s) r' \<longleftrightarrow> read_str M r = Inr (s, r')"
| "reads_tok M r (Bin b) r' \<longleftrightarrow> read_bin M r = Inr (b, r')"
| "reads_tok M r (UInt n) r' \<longleftrightarrow> read_uint M r = Inr (n, r')"
| "reads_tok M r (SInt i) r' \<longleftrightarrow> read_int M r = Inr (i, r')"
| "reads_tok M r (Bool b) r' \<longleftrightarrow> read_bool M r = Inr (b, r')"
| "reads_tok M r Nil r' \<longleftrightarrow> read_nil M r = Inr r'"

fun stands :: "('r, 'e) msgpack \<Rightarrow> 'r \<Rightarrow> tok list \<Rightarrow> bool" where
  "stands M r [] \<longleftrightarrow> True"
| "stands M r (t # ts) \<longleftrightarrow>
     (peek_nil M r \<longleftrightarrow> t = Nil) \<and> length (t # ts) \<le> remaining M r \<and>
     (\<exists>r'. reads_tok M r t r' \<and> stands M r' ts)"

text \<open>
  What the code relies on: a complete value encodes, and a reader over its encoding stands
  before its tokens (each of which takes at least one byte).
\<close>

definition msgpack_laws :: "('r, 'e) msgpack \<Rightarrow> bool" where
  "msgpack_laws M \<longleftrightarrow>
     (\<forall>ts. complete_value ts \<longrightarrow> (\<exists>bytes. to_bytes M ts = Inr bytes \<and> stands M (reader M bytes) ts))"

section \<open>Errors\<close>

datatype 'e wire_error =
    Encoding 'e
  | Missing string
  | Duplicate string
  | UnknownQuery string
  | TooLarge nat
  | Io io_error

section \<open>Writing\<close>

definition write_str_list :: "string \<Rightarrow> string list \<Rightarrow> tok list" where
  "write_str_list key items = Str key # ArrHdr (length items mod 2 ^ 32) # map Str items"

definition write_opt_str :: "string \<Rightarrow> string option \<Rightarrow> tok list" where
  "write_opt_str key v = [Str key, case v of Some s \<Rightarrow> Str s | None \<Rightarrow> Nil]"

fun request_tokens :: "Request \<Rightarrow> tok list" where
  "request_tokens (ReqRoots with_der purpose) =
     [MapHdr 3, Str ''query'', Str ''roots'', Str ''with_der'', Bool with_der] @
     write_opt_str ''purpose'' purpose"
| "request_tokens (ReqSubscribe with_der) =
     [MapHdr 2, Str ''query'', Str ''subscribe'', Str ''with_der'', Bool with_der]"
| "request_tokens ReqStatus = [MapHdr 1, Str ''query'', Str ''status'']"
| "request_tokens ReqReload = [MapHdr 1, Str ''query'', Str ''reload'']"

definition root_tokens :: "root \<Rightarrow> tok list" where
  "root_tokens root =
     [MapHdr 7, Str ''fingerprint'', Str (r_fingerprint root), Str ''subject'', Str (r_subject root)] @
     write_str_list ''purposes'' (r_purposes root) @
     [Str ''source'', Str (source_as_str (r_source root))] @
     write_opt_str ''name'' (r_name root) @
     [Str ''not_after'', SInt (r_not_after root), Str ''der'', Bin (r_der root)]"

fun reply_tokens :: "Reply \<Rightarrow> tok list" where
  "reply_tokens ReplyOk = [MapHdr 1, Str ''ok'', Bool True]"
| "reply_tokens (ReplyError message) =
     [MapHdr 2, Str ''ok'', Bool False, Str ''error'', Str message]"
| "reply_tokens (ReplyRoots generation roots follows) =
     [MapHdr 5, Str ''ok'', Bool True, Str ''kind'', Str ''roots'',
      Str ''generation'', UInt generation, Str ''more'', Bool follows,
      Str ''roots'', ArrHdr (length roots mod 2 ^ 32)] @
     concat (map root_tokens roots)"
| "reply_tokens (ReplyStatus s) =
     [MapHdr 12, Str ''ok'', Bool True, Str ''kind'', Str ''status'',
      Str ''generation'', UInt (s_generation s), Str ''health'', Str (health_as_str (s_health s))] @
     write_opt_str ''message'' (s_message s) @
     [Str ''shipped'', UInt (s_shipped s), Str ''added'', UInt (s_added s),
      Str ''distrusted'', UInt (s_distrusted s), Str ''skipped'', UInt (s_skipped s),
      Str ''effective'', UInt (s_effective s), Str ''compat_mode'', UInt (ucast (s_compat_mode s))] @
     write_str_list ''rendered'' (s_rendered s)"

text \<open>\<open>w.to_bytes().expect(...)\<close>: \<open>None\<close> is the panic.\<close>

definition expect :: "'e + 'a \<Rightarrow> 'a option" where
  "expect m = (case m of Inr a \<Rightarrow> Some a | Inl _ \<Rightarrow> None)"

definition encode_request :: "('r, 'e) msgpack \<Rightarrow> Request \<Rightarrow> bytes option" where
  "encode_request M request = expect (to_bytes M (request_tokens request))"

definition encode_reply :: "('r, 'e) msgpack \<Rightarrow> Reply \<Rightarrow> bytes option" where
  "encode_reply M reply = expect (to_bytes M (reply_tokens reply))"

section \<open>Reading\<close>

type_synonym ('r, 'e, 'a) read = "'r \<Rightarrow> 'e wire_error + 'a \<times> 'r"

text \<open>\<open>r.read_*()?\<close>: a reader's error becomes an \<open>Encoding\<close> error.\<close>

definition get_str :: "('r, 'e) msgpack \<Rightarrow> ('r, 'e, string) read" where
  "get_str M r = map_err Encoding (read_str M r)"

definition get_bool :: "('r, 'e) msgpack \<Rightarrow> ('r, 'e, bool) read" where
  "get_bool M r = map_err Encoding (read_bool M r)"

definition get_uint :: "('r, 'e) msgpack \<Rightarrow> ('r, 'e, u64) read" where
  "get_uint M r = map_err Encoding (read_uint M r)"

definition get_int :: "('r, 'e) msgpack \<Rightarrow> ('r, 'e, int) read" where
  "get_int M r = map_err Encoding (read_int M r)"

definition get_bin :: "('r, 'e) msgpack \<Rightarrow> ('r, 'e, bytes) read" where
  "get_bin M r = map_err Encoding (read_bin M r)"

definition do_skip :: "('r, 'e) msgpack \<Rightarrow> 'a \<Rightarrow> ('r, 'e, 'a) read" where
  "do_skip M acc r = bindE (map_err Encoding (skip M r)) (\<lambda>r. Inr (acc, r))"

text \<open>\<open>out.push(item(r)?)\<close>, \<open>n\<close> times.\<close>

fun read_times :: "('r, 'e, 'a) read \<Rightarrow> nat \<Rightarrow> 'a list \<Rightarrow> ('r, 'e, 'a list) read" where
  "read_times item 0 out r = Inr (out, r)"
| "read_times item (Suc n) out r =
     bindE (item r) (\<lambda>(a, r). read_times item n (out @ [a]) r)"

definition read_str_list :: "('r, 'e) msgpack \<Rightarrow> ('r, 'e, string list) read" where
  "read_str_list M r =
     bindE (map_err Encoding (read_array M r)) (\<lambda>(n, r).
       if remaining M r < n then Inl (TooLarge n)
       else read_times (get_str M) n [] r)"

definition read_opt_str :: "('r, 'e) msgpack \<Rightarrow> ('r, 'e, string option) read" where
  "read_opt_str M r =
     (if peek_nil M r
      then bindE (map_err Encoding (read_nil M r)) (\<lambda>r. Inr (None, r))
      else bindE (get_str M r) (\<lambda>(s, r). Inr (Some s, r)))"

text \<open>
  Walking a map. The closure's captured variables are the accumulator \<open>acc\<close>.
\<close>

fun field_loop ::
  "('r, 'e) msgpack \<Rightarrow> (string \<Rightarrow> 'a \<Rightarrow> ('r, 'e, 'a) read) \<Rightarrow> nat \<Rightarrow> string list \<Rightarrow> 'a \<Rightarrow> ('r, 'e, 'a) read"
where
  "field_loop M f 0 seen acc r = Inr (acc, r)"
| "field_loop M f (Suc n) seen acc r =
     bindE (get_str M r) (\<lambda>(key, r).
       if key \<in> set seen then Inl (Duplicate key)
       else bindE (f key acc r) (\<lambda>(acc, r). field_loop M f n (seen @ [key]) acc r))"

definition for_each_field ::
  "('r, 'e) msgpack \<Rightarrow> (string \<Rightarrow> 'a \<Rightarrow> ('r, 'e, 'a) read) \<Rightarrow> 'a \<Rightarrow> ('r, 'e, 'a) read"
where
  "for_each_field M f acc r =
     bindE (map_err Encoding (read_map M r)) (\<lambda>(n, r). field_loop M f n [] acc r)"

text \<open>Assign what was read to one variable of the closure's.\<close>

definition assign :: "('b \<Rightarrow> 'a) \<Rightarrow> ('e wire_error + 'b \<times> 'r) \<Rightarrow> 'e wire_error + 'a \<times> 'r" where
  "assign upd m = bindE m (\<lambda>(b, r). Inr (upd b, r))"

type_synonym request_acc = "string option \<times> bool \<times> string option"

fun request_field :: "('r, 'e) msgpack \<Rightarrow> string \<Rightarrow> request_acc \<Rightarrow> ('r, 'e, request_acc) read" where
  "request_field M key (query, with_der, purpose) r =
     (if key = ''query'' then assign (\<lambda>s. (Some s, with_der, purpose)) (get_str M r)
      else if key = ''with_der'' then assign (\<lambda>b. (query, b, purpose)) (get_bool M r)
      else if key = ''purpose'' then assign (\<lambda>p. (query, with_der, p)) (read_opt_str M r)
      else do_skip M (query, with_der, purpose) r)"

fun request_finish :: "request_acc \<Rightarrow> 'e wire_error + Request" where
  "request_finish (query, with_der, purpose) =
     (case query of
        None \<Rightarrow> Inl (Missing ''query'')
      | Some q \<Rightarrow>
          if q = ''roots'' then Inr (ReqRoots with_der purpose)
          else if q = ''subscribe'' then Inr (ReqSubscribe with_der)
          else if q = ''status'' then Inr ReqStatus
          else if q = ''reload'' then Inr ReqReload
          else Inl (UnknownQuery q))"

definition decode_request :: "('r, 'e) msgpack \<Rightarrow> bytes \<Rightarrow> 'e wire_error + Request" where
  "decode_request M bytes =
     bindE (for_each_field M (request_field M) (None, False, None) (reader M bytes))
       (\<lambda>(acc, _). request_finish acc)"

definition root_field :: "('r, 'e) msgpack \<Rightarrow> string \<Rightarrow> root \<Rightarrow> ('r, 'e, root) read" where
  "root_field M key root r =
     (if key = ''fingerprint'' then assign (\<lambda>s. root\<lparr>r_fingerprint := s\<rparr>) (get_str M r)
      else if key = ''subject'' then assign (\<lambda>s. root\<lparr>r_subject := s\<rparr>) (get_str M r)
      else if key = ''purposes'' then assign (\<lambda>ps. root\<lparr>r_purposes := ps\<rparr>) (read_str_list M r)
      else if key = ''source'' then
        assign (\<lambda>s. root\<lparr>r_source := (case source_parse s of Some src \<Rightarrow> src | None \<Rightarrow> Shipped)\<rparr>)
          (get_str M r)
      else if key = ''name'' then assign (\<lambda>n. root\<lparr>r_name := n\<rparr>) (read_opt_str M r)
      else if key = ''not_after'' then assign (\<lambda>i. root\<lparr>r_not_after := i\<rparr>) (get_int M r)
      else if key = ''der'' then assign (\<lambda>d. root\<lparr>r_der := d\<rparr>) (get_bin M r)
      else do_skip M root r)"

definition decode_root :: "('r, 'e) msgpack \<Rightarrow> ('r, 'e, root) read" where
  "decode_root M r = for_each_field M (root_field M) root_default r"

record reply_acc =
  a_ok :: "bool option"
  a_error :: "string option"
  a_kind :: "string option"
  a_generation :: u64
  a_more :: bool
  a_roots :: "root list"
  a_status :: status

definition status_field ::
  "('r, 'e) msgpack \<Rightarrow> string \<Rightarrow> status \<Rightarrow> ('r, 'e, status) read" where
  "status_field M key s r =
     (if key = ''health'' then
        assign (\<lambda>t. s\<lparr>s_health := (case health_parse t of Some h \<Rightarrow> h | None \<Rightarrow> HealthOk)\<rparr>) (get_str M r)
      else if key = ''message'' then assign (\<lambda>m. s\<lparr>s_message := m\<rparr>) (read_opt_str M r)
      else if key = ''shipped'' then assign (\<lambda>n. s\<lparr>s_shipped := n\<rparr>) (get_uint M r)
      else if key = ''added'' then assign (\<lambda>n. s\<lparr>s_added := n\<rparr>) (get_uint M r)
      else if key = ''distrusted'' then assign (\<lambda>n. s\<lparr>s_distrusted := n\<rparr>) (get_uint M r)
      else if key = ''skipped'' then assign (\<lambda>n. s\<lparr>s_skipped := n\<rparr>) (get_uint M r)
      else if key = ''effective'' then assign (\<lambda>n. s\<lparr>s_effective := n\<rparr>) (get_uint M r)
      else if key = ''compat_mode'' then assign (\<lambda>n. s\<lparr>s_compat_mode := ucast n\<rparr>) (get_uint M r)
      else if key = ''rendered'' then assign (\<lambda>ps. s\<lparr>s_rendered := ps\<rparr>) (read_str_list M r)
      else do_skip M s r)"

definition reply_field ::
  "('r, 'e) msgpack \<Rightarrow> string \<Rightarrow> reply_acc \<Rightarrow> ('r, 'e, reply_acc) read" where
  "reply_field M key acc r =
     (if key = ''ok'' then assign (\<lambda>b. acc\<lparr>a_ok := Some b\<rparr>) (get_bool M r)
      else if key = ''error'' then assign (\<lambda>s. acc\<lparr>a_error := Some s\<rparr>) (get_str M r)
      else if key = ''kind'' then assign (\<lambda>s. acc\<lparr>a_kind := Some s\<rparr>) (get_str M r)
      else if key = ''generation'' then
        assign (\<lambda>n. acc\<lparr>a_generation := n, a_status := (a_status acc)\<lparr>s_generation := n\<rparr>\<rparr>) (get_uint M r)
      else if key = ''more'' then assign (\<lambda>b. acc\<lparr>a_more := b\<rparr>) (get_bool M r)
      else if key = ''roots'' then
        bindE (map_err Encoding (read_array M r)) (\<lambda>(n, r).
          assign (\<lambda>roots. acc\<lparr>a_roots := roots\<rparr>) (read_times (decode_root M) n (a_roots acc) r))
      else assign (\<lambda>s. acc\<lparr>a_status := s\<rparr>) (status_field M key (a_status acc) r))"

definition reply_start :: reply_acc where
  "reply_start = \<lparr>a_ok = None, a_error = None, a_kind = None, a_generation = 0, a_more = False,
     a_roots = [], a_status = status_default\<rparr>"

definition reply_finish :: "reply_acc \<Rightarrow> 'e wire_error + Reply" where
  "reply_finish acc =
     (case a_ok acc of
        None \<Rightarrow> Inl (Missing ''ok'')
      | Some False \<Rightarrow>
          Inr (ReplyError (case a_error acc of Some e \<Rightarrow> e | None \<Rightarrow> ''unspecified error''))
      | Some True \<Rightarrow>
          if a_kind acc = Some ''roots''
          then Inr (ReplyRoots (a_generation acc) (a_roots acc) (a_more acc))
          else if a_kind acc = Some ''status'' then Inr (ReplyStatus (a_status acc))
          else Inr ReplyOk)"

definition decode_reply :: "('r, 'e) msgpack \<Rightarrow> bytes \<Rightarrow> 'e wire_error + Reply" where
  "decode_reply M bytes =
     bindE (for_each_field M (reply_field M) reply_start (reader M bytes)) (\<lambda>(acc, _). reply_finish acc)"

section \<open>Frames\<close>

text \<open>
  \<open>send\<close> to a stream, given as what \<open>write_all\<close> and \<open>flush\<close> of a frame do to it; \<open>recv\<close> from the
  bytes a stream will deliver before it ends.
\<close>

definition send :: "(bytes \<Rightarrow> io_error + 's) \<Rightarrow> bytes \<Rightarrow> 'e wire_error + 's" where
  "send write_all payload =
     (if MAX_MESSAGE_BYTES < length payload then Inl (TooLarge (length payload))
      else map_err Io (write_all (le_bytes 4 (length payload) @ payload)))"

definition read_exact :: "nat \<Rightarrow> bytes \<Rightarrow> 'e wire_error + bytes \<times> bytes" where
  "read_exact n stream =
     (if length stream < n then Inl (Io (IoError UnexpectedEof None ''failed to fill whole buffer''))
      else Inr (take n stream, drop n stream))"

definition recv :: "bytes \<Rightarrow> 'e wire_error + bytes \<times> bytes" where
  "recv stream =
     bindE (read_exact 4 stream) (\<lambda>(len, stream).
       let len = le_val len
       in if MAX_MESSAGE_BYTES < len then Inl (TooLarge len)
          else read_exact len stream)"

text \<open>
  The loop of \<open>call\<close>, over what the stream delivers after the request was sent: replies up to
  the first without \<open>more\<close>.
\<close>

fun is_more :: "Reply \<Rightarrow> bool" where
  "is_more (ReplyRoots _ _ True) = True"
| "is_more _ = False"

lemma recv_shorter: "recv stream = Inr (payload, stream') \<Longrightarrow> length stream' < length stream"
  by (auto simp: recv_def read_exact_def conv Let_def split: if_splits)

function call_loop :: "('r, 'e) msgpack \<Rightarrow> Reply list \<Rightarrow> bytes \<Rightarrow> 'e wire_error + Reply list" where
  "call_loop M out stream =
     (case recv stream of
        Inl e \<Rightarrow> Inl e
      | Inr (payload, stream') \<Rightarrow>
          (case decode_reply M payload of
             Inl e \<Rightarrow> Inl e
           | Inr reply \<Rightarrow>
               if is_more reply then call_loop M (out @ [reply]) stream' else Inr (out @ [reply])))"
  by pat_completeness auto
termination
  by (relation "measure (\<lambda>(M, out, stream). length stream)") (auto simp: recv_shorter)

declare call_loop.simps [simp del]

definition call ::
  "('r, 'e) msgpack \<Rightarrow> (bytes \<Rightarrow> io_error + bytes) \<Rightarrow> Request \<Rightarrow> ('e wire_error + Reply list) option" where
  "call M write_all request =
     map_option (\<lambda>payload. bindE (send write_all payload) (call_loop M []))
       (encode_request M request)"

section \<open>Collecting a root set\<close>

text \<open>\<open>roots_of\<close>'s loop: the generation seen, the roots so far, whether the last chunk came.\<close>

fun roots_loop :: "u64 option \<Rightarrow> root list \<Rightarrow> bool \<Rightarrow> Reply list \<Rightarrow> string + u64 option \<times> root list \<times> bool" where
  "roots_loop generation roots complete [] = Inr (generation, roots, complete)"
| "roots_loop generation roots complete (reply # replies) =
     (if complete then Inl ''reply after completed root snapshot''
      else case reply of
        ReplyRoots current batch follows \<Rightarrow>
          (if generation \<noteq> None \<and> generation \<noteq> Some current
           then Inl ''root snapshot changed generation''
           else roots_loop (Some current) (roots @ batch) (\<not> follows) replies)
      | ReplyError error \<Rightarrow> Inl error
      | _ \<Rightarrow> Inl ''unexpected reply'')"

text \<open>The result's \<open>None\<close> is the panic of \<open>generation.expect\<close>.\<close>

definition roots_of :: "Reply list \<Rightarrow> (string + u64 \<times> root list) option" where
  "roots_of replies =
     (case roots_loop None [] False replies of
        Inl e \<Rightarrow> Some (Inl e)
      | Inr (generation, roots, complete) \<Rightarrow>
          if \<not> complete then Some (Inl ''incomplete root snapshot'')
          else map_option (\<lambda>g. Inr (g, roots)) generation)"

section \<open>Frames: lemmas\<close>

definition frame_of :: "bytes \<Rightarrow> bytes" where
  "frame_of payload = le_bytes 4 (length payload) @ payload"

definition recv_opt :: "bytes \<Rightarrow> (bytes \<times> bytes) option" where
  "recv_opt stream = (case recv stream :: unit wire_error + _ of Inr x \<Rightarrow> Some x | Inl _ \<Rightarrow> None)"

lemma recv_frame:
  assumes "length payload \<le> MAX_MESSAGE_BYTES"
  shows "recv (frame_of payload @ rest) = Inr (payload, rest)"
proof -
  have "le_val (le_bytes 4 (length payload)) = length payload"
    using assms by (simp add: le_val_le_bytes MAX_MESSAGE_BYTES_def)
  then show ?thesis
    using assms by (simp add: recv_def frame_of_def read_exact_def Let_def)
qed

interpretation frame: self_delimiting frame_of recv_opt "\<lambda>p. length p \<le> MAX_MESSAGE_BYTES"
  by unfold_locales (simp add: recv_opt_def recv_frame)

section \<open>Reading what was written\<close>

text \<open>\<open>consumes M g ts a\<close>: standing before \<open>ts\<close>, \<open>g\<close> reads exactly \<open>ts\<close> and returns \<open>a\<close>.\<close>

definition consumes :: "('r, 'e) msgpack \<Rightarrow> ('r, 'e, 'a) read \<Rightarrow> tok list \<Rightarrow> 'a \<Rightarrow> bool" where
  "consumes M g ts a \<longleftrightarrow>
     (\<forall>r rest. stands M r (ts @ rest) \<longrightarrow> (\<exists>r'. g r = Inr (a, r') \<and> stands M r' rest))"

named_theorems reads \<open>which reader operations consume which tokens\<close>

lemma consumes_str [reads]: "consumes M (get_str M) [Str s] s"
  and consumes_bool [reads]: "consumes M (get_bool M) [Bool b] b"
  and consumes_uint [reads]: "consumes M (get_uint M) [UInt n] n"
  and consumes_int [reads]: "consumes M (get_int M) [SInt i] i"
  and consumes_bin [reads]: "consumes M (get_bin M) [Bin bs] bs"
  by (auto simp: consumes_def get_str_def get_bool_def get_uint_def get_int_def get_bin_def)

lemma consumes_opt_str [reads]:
  "consumes M (read_opt_str M) [case v of Some s \<Rightarrow> Str s | None \<Rightarrow> Nil] v"
  by (cases v) (auto simp: consumes_def read_opt_str_def get_str_def)

lemma consumes_times:
  assumes "\<And>x. x \<in> set xs \<Longrightarrow> consumes M item (put x) x"
  shows "consumes M (read_times item (length xs) out) (concat (map put xs)) (out @ xs)"
  using assms
proof (induction xs arbitrary: out)
  case Nil
  then show ?case by (simp add: consumes_def)
next
  case (Cons x xs)
  show ?case
    unfolding consumes_def
  proof (intro allI impI)
    fix r rest
    assume "stands M r (concat (map put (x # xs)) @ rest)"
    then obtain r' where "item r = Inr (x, r')" and r': "stands M r' (concat (map put xs) @ rest)"
      using Cons.prems [of x] by (auto simp: consumes_def)
    moreover obtain r'' where "read_times item (length xs) (out @ [x]) r' = Inr (out @ x # xs, r'')"
        "stands M r'' rest"
      using Cons.IH [of "out @ [x]"] Cons.prems r' unfolding consumes_def by fastforce
    ultimately show "\<exists>r'. read_times item (length (x # xs)) out r = Inr (out @ x # xs, r') \<and> stands M r' rest"
      by simp
  qed
qed

lemma stands_remaining: "stands M r ts \<Longrightarrow> length ts \<le> remaining M r"
  by (cases ts) auto

lemma consumes_str_list [reads]:
  assumes "length items < 2 ^ 32"
  shows "consumes M (read_str_list M) (ArrHdr (length items mod 2 ^ 32) # map Str items) items"
  unfolding consumes_def
proof (intro allI impI)
  fix r rest
  assume "stands M r ((ArrHdr (length items mod 2 ^ 32) # map Str items) @ rest)"
  then obtain r' where hdr: "read_array M r = Inr (length items, r')"
    and r': "stands M r' (map Str items @ rest)"
    using assms by auto
  have fits: "length items \<le> remaining M r'" using stands_remaining [OF r'] by simp
  have "consumes M (read_times (get_str M) (length items) []) (concat (map (\<lambda>s. [Str s]) items)) ([] @ items)"
    by (rule consumes_times) (rule consumes_str)
  moreover have "concat (map (\<lambda>s. [Str s]) items) = map Str items" by (induction items) auto
  ultimately show "\<exists>r'. read_str_list M r = Inr (items, r') \<and> stands M r' rest"
    using hdr r' fits by (auto simp: read_str_list_def consumes_def)
qed

lemma field_loop_Nil [reads]: "acc = acc' \<Longrightarrow> consumes M (field_loop M f 0 seen acc) [] acc'"
  by (simp add: consumes_def)

lemma field_step:
  assumes "consumes M (f key acc) v acc1" and "key \<notin> set seen"
    and "consumes M (field_loop M f n (seen @ [key]) acc1) ts acc'"
  shows "consumes M (field_loop M f (Suc n) seen acc) (Str key # v @ ts) acc'"
  unfolding consumes_def
proof (intro allI impI)
  fix r rest
  assume "stands M r ((Str key # v @ ts) @ rest)"
  then obtain r1 where 1: "get_str M r = Inr (key, r1)" "stands M r1 (v @ ts @ rest)"
    by (auto simp: get_str_def)
  then obtain r2 where 2: "f key acc r1 = Inr (acc1, r2)" "stands M r2 (ts @ rest)"
    using assms(1) unfolding consumes_def by blast
  then obtain r3 where "field_loop M f n (seen @ [key]) acc1 r2 = Inr (acc', r3)" "stands M r3 rest"
    using assms(3) unfolding consumes_def by blast
  then show "\<exists>r'. field_loop M f (Suc n) seen acc r = Inr (acc', r') \<and> stands M r' rest"
    using 1 2 assms(2) by simp
qed

lemma consumes_assign: "consumes M g ts b \<Longrightarrow> upd b = a \<Longrightarrow> consumes M (\<lambda>r. assign upd (g r)) ts a"
  by (fastforce simp: consumes_def assign_def)

lemmas reads_assign =
  consumes_assign [OF consumes_str] consumes_assign [OF consumes_bool]
  consumes_assign [OF consumes_uint] consumes_assign [OF consumes_int]
  consumes_assign [OF consumes_bin] consumes_assign [OF consumes_opt_str]
  consumes_assign [OF consumes_str_list]

lemma consumes_fields:
  assumes "consumes M (field_loop M f k [] acc) ts acc'" and "n = k"
  shows "consumes M (for_each_field M f acc) (MapHdr n # ts) acc'"
  unfolding consumes_def
proof (intro allI impI)
  fix r rest
  assume "stands M r ((MapHdr n # ts) @ rest)"
  then obtain r1 where 1: "read_map M r = Inr (n, r1)" "stands M r1 (ts @ rest)"
    by auto
  then obtain r2 where "field_loop M f n [] acc r1 = Inr (acc', r2)" "stands M r2 rest"
    using assms unfolding consumes_def by blast
  then show "\<exists>r'. for_each_field M f acc r = Inr (acc', r') \<and> stands M r' rest"
    using 1 by (simp add: for_each_field_def)
qed

section \<open>Round trips: lemmas\<close>

lemma source_parse_as_str [simp]: "source_parse (source_as_str s) = Some s"
  by (cases s) (simp_all add: source_parse_def)

lemma health_parse_as_str [simp]: "health_parse (health_as_str h) = Some h"
  by (cases h) (simp_all add: health_parse_def)

lemma ucast_u32_u64 [simp]: "ucast (ucast (w :: u32) :: u64) = w"
  by (simp add: ucast_up_ucast_id is_up)

lemma request_field_reads:
  "consumes M (request_field M ''query'' (q, b, p)) [Str s] (Some s, b, p)"
  "consumes M (request_field M ''with_der'' (q, b, p)) [Bool b'] (q, b', p)"
  "consumes M (request_field M ''purpose'' (q, b, p)) [case v of Some s \<Rightarrow> Str s | None \<Rightarrow> Nil] (q, b, v)"
  by (simp_all add: request_field.simps [abs_def] reads_assign)

lemma root_field_reads:
  "consumes M (root_field M ''fingerprint'' root) [Str s] (root\<lparr>r_fingerprint := s\<rparr>)"
  "consumes M (root_field M ''subject'' root) [Str s] (root\<lparr>r_subject := s\<rparr>)"
  "consumes M (root_field M ''source'' root) [Str (source_as_str src)] (root\<lparr>r_source := src\<rparr>)"
  "consumes M (root_field M ''name'' root) [case v of Some s \<Rightarrow> Str s | None \<Rightarrow> Nil] (root\<lparr>r_name := v\<rparr>)"
  "consumes M (root_field M ''not_after'' root) [SInt i] (root\<lparr>r_not_after := i\<rparr>)"
  "consumes M (root_field M ''der'' root) [Bin d] (root\<lparr>r_der := d\<rparr>)"
  unfolding root_field_def [abs_def]
  by (simp_all add: reads_assign)

lemma root_purposes_read:
  assumes "length ps < 2 ^ 32"
  shows "consumes M (root_field M ''purposes'' root) (ArrHdr (length ps mod 2 ^ 32) # map Str ps)
    (root\<lparr>r_purposes := ps\<rparr>)"
proof -
  have "root_field M ''purposes'' root = (\<lambda>r. assign (\<lambda>ps. root\<lparr>r_purposes := ps\<rparr>) (read_str_list M r))"
    by (simp add: root_field_def fun_eq_iff)
  then show ?thesis by (simp only:) (rule consumes_assign [OF consumes_str_list [OF assms] refl])
qed

lemma consumes_root:
  assumes "length (r_purposes root) < 2 ^ 32"
  shows "consumes M (decode_root M) (root_tokens root) root"
proof -
  have "consumes M (for_each_field M (root_field M) root_default) (MapHdr 7 #
     Str ''fingerprint'' # [Str (r_fingerprint root)] @ Str ''subject'' # [Str (r_subject root)] @
     Str ''purposes'' # (ArrHdr (length (r_purposes root) mod 2 ^ 32) # map Str (r_purposes root)) @
     Str ''source'' # [Str (source_as_str (r_source root))] @
     Str ''name'' # [case r_name root of Some s \<Rightarrow> Str s | None \<Rightarrow> Nil] @
     Str ''not_after'' # [SInt (r_not_after root)] @ Str ''der'' # [Bin (r_der root)] @ []) root"
    by (rule consumes_fields, (rule field_step, rule root_field_reads root_purposes_read, (rule assms)?, simp)+,
        rule field_loop_Nil)
      (simp_all add: root_default_def)
  then show ?thesis
    by (simp add: root_tokens_def write_str_list_def write_opt_str_def decode_root_def [abs_def])
qed

lemma status_field_reads:
  "consumes M (status_field M ''health'' s) [Str (health_as_str h)] (s\<lparr>s_health := h\<rparr>)"
  "consumes M (status_field M ''message'' s) [case v of Some s \<Rightarrow> Str s | None \<Rightarrow> Nil] (s\<lparr>s_message := v\<rparr>)"
  "consumes M (status_field M ''shipped'' s) [UInt n] (s\<lparr>s_shipped := n\<rparr>)"
  "consumes M (status_field M ''added'' s) [UInt n] (s\<lparr>s_added := n\<rparr>)"
  "consumes M (status_field M ''distrusted'' s) [UInt n] (s\<lparr>s_distrusted := n\<rparr>)"
  "consumes M (status_field M ''skipped'' s) [UInt n] (s\<lparr>s_skipped := n\<rparr>)"
  "consumes M (status_field M ''effective'' s) [UInt n] (s\<lparr>s_effective := n\<rparr>)"
  "consumes M (status_field M ''compat_mode'' s) [UInt (ucast c)] (s\<lparr>s_compat_mode := c\<rparr>)"
  unfolding status_field_def [abs_def]
  by (simp_all add: reads_assign)

lemma status_rendered_read:
  assumes "length ps < 2 ^ 32"
  shows "consumes M (status_field M ''rendered'' s) (ArrHdr (length ps mod 2 ^ 32) # map Str ps)
    (s\<lparr>s_rendered := ps\<rparr>)"
proof -
  have "status_field M ''rendered'' s = (\<lambda>r. assign (\<lambda>ps. s\<lparr>s_rendered := ps\<rparr>) (read_str_list M r))"
    by (simp add: status_field_def fun_eq_iff)
  then show ?thesis by (simp only:) (rule consumes_assign [OF consumes_str_list [OF assms] refl])
qed

lemma reply_field_reads:
  "consumes M (reply_field M ''ok'' acc) [Bool b] (acc\<lparr>a_ok := Some b\<rparr>)"
  "consumes M (reply_field M ''error'' acc) [Str s] (acc\<lparr>a_error := Some s\<rparr>)"
  "consumes M (reply_field M ''kind'' acc) [Str s] (acc\<lparr>a_kind := Some s\<rparr>)"
  "consumes M (reply_field M ''generation'' acc) [UInt n]
     (acc\<lparr>a_generation := n, a_status := (a_status acc)\<lparr>s_generation := n\<rparr>\<rparr>)"
  "consumes M (reply_field M ''more'' acc) [Bool b] (acc\<lparr>a_more := b\<rparr>)"
  unfolding reply_field_def [abs_def]
  by (simp_all add: reads_assign)

definition status_keys :: "string set" where
  "status_keys = {''health'', ''message'', ''shipped'', ''added'', ''distrusted'', ''skipped'',
     ''effective'', ''compat_mode'', ''rendered''}"

lemma reply_status_read:
  assumes "consumes M (status_field M key (a_status acc)) v s" and "key \<in> status_keys"
  shows "consumes M (reply_field M key acc) v (acc\<lparr>a_status := s\<rparr>)"
proof -
  have "reply_field M key acc = (\<lambda>r. assign (\<lambda>s. acc\<lparr>a_status := s\<rparr>) (status_field M key (a_status acc) r))"
    using assms(2) by (auto simp: reply_field_def fun_eq_iff status_keys_def)
  then show ?thesis by (simp only:) (rule consumes_assign [OF assms(1) refl])
qed

lemma reply_status_reads:
  "consumes M (reply_field M ''health'' acc) [Str (health_as_str h)]
     (acc\<lparr>a_status := (a_status acc)\<lparr>s_health := h\<rparr>\<rparr>)"
  "consumes M (reply_field M ''message'' acc) [case v of Some s \<Rightarrow> Str s | None \<Rightarrow> Nil]
     (acc\<lparr>a_status := (a_status acc)\<lparr>s_message := v\<rparr>\<rparr>)"
  "consumes M (reply_field M ''shipped'' acc) [UInt n]
     (acc\<lparr>a_status := (a_status acc)\<lparr>s_shipped := n\<rparr>\<rparr>)"
  "consumes M (reply_field M ''added'' acc) [UInt n]
     (acc\<lparr>a_status := (a_status acc)\<lparr>s_added := n\<rparr>\<rparr>)"
  "consumes M (reply_field M ''distrusted'' acc) [UInt n]
     (acc\<lparr>a_status := (a_status acc)\<lparr>s_distrusted := n\<rparr>\<rparr>)"
  "consumes M (reply_field M ''skipped'' acc) [UInt n]
     (acc\<lparr>a_status := (a_status acc)\<lparr>s_skipped := n\<rparr>\<rparr>)"
  "consumes M (reply_field M ''effective'' acc) [UInt n]
     (acc\<lparr>a_status := (a_status acc)\<lparr>s_effective := n\<rparr>\<rparr>)"
  "consumes M (reply_field M ''compat_mode'' acc) [UInt (ucast c)]
     (acc\<lparr>a_status := (a_status acc)\<lparr>s_compat_mode := c\<rparr>\<rparr>)"
  by (rule reply_status_read, rule status_field_reads, simp add: status_keys_def)+

lemma reply_rendered_read:
  "length ps < 2 ^ 32 \<Longrightarrow> consumes M (reply_field M ''rendered'' acc)
     (ArrHdr (length ps mod 2 ^ 32) # map Str ps) (acc\<lparr>a_status := (a_status acc)\<lparr>s_rendered := ps\<rparr>\<rparr>)"
  by (rule reply_status_read, erule status_rendered_read, simp add: status_keys_def)

lemma reply_roots_read:
  assumes "length roots < 2 ^ 32" and "\<forall>root \<in> set roots. length (r_purposes root) < 2 ^ 32"
    and "a_roots acc = []"
  shows "consumes M (reply_field M ''roots'' acc)
    (ArrHdr (length roots mod 2 ^ 32) # concat (map root_tokens roots)) (acc\<lparr>a_roots := roots\<rparr>)"
proof -
  have "consumes M (read_times (decode_root M) (length roots) []) (concat (map root_tokens roots)) ([] @ roots)"
    using assms(2) by (intro consumes_times consumes_root) blast
  then have "consumes M (\<lambda>r. assign (\<lambda>roots. acc\<lparr>a_roots := roots\<rparr>)
      (read_times (decode_root M) (length roots) (a_roots acc) r))
      (concat (map root_tokens roots)) (acc\<lparr>a_roots := roots\<rparr>)"
    using assms(3) by (intro consumes_assign) simp_all
  then show ?thesis
    using assms(1) by (fastforce simp: consumes_def reply_field_def)
qed

text \<open>What \<open>encode\<close> can carry: text is UTF-8, lengths fit their headers, \<open>notAfter\<close> is an \<open>i64\<close>.\<close>

definition root_ok :: "root \<Rightarrow> bool" where
  "root_ok root \<longleftrightarrow> length (r_purposes root) < 2 ^ 32 \<and> list_all valid_tok (root_tokens root)"

fun reply_ok :: "Reply \<Rightarrow> bool" where
  "reply_ok ReplyOk = True"
| "reply_ok (ReplyError message) = valid_tok (Str message)"
| "reply_ok (ReplyRoots generation roots follows) = (length roots < 2 ^ 32 \<and> list_all root_ok roots)"
| "reply_ok (ReplyStatus s) =
     (length (s_rendered s) < 2 ^ 32 \<and> list_all (\<lambda>p. valid_tok (Str p)) (s_rendered s) \<and>
      (\<forall>m. s_message s = Some m \<longrightarrow> valid_tok (Str m)))"

fun request_ok :: "Request \<Rightarrow> bool" where
  "request_ok (ReqRoots with_der (Some purpose)) = valid_tok (Str purpose)"
| "request_ok _ = True"

lemma due_Cons: "due k (t # ts) \<longleftrightarrow> 0 < k \<and> due (k - 1 + arity t) ts"
  by (cases k) simp_all

lemma due_strs: "length ss \<le> k \<Longrightarrow> due k (map Str ss @ ts) = due (k - length ss) ts"
  by (induction ss arbitrary: k) (simp_all add: due_Cons)

lemma arity_opt [simp]: "arity (case v of Some s \<Rightarrow> Str s | None \<Rightarrow> Nil) = 0"
  by (cases v) simp_all

lemma due_root:
  assumes "length (r_purposes root) < 2 ^ 32" and "0 < k"
  shows "due k (root_tokens root @ ts) = due (k - 1) ts"
  using assms by (simp add: root_tokens_def write_str_list_def write_opt_str_def due_Cons due_strs)

lemma due_roots:
  assumes "\<forall>root \<in> set roots. length (r_purposes root) < 2 ^ 32" and "length roots \<le> k"
  shows "due k (concat (map root_tokens roots) @ ts) = due (k - length roots) ts"
  using assms by (induction roots arbitrary: k) (simp_all add: due_root)

lemma complete_request: "request_ok request \<Longrightarrow> complete_value (request_tokens request)"
  by (cases request rule: request_ok.cases)
    (auto simp: complete_value_def write_opt_str_def due_Cons utf8_ascii)

lemma root_ok_purposes: "root_ok root \<Longrightarrow> length (r_purposes root) < 2 ^ 32"
  by (simp add: root_ok_def)

lemma complete_reply: "reply_ok reply \<Longrightarrow> complete_value (reply_tokens reply)"
proof (cases reply)
  case (ReplyRoots generation roots follows)
  moreover assume "reply_ok reply"
  ultimately have ok: "length roots < 2 ^ 32" "\<forall>root \<in> set roots. root_ok root"
    by (auto simp: list_all_iff)
  then have "due (length roots) (concat (map root_tokens roots) @ []) = due 0 []"
    using due_roots [of roots "length roots" "[]"] root_ok_purposes by simp
  moreover have "list_all valid_tok (concat (map root_tokens roots))"
    using ok(2) by (auto simp: list_all_iff root_ok_def)
  ultimately show ?thesis
    using ok(1) by (simp add: ReplyRoots complete_value_def due_Cons utf8_ascii)
next
  case (ReplyStatus s)
  moreover assume "reply_ok reply"
  ultimately show ?thesis
    using due_strs [of "s_rendered s" "length (s_rendered s)" "[]"]
    by (cases "s_message s"; cases "s_health s")
      (auto simp: complete_value_def due_Cons utf8_ascii write_str_list_def write_opt_str_def
        list_all_iff)
qed (simp_all add: complete_value_def due_Cons utf8_ascii)

lemma consumes_request_fields:
  fixes M :: "('r, 'e) msgpack"
  shows "\<exists>acc. consumes M (for_each_field M (request_field M) (None, False, None)) (request_tokens request) acc
     \<and> request_finish acc = (Inr request :: 'e wire_error + Request)"
proof (cases request)
  case (ReqRoots with_der purpose)
  have "consumes M (for_each_field M (request_field M) (None, False, None)) (MapHdr 3 #
      Str ''query'' # [Str ''roots''] @ Str ''with_der'' # [Bool with_der] @
      Str ''purpose'' # [case purpose of Some s \<Rightarrow> Str s | None \<Rightarrow> Nil] @ [])
      (Some ''roots'', with_der, purpose)"
    by (rule consumes_fields, (rule field_step, rule request_field_reads, simp)+, rule field_loop_Nil)
      simp_all
  then show ?thesis by (intro exI conjI) (auto simp: ReqRoots write_opt_str_def)
next
  case (ReqSubscribe with_der)
  have "consumes M (for_each_field M (request_field M) (None, False, None)) (MapHdr 2 #
      Str ''query'' # [Str ''subscribe''] @ Str ''with_der'' # [Bool with_der] @ [])
      (Some ''subscribe'', with_der, None)"
    by (rule consumes_fields, (rule field_step, rule request_field_reads, simp)+, rule field_loop_Nil)
      simp_all
  then show ?thesis by (intro exI conjI) (auto simp: ReqSubscribe)
next
  case ReqStatus
  have "consumes M (for_each_field M (request_field M) (None, False, None)) (MapHdr 1 #
      Str ''query'' # [Str ''status''] @ []) (Some ''status'', False, None)"
    by (rule consumes_fields, (rule field_step, rule request_field_reads, simp)+, rule field_loop_Nil)
      simp_all
  then show ?thesis by (intro exI conjI) (auto simp: ReqStatus)
next
  case ReqReload
  have "consumes M (for_each_field M (request_field M) (None, False, None)) (MapHdr 1 #
      Str ''query'' # [Str ''reload''] @ []) (Some ''reload'', False, None)"
    by (rule consumes_fields, (rule field_step, rule request_field_reads, simp)+, rule field_loop_Nil)
      simp_all
  then show ?thesis by (intro exI conjI) (auto simp: ReqReload)
qed

fun reply_end :: "Reply \<Rightarrow> reply_acc" where
  "reply_end ReplyOk = reply_start\<lparr>a_ok := Some True\<rparr>"
| "reply_end (ReplyError e) = reply_start\<lparr>a_ok := Some False, a_error := Some e\<rparr>"
| "reply_end (ReplyRoots generation roots follows) = reply_start\<lparr>a_ok := Some True,
     a_kind := Some ''roots'', a_generation := generation, a_more := follows, a_roots := roots,
     a_status := status_default\<lparr>s_generation := generation\<rparr>\<rparr>"
| "reply_end (ReplyStatus s) = reply_start\<lparr>a_ok := Some True, a_kind := Some ''status'',
     a_generation := s_generation s, a_status := s\<rparr>"

lemma consumes_reply_status:
  assumes "length (s_rendered s) < 2 ^ 32"
  shows "consumes M (for_each_field M (reply_field M) reply_start) (reply_tokens (ReplyStatus s))
    (reply_end (ReplyStatus s))"
proof -
  have "consumes M (for_each_field M (reply_field M) reply_start) (MapHdr 12 #
      Str ''ok'' # [Bool True] @ Str ''kind'' # [Str ''status''] @
      Str ''generation'' # [UInt (s_generation s)] @ Str ''health'' # [Str (health_as_str (s_health s))] @
      Str ''message'' # [case s_message s of Some m \<Rightarrow> Str m | None \<Rightarrow> Nil] @
      Str ''shipped'' # [UInt (s_shipped s)] @ Str ''added'' # [UInt (s_added s)] @
      Str ''distrusted'' # [UInt (s_distrusted s)] @ Str ''skipped'' # [UInt (s_skipped s)] @
      Str ''effective'' # [UInt (s_effective s)] @
      Str ''compat_mode'' # [UInt (ucast (s_compat_mode s))] @
      Str ''rendered'' # (ArrHdr (length (s_rendered s) mod 2 ^ 32) # map Str (s_rendered s)) @ [])
      (reply_end (ReplyStatus s))"
    by (rule consumes_fields,
        (rule field_step, rule reply_field_reads reply_status_reads reply_rendered_read, (rule assms)?, simp)+,
        rule field_loop_Nil)
      (simp_all add: reply_start_def status_default_def)
  then show ?thesis by (simp add: write_str_list_def write_opt_str_def)
qed

lemma consumes_reply_roots:
  assumes "length roots < 2 ^ 32" and "\<forall>root \<in> set roots. length (r_purposes root) < 2 ^ 32"
  shows "consumes M (for_each_field M (reply_field M) reply_start)
    (reply_tokens (ReplyRoots generation roots follows)) (reply_end (ReplyRoots generation roots follows))"
proof -
  have "consumes M (for_each_field M (reply_field M) reply_start) (MapHdr 5 #
      Str ''ok'' # [Bool True] @ Str ''kind'' # [Str ''roots''] @
      Str ''generation'' # [UInt generation] @ Str ''more'' # [Bool follows] @
      Str ''roots'' # (ArrHdr (length roots mod 2 ^ 32) # concat (map root_tokens roots)) @ [])
      (reply_end (ReplyRoots generation roots follows))"
    by (rule consumes_fields,
        (rule field_step, rule reply_field_reads, simp)+,
        rule field_step, rule reply_roots_read [OF assms], simp add: reply_start_def, simp,
        rule field_loop_Nil)
      (simp_all add: reply_start_def)
  then show ?thesis by simp
qed

lemma consumes_reply:
  assumes "reply_ok reply"
  shows "consumes M (for_each_field M (reply_field M) reply_start) (reply_tokens reply) (reply_end reply)"
proof (cases reply)
  case ReplyOk
  have "consumes M (for_each_field M (reply_field M) reply_start) (MapHdr 1 #
      Str ''ok'' # [Bool True] @ []) (reply_end ReplyOk)"
    by (rule consumes_fields, (rule field_step, rule reply_field_reads, simp)+, rule field_loop_Nil)
      simp_all
  then show ?thesis by (simp add: ReplyOk)
next
  case (ReplyError e)
  have "consumes M (for_each_field M (reply_field M) reply_start) (MapHdr 2 #
      Str ''ok'' # [Bool False] @ Str ''error'' # [Str e] @ []) (reply_end (ReplyError e))"
    by (rule consumes_fields, (rule field_step, rule reply_field_reads, simp)+, rule field_loop_Nil)
      simp_all
  then show ?thesis by (simp add: ReplyError)
next
  case (ReplyRoots generation roots follows)
  then show ?thesis
    using assms consumes_reply_roots root_ok_purposes by (fastforce simp: list_all_iff)
next
  case (ReplyStatus s)
  then have "length (s_rendered s) < 2 ^ 32" using assms by simp
  then show ?thesis unfolding ReplyStatus by (rule consumes_reply_status)
qed

lemma decode_encoding:
  assumes "msgpack_laws M" and "complete_value ts" and "consumes M g ts a"
  shows "\<exists>bytes r'. to_bytes M ts = Inr bytes \<and> g (reader M bytes) = Inr (a, r')"
proof -
  obtain bytes where "to_bytes M ts = Inr bytes" and s: "stands M (reader M bytes) (ts @ [])"
    using assms(1,2) by (auto simp: msgpack_laws_def)
  then show ?thesis using assms(3) unfolding consumes_def by blast
qed

lemma request_codec:
  fixes M :: "('r, 'e) msgpack"
  assumes "msgpack_laws M" and "request_ok request"
  shows "\<exists>bytes. encode_request M request = Some bytes \<and> decode_request M bytes = Inr request"
proof -
  obtain acc where
    acc: "consumes M (for_each_field M (request_field M) (None, False, None)) (request_tokens request) acc"
    and "request_finish acc = (Inr request :: 'e wire_error + Request)"
    using consumes_request_fields by blast
  moreover obtain bytes r' where "to_bytes M (request_tokens request) = Inr bytes"
    "for_each_field M (request_field M) (None, False, None) (reader M bytes) = Inr (acc, r')"
    using decode_encoding [OF assms(1) complete_request [OF assms(2)] acc] by blast
  ultimately show ?thesis by (simp add: encode_request_def expect_def decode_request_def)
qed

lemma reply_codec:
  assumes "msgpack_laws M" and "reply_ok reply"
  shows "\<exists>bytes. encode_reply M reply = Some bytes \<and> decode_reply M bytes = Inr reply"
proof -
  obtain bytes r' where "to_bytes M (reply_tokens reply) = Inr bytes"
    "for_each_field M (reply_field M) reply_start (reader M bytes) = Inr (reply_end reply, r')"
    using decode_encoding [OF assms(1) complete_reply [OF assms(2)] consumes_reply [OF assms(2)]] by blast
  moreover have "reply_finish (reply_end reply) = Inr reply"
    by (cases reply) (simp_all add: reply_finish_def reply_start_def)
  ultimately show ?thesis by (simp add: encode_reply_def expect_def decode_reply_def)
qed

section \<open>Collecting: lemmas\<close>

lemma roots_loop_complete:
  "roots_loop g roots True replies = Inr (g', roots', c) \<longleftrightarrow> replies = [] \<and> g' = g \<and> roots' = roots \<and> c"
  by (cases replies) auto

lemma roots_loop_done_iff:
  "roots_loop (Some g) roots False replies = Inr (g', roots', True) \<longleftrightarrow>
     (\<exists>batches b. replies = map (\<lambda>b. ReplyRoots g b True) batches @ [ReplyRoots g b False] \<and>
        g' = Some g \<and> roots' = roots @ concat batches @ b)"
proof (induction replies arbitrary: roots)
  case Nil
  then show ?case by simp
next
  case (Cons reply replies)
  show ?case
  proof (cases reply)
    case (ReplyRoots current batch follows)
    show ?thesis
    proof (cases follows)
      case True
      have split: "(\<exists>batches b. reply # replies = map (\<lambda>b. ReplyRoots g b True) batches @ [ReplyRoots g b False]
            \<and> g' = Some g \<and> roots' = roots @ concat batches @ b) \<longleftrightarrow>
          current = g \<and> (\<exists>batches b. replies = map (\<lambda>b. ReplyRoots g b True) batches @ [ReplyRoots g b False]
            \<and> g' = Some g \<and> roots' = (roots @ batch) @ concat batches @ b)" (is "?l \<longleftrightarrow> ?r")
      proof
        assume ?l
        then obtain batches b where eq: "reply # replies = map (\<lambda>b. ReplyRoots g b True) batches @ [ReplyRoots g b False]"
          and r: "g' = Some g" "roots' = roots @ concat batches @ b" by blast
        then show ?r using ReplyRoots True by (cases batches) auto
      next
        assume ?r
        then obtain batches b where "current = g"
          "replies = map (\<lambda>b. ReplyRoots g b True) batches @ [ReplyRoots g b False]"
          "g' = Some g" "roots' = (roots @ batch) @ concat batches @ b" by blast
        then show ?l using ReplyRoots True by (intro exI [of _ "batch # batches"] exI [of _ b]) simp
      qed
      show ?thesis unfolding split using ReplyRoots True Cons.IH [of "roots @ batch"] by auto
    next
      case False
      then show ?thesis
        using ReplyRoots
        by (auto simp: roots_loop_complete Cons_eq_append_conv map_eq_Cons_conv intro: exI [of _ "[]"])
    qed
  qed (auto simp: Cons_eq_append_conv)
qed

lemma roots_loop_first:
  "roots_loop None roots False (ReplyRoots g b follows # replies)
    = roots_loop (Some g) roots False (ReplyRoots g b follows # replies)"
  by simp

lemma roots_loop_start:
  "roots_loop None roots False replies = Inr (g', roots', True) \<longleftrightarrow>
     (\<exists>g. roots_loop (Some g) roots False replies = Inr (g', roots', True))"
proof (cases replies)
  case (Cons reply rest)
  then show ?thesis by (cases reply) auto
qed simp

lemma roots_of_iff:
  "roots_of replies \<noteq> None \<and>
   (roots_of replies = Some (Inr (g, roots)) \<longleftrightarrow>
     (\<exists>batches b. replies = map (\<lambda>b. ReplyRoots g b True) batches @ [ReplyRoots g b False] \<and>
        roots = concat batches @ b))"
proof -
  let ?loop = "roots_loop None [] False replies"
  have fin: "?loop = Inr (g', roots', True) \<longleftrightarrow>
     (\<exists>g batches b. replies = map (\<lambda>b. ReplyRoots g b True) batches @ [ReplyRoots g b False] \<and>
        g' = Some g \<and> roots' = concat batches @ b)" for g' roots'
    unfolding roots_loop_start roots_loop_done_iff by auto
  have 1: "?loop = Inr (g', roots', True) \<Longrightarrow> g' \<noteq> None" for g' roots'
    unfolding fin by auto
  have 2: "roots_of replies = Some (Inr (g, roots)) \<longleftrightarrow> ?loop = Inr (Some g, roots, True)"
    by (auto simp: roots_of_def split: sum.splits)
  have 3: "roots_of replies \<noteq> None" using 1 by (auto simp: roots_of_def split: sum.splits)
  show ?thesis using 2 3 unfolding fin by auto
qed

section \<open>Properties\<close>

text \<open>
  \<open>recv\<close> returns a payload exactly when the stream starts with a frame \<open>send\<close> can write
  for it: nothing above the ceiling, nothing truncated, and the rest of the stream
  untouched.
\<close>

theorem recv_exact:
  "recv stream = Inr (payload, rest) \<longleftrightarrow>
     (\<exists>frame. send Inr payload = (Inr frame :: 'e wire_error + bytes) \<and> stream = frame @ rest)"
proof
  assume "recv stream = Inr (payload, rest)"
  then have len: "4 \<le> length stream" "le_val (take 4 stream) \<le> MAX_MESSAGE_BYTES"
    and p: "payload = take (le_val (take 4 stream)) (drop 4 stream)"
      "rest = drop (le_val (take 4 stream)) (drop 4 stream)"
      "le_val (take 4 stream) \<le> length (drop 4 stream)"
    by (auto simp: recv_def read_exact_def conv Let_def split: if_splits)
  have "length payload = le_val (take 4 stream)" using p by simp
  moreover have "le_bytes 4 (le_val (take 4 stream)) = take 4 stream"
    using le_bytes_le_val [of "take 4 stream"] len(1) by simp
  moreover have "stream = take 4 stream @ payload @ rest"
    unfolding p(1,2) append_take_drop_id ..
  ultimately show "\<exists>frame. send Inr payload = (Inr frame :: 'e wire_error + bytes) \<and> stream = frame @ rest"
    using len(2) by (simp add: send_def)
next
  assume "\<exists>frame. send Inr payload = (Inr frame :: 'e wire_error + bytes) \<and> stream = frame @ rest"
  then have "length payload \<le> MAX_MESSAGE_BYTES" "stream = frame_of payload @ rest"
    by (auto simp: send_def frame_of_def split: if_splits)
  then show "recv stream = Inr (payload, rest)" by (simp add: recv_frame)
qed

text \<open>
  A header announcing more than the ceiling is refused whatever follows it: the outcome
  is the one on the four header bytes alone, so the payload is never waited for.
\<close>

theorem recv_refuses_oversize:
  assumes "length header = 4" and "MAX_MESSAGE_BYTES < le_val header"
  shows "recv (header @ rest) = Inl (TooLarge (le_val header))"
  using assms by (simp add: recv_def read_exact_def)

theorem recv_refuses_oversize_witness:
  "recv [1, 0, 1, 0] = (Inl (TooLarge 65537) :: unit wire_error + _)"
  using recv_refuses_oversize [of "[1, 0, 1, 0]" "[]"] by (simp add: MAX_MESSAGE_BYTES_def)

text \<open>
  C30. \<open>roots_of\<close> accepts exactly a complete, consistent snapshot: one or more chunks of one
  generation, all but the last marked \<open>more\<close>, and returns their roots in order; it never
  panics.
\<close>

theorem roots_of_snapshot:
  "roots_of replies \<noteq> None \<and>
   (roots_of replies = Some (Inr (g, roots)) \<longleftrightarrow>
     (\<exists>batches b. replies = map (\<lambda>b. ReplyRoots g b True) batches @ [ReplyRoots g b False] \<and>
        roots = concat batches @ b))"
  by (rule roots_of_iff)

end
