(* ===== verification/Msgpack.thy ===== *)
theory Msgpack
  imports Wire
begin

text \<open>
  A concrete MessagePack codec, to show that \<open>msgpack_laws\<close> can hold, and the properties of the
  control wire that rest on those laws.

  The codec writes every token in its widest MessagePack format (map 32, array 32, str 32,
  bin 32, uint 64, int 64), so its reader is a self-delimiting codec of tokens. It stands in for
  the \<open>peios::msgpack\<close> crate in the witnesses only; no definition of the model refers to it.
\<close>

section \<open>Tokens as bytes\<close>

definition signed64 :: "nat \<Rightarrow> int" where
  "signed64 n = (if n < 2 ^ 63 then int n else int n - 2 ^ 64)"

fun put_tok :: "tok \<Rightarrow> bytes" where
  "put_tok (MapHdr n) = 0xDF # be_bytes 4 n"
| "put_tok (ArrHdr n) = 0xDD # be_bytes 4 n"
| "put_tok (Str s) = 0xDB # be_bytes 4 (length s) @ as_bytes s"
| "put_tok (Bin b) = 0xC6 # be_bytes 4 (length b) @ b"
| "put_tok (UInt w) = 0xCF # be_bytes 8 (unat w)"
| "put_tok (SInt i) = 0xD3 # be_bytes 8 (nat (i mod 2 ^ 64))"
| "put_tok (Bool b) = [if b then 0xC3 else 0xC2]"
| "put_tok Nil = [0xC0]"

definition take_n :: "nat \<Rightarrow> bytes \<Rightarrow> (bytes \<times> bytes) option" where
  "take_n n bs = (if n \<le> length bs then Some (take n bs, drop n bs) else None)"

definition take_sized :: "bytes \<Rightarrow> (bytes \<times> bytes) option" where
  "take_sized bs = Option.bind (take_n 4 bs) (\<lambda>(h, bs). take_n (be_val h) bs)"

definition first_of :: "('a \<Rightarrow> tok) \<Rightarrow> ('a \<times> bytes) option \<Rightarrow> (tok \<times> bytes) option" where
  "first_of f = map_option (\<lambda>(a, bs). (f a, bs))"

fun get_tok :: "bytes \<Rightarrow> (tok \<times> bytes) option" where
  "get_tok [] = None"
| "get_tok (b # bs) =
     (if b = 0xDF then first_of (\<lambda>h. MapHdr (be_val h)) (take_n 4 bs)
      else if b = 0xDD then first_of (\<lambda>h. ArrHdr (be_val h)) (take_n 4 bs)
      else if b = 0xDB then first_of (\<lambda>s. Str (from_bytes s)) (take_sized bs)
      else if b = 0xC6 then first_of Bin (take_sized bs)
      else if b = 0xCF then first_of (\<lambda>h. UInt (word_of_nat (be_val h))) (take_n 8 bs)
      else if b = 0xD3 then first_of (\<lambda>h. SInt (signed64 (be_val h))) (take_n 8 bs)
      else if b = 0xC3 then Some (Bool True, bs)
      else if b = 0xC2 then Some (Bool False, bs)
      else if b = 0xC0 then Some (Nil, bs)
      else None)"

lemma take_n_append [simp]: "length h = n \<Longrightarrow> take_n n (h @ bs) = Some (h, bs)"
  by (simp add: take_n_def)

lemma take_sized_append:
  "length s < 2 ^ 32 \<Longrightarrow> take_sized (be_bytes 4 (length s) @ s @ bs) = Some (s, bs)"
  by (simp add: take_sized_def be_val_be_bytes)

lemma signed64_mod: "- (2 ^ 63) \<le> i \<Longrightarrow> i < 2 ^ 63 \<Longrightarrow> signed64 (nat (i mod 2 ^ 64)) = i"
proof (cases "0 \<le> i")
  case True
  moreover assume "i < 2 ^ 63"
  ultimately show ?thesis by (simp add: signed64_def nat_less_iff)
next
  case False
  moreover assume lo: "- (2 ^ 63) \<le> i"
  ultimately have "(i + 2 ^ 64) mod 2 ^ 64 = i + 2 ^ 64"
    by (intro mod_pos_pos_trivial) simp_all
  then have "i mod 2 ^ 64 = i + 2 ^ 64" by (simp only: mod_add_self2)
  then show ?thesis using lo False by (simp add: signed64_def nat_less_iff)
qed

interpretation tok: self_delimiting put_tok get_tok valid_tok
proof
  fix t rest
  assume v: "valid_tok t"
  show "get_tok (put_tok t @ rest) = Some (t, rest)"
  proof (cases t)
    case (UInt w)
    have "unat w < 256 ^ 8" using unsigned_less [of w, where ?'a = nat] by simp
    then show ?thesis by (simp add: UInt first_of_def be_val_be_bytes)
  next
    case (SInt i)
    have "nat (i mod 2 ^ 64) < 256 ^ 8" by (simp add: nat_less_iff)
    moreover have "signed64 (nat (i mod 2 ^ 64)) = i" using v by (intro signed64_mod) (simp_all add: SInt)
    ultimately show ?thesis by (simp add: SInt first_of_def be_val_be_bytes)
  next
    case (Str s)
    then show ?thesis using v take_sized_append [of "as_bytes s" rest] by (simp add: first_of_def)
  qed (use v in \<open>auto simp: first_of_def be_val_be_bytes take_sized_append\<close>)
qed

section \<open>The codec\<close>

definition token_of :: "(tok \<Rightarrow> 'a option) \<Rightarrow> bytes \<Rightarrow> string + 'a \<times> bytes" where
  "token_of f bs =
     (case get_tok bs of
        None \<Rightarrow> Inl ''truncated''
      | Some (t, bs) \<Rightarrow> (case f t of None \<Rightarrow> Inl ''another type'' | Some a \<Rightarrow> Inr (a, bs)))"

fun skip_values :: "nat \<Rightarrow> nat \<Rightarrow> bytes \<Rightarrow> string + bytes" where
  "skip_values 0 k bs = (if k = 0 then Inr bs else Inl ''truncated'')"
| "skip_values (Suc fuel) k bs =
     (if k = 0 then Inr bs
      else case get_tok bs of
        None \<Rightarrow> Inl ''truncated''
      | Some (t, bs) \<Rightarrow> skip_values fuel (k - 1 + arity t) bs)"

definition wide :: "(bytes, string) msgpack" where
  "wide =
     \<lparr>to_bytes = (\<lambda>ts. if complete_value ts then Inr (concat (map put_tok ts)) else Inl ''incomplete''),
      reader = (\<lambda>bs. bs),
      read_map = token_of (\<lambda>t. case t of MapHdr n \<Rightarrow> Some n | _ \<Rightarrow> None),
      read_array = token_of (\<lambda>t. case t of ArrHdr n \<Rightarrow> Some n | _ \<Rightarrow> None),
      read_str = token_of (\<lambda>t. case t of Str s \<Rightarrow> Some s | _ \<Rightarrow> None),
      read_bin = token_of (\<lambda>t. case t of Bin b \<Rightarrow> Some b | _ \<Rightarrow> None),
      read_uint = token_of (\<lambda>t. case t of UInt n \<Rightarrow> Some n | _ \<Rightarrow> None),
      read_int = token_of (\<lambda>t. case t of SInt i \<Rightarrow> Some i | _ \<Rightarrow> None),
      read_bool = token_of (\<lambda>t. case t of Bool b \<Rightarrow> Some b | _ \<Rightarrow> None),
      read_nil = (\<lambda>bs. bindE (token_of (\<lambda>t. if t = Nil then Some () else None) bs) (\<lambda>(_, bs). Inr bs)),
      skip = (\<lambda>bs. skip_values (length bs) 1 bs),
      peek_nil = (\<lambda>bs. take 1 bs = [0xC0]),
      remaining = length\<rparr>"

lemma put_tok_head: "\<exists>b bs. put_tok t = b # bs \<and> (b = 0xC0 \<longleftrightarrow> t = Nil)"
  by (cases t) auto

lemma wide_stands: "list_all valid_tok ts \<Longrightarrow> stands wide (concat (map put_tok ts)) ts"
proof (induction ts)
  case Nil
  then show ?case by simp
next
  case (Cons t ts)
  obtain b bs where h: "put_tok t = b # bs" "b = 0xC0 \<longleftrightarrow> t = Nil" using put_tok_head by blast
  have "get_tok (put_tok t @ concat (map put_tok ts)) = Some (t, concat (map put_tok ts))"
    using Cons.prems by (intro tok.get_put) simp
  then have "reads_tok wide (concat (map put_tok (t # ts))) t (concat (map put_tok ts))"
    by (cases t) (simp_all add: wide_def token_of_def)
  moreover have "length (t # ts) \<le> remaining wide (concat (map put_tok (t # ts)))"
    using Cons stands_remaining [of wide] by (simp add: h wide_def) fastforce
  moreover have "peek_nil wide (concat (map put_tok (t # ts))) \<longleftrightarrow> t = Nil"
    using h by (simp add: wide_def)
  ultimately show ?case using Cons by auto
qed

lemma wide_laws: "msgpack_laws wide"
  unfolding msgpack_laws_def
proof (intro allI impI)
  fix ts
  assume ts: "complete_value ts"
  then have "to_bytes wide ts = Inr (concat (map put_tok ts))" by (simp add: wide_def)
  moreover have "reader wide (concat (map put_tok ts)) = concat (map put_tok ts)"
    by (simp add: wide_def)
  ultimately show "\<exists>bytes. to_bytes wide ts = Inr bytes \<and> stands wide (reader wide bytes) ts"
    using ts wide_stands by (simp add: complete_value_def)
qed

section \<open>Properties\<close>

text \<open>
  Every request the program can send encodes (the \<open>expect\<close> in \<open>encode\<close> does not panic) and
  decodes to itself.
\<close>

theorem request_roundtrip:
  assumes "msgpack_laws M" and "request_ok request"
  shows "\<exists>bytes. encode_request M request = Some bytes \<and> decode_request M bytes = Inr request"
  using assms by (rule request_codec)

theorem request_roundtrip_witness:
  "\<exists>bytes. encode_request wide (ReqRoots True (Some ''ServerAuth'')) = Some bytes \<and>
     decode_request wide bytes = Inr (ReqRoots True (Some ''ServerAuth''))"
  by (rule request_roundtrip) (simp_all add: wide_laws)

text \<open>
  C40. Every reply encodes without panicking and decodes to itself: a chunk of roots with its
  certificates, a status with all its fields, an error's text.
\<close>

theorem reply_roundtrip:
  assumes "msgpack_laws M" and "reply_ok reply"
  shows "\<exists>bytes. encode_reply M reply = Some bytes \<and> decode_reply M bytes = Inr reply"
  using assms by (rule reply_codec)

definition sample_root :: root where
  "sample_root = \<lparr>r_fingerprint = ''00ff'', r_subject = ''CN=R'', r_purposes = [''ServerAuth''],
     r_source = Added, r_name = Some ''corp'', r_not_after = -1, r_der = [0x30, 0]\<rparr>"

lemma sample_root_ok: "root_ok sample_root"
  by (simp add: root_ok_def sample_root_def root_tokens_def write_str_list_def write_opt_str_def)

theorem reply_roundtrip_witness:
  "\<exists>bytes. encode_reply wide (ReplyRoots 7 [sample_root] True) = Some bytes \<and>
     decode_reply wide bytes = Inr (ReplyRoots 7 [sample_root] True)"
  by (rule reply_roundtrip) (simp_all add: wide_laws sample_root_ok)

end
