(* ===== verification/Der.thy ===== *)
theory Der
  imports Prelude "HOL-Library.Multiset"
begin

text \<open>
  The minimal DER reader and writer of \<open>trust-core/src/cert.rs\<close> and OpenSSL's canonical name
  built with it (\<open>tlv\<close>, \<open>read_tlv\<close>, \<open>der_contents\<close>, \<open>der_elements\<close>, \<open>fold\<close>, \<open>canonical_ava\<close>,
  \<open>canonical_name\<close>, \<open>subject_hash\<close>). A \<open>usize\<close> is 64 bits; the lengths \<open>read_tlv\<close> computes come
  from at most four bytes, so its sums stay far below that and are plain numbers here.
  The \<open>der::Error\<close> values the code makes itself are the two constructors of \<open>der_error\<close>.

  The lemmas show that the reader inverts the writer (a self-delimiting codec), that it
  never returns bytes from outside its input, that folding a value is the split-and-join of
  its words, and that the canonical name of an encoded name is the canonical form of the
  name, which is a fixed point.
\<close>

unbundle bit_operations_syntax

section \<open>Reading and writing TLVs\<close>

datatype der_error = Failed | SequenceValue

definition usize_bytes :: "nat \<Rightarrow> bytes" where
  "usize_bytes n = be_bytes 8 n"

definition tlv :: "byte \<Rightarrow> bytes \<Rightarrow> bytes" where
  "tlv tag content =
     (let len = length content
      in [tag] @
         (if len < 0x80 then [word_of_nat len]
          else let bytes = usize_bytes len;
                   first = (case position (\<lambda>b. b \<noteq> 0) bytes of Some i \<Rightarrow> i | None \<Rightarrow> length bytes - 1)
               in (0x80 OR word_of_nat (length bytes - first)) # drop first bytes) @
         content)"

text \<open>The length octets: the content's length and where the content starts.\<close>

definition read_length :: "bytes \<Rightarrow> byte \<Rightarrow> der_error + (nat \<times> nat)" where
  "read_length input first_len =
     (if unat first_len < 0x80 then Inr (unat first_len, 2)
      else let count = unat (first_len AND 0x7F)
           in if count = 0 \<or> 4 < count then Inl Failed
              else bindE (ok_or Failed (get_range input 2 (2 + count))) (\<lambda>bytes.
                     Inr (be_val bytes, 2 + count)))"

definition read_tlv :: "bytes \<Rightarrow> der_error + (byte \<times> bytes \<times> bytes)" where
  "read_tlv input =
     bindE (ok_or Failed (get_at input 0)) (\<lambda>tag.
     bindE (ok_or Failed (get_at input 1)) (\<lambda>first_len.
     bindE (read_length input first_len) (\<lambda>(len, header).
     bindE (ok_or Failed (get_range input header (header + len))) (\<lambda>content.
       Inr (tag, content, drop (header + len) input)))))"

text \<open>What \<open>read_tlv\<close> returns is a header, the content and the rest of its input.\<close>

lemma get_range_Some [conv]:
  "get_range xs a b = Some ys \<longleftrightarrow> a \<le> b \<and> b \<le> length xs \<and> ys = take (b - a) (drop a xs)"
  by (auto simp: get_range_def)

lemma get_at_Some [conv]: "get_at xs i = Some x \<longleftrightarrow> i < length xs \<and> x = xs ! i"
  by (auto simp: get_at_def)

lemma read_length_header: "read_length input fl = Inr (len, header) \<Longrightarrow> 2 \<le> header"
  by (auto simp: read_length_def conv Let_def split: if_splits)

lemma read_tlv_split:
  assumes "read_tlv input = Inr (tag, content, rest)"
  shows "\<exists>header. 2 \<le> length header \<and> input = header @ content @ rest"
proof -
  obtain fl len h where l: "read_length input fl = Inr (len, h)" and h: "h + len \<le> length input"
    and c: "content = take len (drop h input)" and r: "rest = drop (h + len) input"
    using assms by (auto simp: read_tlv_def conv)
  have "input = take h input @ content @ rest"
    unfolding c r by (metis append_take_drop_id add.commute drop_drop)
  moreover have "2 \<le> length (take h input)" using h read_length_header [OF l] by simp
  ultimately show ?thesis by blast
qed

lemma read_tlv_shorter: "read_tlv input = Inr (tag, content, rest) \<Longrightarrow> length rest < length input"
  using read_tlv_split by fastforce

text \<open>The reader inverts the writer, for any content a four-byte length can announce.\<close>

lemma be_val_drop_zeros:
  "\<forall>b \<in> set (take k bs). b = 0 \<Longrightarrow> be_val (drop k bs) = be_val bs"
proof (induction k arbitrary: bs)
  case 0
  then show ?case by simp
next
  case (Suc k)
  then show ?case by (cases bs) (auto simp: be_val_def)
qed

lemma usize_bytes_4: "n < 2 ^ 32 \<Longrightarrow> usize_bytes n = [0, 0, 0, 0] @ be_bytes 4 n"
proof -
  assume "n < 2 ^ 32"
  then have "n div 256 ^ 4 = 0" by simp
  moreover have "replicate 4 0 = [0, 0, 0, 0 :: byte]" by (simp add: numeral_eq_Suc)
  moreover have "usize_bytes n = be_bytes 4 (n div 256 ^ 4) @ be_bytes 4 n"
    using be_bytes_append [of 4 4 n] by (simp add: usize_bytes_def)
  ultimately show ?thesis by (simp only: be_bytes_0)
qed

lemma long_length:
  assumes "0x80 \<le> n" and "n < 2 ^ 32"
  shows "\<exists>bs. position (\<lambda>b. b \<noteq> 0) (usize_bytes n) = Some (8 - length bs)
    \<and> drop (8 - length bs) (usize_bytes n) = bs \<and> 0 < length bs \<and> length bs \<le> 4 \<and> be_val bs = n"
proof -
  let ?all = "usize_bytes n"
  let ?z = "length (takeWhile (\<lambda>b. b = 0) ?all)"
  have val: "be_val ?all = n"
    using assms(2) by (simp add: usize_bytes_def be_val_be_bytes)
  have ex: "\<exists>b \<in> set ?all. b \<noteq> 0"
  proof (rule ccontr)
    assume "\<not> (\<exists>b \<in> set ?all. b \<noteq> 0)"
    then have "be_val ?all = be_val (drop 8 ?all)"
      by (metis be_val_drop_zeros in_set_takeD)
    also have "\<dots> = 0" by (simp add: usize_bytes_def be_val_def)
    finally show False using val assms(1) by simp
  qed
  have z4: "4 \<le> ?z" unfolding usize_bytes_4 [OF assms(2)] by simp
  have z8: "?z < 8"
    using length_takeWhile_less [of ?all "\<lambda>b. b = 0"] ex by (simp add: usize_bytes_def)
  have pos: "position (\<lambda>b. b \<noteq> 0) ?all = Some ?z"
    using ex by (simp add: position_eq)
  have zeros: "\<forall>b \<in> set (take ?z ?all). b = 0"
    unfolding takeWhile_eq_take [symmetric] by (blast dest: set_takeWhileD)
  have v: "be_val (drop ?z ?all) = n"
    by (rule trans [OF be_val_drop_zeros [OF zeros] val])
  define z where "z = ?z"
  have "length (drop z ?all) = 8 - z" by (simp add: usize_bytes_def)
  moreover have "z < 8" "4 \<le> z" using z4 z8 by (simp_all add: z_def)
  ultimately have l: "8 - length (drop z ?all) = z" "0 < length (drop z ?all)"
    "length (drop z ?all) \<le> 4" by arith+
  show ?thesis
    using pos v l(2,3) unfolding z_def [symmetric] by (intro exI [of _ "drop z ?all"]) (simp only: l(1) simp_thms)
qed

lemma or_0x80:
  assumes "k \<le> 4"
  shows "unat (0x80 OR (word_of_nat k :: byte)) \<ge> 0x80"
    and "unat ((0x80 OR (word_of_nat k :: byte)) AND 0x7F) = k"
proof -
  have "k = 0 \<or> k = 1 \<or> k = 2 \<or> k = 3 \<or> k = 4" using assms by auto
  then show "unat (0x80 OR (word_of_nat k :: byte)) \<ge> 0x80"
    and "unat ((0x80 OR (word_of_nat k :: byte)) AND 0x7F) = k" by auto
qed

lemma read_tlv_frame:
  assumes "read_length (t # fl # more @ c @ rest) fl = Inr (length c, 2 + length more)"
  shows "read_tlv (t # fl # more @ c @ rest) = Inr (t, c, rest)"
  using assms by (simp add: read_tlv_def get_at_def get_range_def)

lemma read_tlv_tlv:
  assumes "length c < 2 ^ 32"
  shows "read_tlv (tlv t c @ rest) = Inr (t, c, rest)"
proof (cases "length c < 0x80")
  case True
  then have "tlv t c = t # word_of_nat (length c) # [] @ c" by (simp add: tlv_def)
  moreover have "read_length (t # word_of_nat (length c) # [] @ c @ rest) (word_of_nat (length c))
      = Inr (length c, 2 + length ([] :: bytes))"
    using True by (simp add: read_length_def unat_byte_of_nat)
  ultimately show ?thesis using read_tlv_frame [of t _ "[]" c rest] by simp
next
  case False
  then obtain bs where bs: "position (\<lambda>b. b \<noteq> 0) (usize_bytes (length c)) = Some (8 - length bs)"
    "drop (8 - length bs) (usize_bytes (length c)) = bs" "0 < length bs" "length bs \<le> 4"
    "be_val bs = length c"
    using long_length [OF _ assms] by force
  let ?fl = "0x80 OR word_of_nat (length bs) :: byte"
  have len: "length (usize_bytes (length c)) - (8 - length bs) = length bs"
    using bs(4) by (simp add: usize_bytes_def)
  have t: "tlv t c = t # ?fl # bs @ c"
    using False by (simp add: tlv_def bs(1,2) len)
  have "read_length (t # ?fl # bs @ c @ rest) ?fl = Inr (length c, 2 + length bs)"
    using or_0x80 [OF bs(4)] bs(3,4,5) by (simp add: read_length_def get_range_def Let_def)
  then show ?thesis using read_tlv_frame t by simp
qed

definition get_tlv :: "bytes \<Rightarrow> ((byte \<times> bytes) \<times> bytes) option" where
  "get_tlv input = (case read_tlv input of Inl _ \<Rightarrow> None | Inr (t, c, r) \<Rightarrow> Some ((t, c), r))"

definition tlv_fits :: "byte \<times> bytes \<Rightarrow> bool" where
  "tlv_fits p \<longleftrightarrow> length (snd p) < 2 ^ 32"

interpretation der: self_delimiting "\<lambda>(t, c). tlv t c" get_tlv tlv_fits
  by unfold_locales (auto simp: get_tlv_def tlv_fits_def read_tlv_tlv)

lemma length_tlv_gt: "length c < length (tlv t c)"
  by (simp add: tlv_def Let_def)

lemma tlv_not_Nil [simp]: "tlv t c \<noteq> []"
  by (simp add: tlv_def Let_def)

section \<open>The elements of a constructed value\<close>

text \<open>
  The loop of \<open>der_contents\<close> and \<open>der_elements\<close>: each element is the slice of the input its
  TLV took. The two differ in what they check of an element's tag.
\<close>

function elements :: "(byte \<Rightarrow> bool) \<Rightarrow> bytes \<Rightarrow> der_error + bytes list" where
  "elements tag_ok remaining =
     (if remaining = [] then Inr []
      else case read_tlv remaining of
             Inl e \<Rightarrow> Inl e
           | Inr (t, _, nxt) \<Rightarrow>
               if \<not> tag_ok t then Inl Failed
               else let consumed = length remaining - length nxt
                    in bindE (elements tag_ok nxt) (\<lambda>out. Inr (take consumed remaining # out)))"
  by pat_completeness auto
termination
  by (relation "measure (\<lambda>(_, remaining). length remaining)") (auto dest: read_tlv_shorter)

declare elements.simps [simp del]

definition der_contents :: "bytes \<Rightarrow> byte \<Rightarrow> der_error + bytes list" where
  "der_contents input element_tag =
     bindE (read_tlv input) (\<lambda>(tag, content, rest).
       if tag \<noteq> 0x30 \<or> rest \<noteq> [] then Inl Failed
       else elements (\<lambda>t. t = element_tag) content)"

definition der_elements :: "bytes \<Rightarrow> der_error + bytes list" where
  "der_elements input = bindE (read_tlv input) (\<lambda>(_, content, _). elements (\<lambda>_. True) content)"

lemma elements_tlvs:
  assumes "\<forall>(t, c) \<in> set ps. tag_ok t \<and> length c < 2 ^ 32"
  shows "elements tag_ok (concat (map (\<lambda>(t, c). tlv t c) ps)) = Inr (map (\<lambda>(t, c). tlv t c) ps)"
  using assms
proof (induction ps)
  case Nil
  then show ?case by (simp add: elements.simps)
next
  case (Cons p ps)
  obtain t c where p: "p = (t, c)" by fastforce
  let ?rest = "concat (map (\<lambda>(t, c). tlv t c) ps)"
  have ok: "tag_ok t" "length c < 2 ^ 32" using Cons.prems p by auto
  have "elements tag_ok (tlv t c @ ?rest) = bindE (elements tag_ok ?rest) (\<lambda>out. Inr (tlv t c # out))"
    by (subst elements.simps) (simp add: read_tlv_tlv [OF ok(2)] ok(1))
  then show ?case using Cons p by simp
qed

lemma elements_concat: "elements tag_ok input = Inr es \<Longrightarrow> concat es = input"
proof (induction tag_ok input arbitrary: es rule: elements.induct)
  case (1 tag_ok input)
  show ?case
  proof (cases "input = []")
    case True
    then show ?thesis using "1.prems" by (simp add: elements.simps)
  next
    case False
    then obtain t c nxt out where r: "read_tlv input = Inr (t, c, nxt)" and t: "tag_ok t"
      and out: "elements tag_ok nxt = Inr out"
      and es: "es = take (length input - length nxt) input # out"
      using "1.prems" by (subst (asm) elements.simps)
        (auto simp: bindE_Inr_iff Let_def split: sum.splits prod.splits if_splits)
    have "concat out = nxt" using "1.IH" [OF False r _ _ _ refl out] t by simp
    moreover have "drop (length input - length nxt) input = nxt"
      using read_tlv_split [OF r] by auto
    ultimately show ?thesis unfolding es by (metis append_take_drop_id concat.simps(2))
  qed
qed

section \<open>Folding a string value\<close>

definition lower_byte :: "byte \<Rightarrow> byte" where
  "lower_byte b = (if b < 0x80 then (if 65 \<le> b \<and> b \<le> 90 then b + 32 else b) else b)"

fun fold_loop :: "bool \<Rightarrow> bytes \<Rightarrow> bytes \<Rightarrow> bytes" where
  "fold_loop in_space out [] = out"
| "fold_loop in_space out (byte # rest) =
     (if byte = 0x20 then
        (if \<not> in_space then fold_loop True (out @ [0x20]) rest else fold_loop in_space out rest)
      else fold_loop False (out @ [lower_byte byte]) rest)"

text \<open>The code's \<open>fold\<close>.\<close>

definition fold_value :: "bytes \<Rightarrow> bytes" where
  "fold_value val =
     (let start = (case position (\<lambda>b. b \<noteq> 0x20) val of Some i \<Rightarrow> i | None \<Rightarrow> length val);
          stop = (case rposition (\<lambda>b. b \<noteq> 0x20) val of Some i \<Rightarrow> i + 1 | None \<Rightarrow> start);
          trimmed = take (stop - start) (drop start val)
      in fold_loop False [] trimmed)"

text \<open>What it stands for: the words of the value, lower-cased, joined by single spaces.\<close>

fun words :: "bytes \<Rightarrow> bytes list" where
  "words [] = []"
| "words (b # bs) =
     (if b = 0x20 then words bs
      else if bs = [] \<or> hd bs = 0x20 then [b] # words bs
      else (b # hd (words bs)) # tl (words bs))"

fun join_words :: "bytes list \<Rightarrow> bytes" where
  "join_words [] = []"
| "join_words [w] = w"
| "join_words (w # ws) = w @ 0x20 # join_words ws"

definition fold_spec :: "bytes \<Rightarrow> bytes" where
  "fold_spec val = join_words (map (map lower_byte) (words val))"

lemma lower_byte_space [simp]: "lower_byte b = 0x20 \<longleftrightarrow> b = 0x20"
proof -
  have "b + 32 \<noteq> 0x20" if "65 \<le> b"
  proof
    assume "b + 32 = 0x20"
    then have "b = 0" by simp
    then show False using that by simp
  qed
  then show ?thesis by (auto simp: lower_byte_def)
qed

lemma lower_byte_0x20 [simp]: "lower_byte 0x20 = 0x20" "0x20 = lower_byte b \<longleftrightarrow> b = 0x20"
  using lower_byte_space [of b] by (auto simp: lower_byte_def)

lemma lower_byte_idem [simp]: "lower_byte (lower_byte b) = lower_byte b"
proof (cases "b < 0x80 \<and> 65 \<le> b \<and> b \<le> 90")
  case True
  then have b: "65 \<le> unat b" "unat b \<le> 90" by (simp_all add: word_le_nat_alt)
  have u: "unat (b + 32) = unat b + 32" using b by (simp add: unat_word_ariths)
  have "\<not> b + 32 \<le> 90" using b by (simp add: word_le_nat_alt u)
  then show ?thesis using True by (simp add: lower_byte_def)
qed (auto simp: lower_byte_def)

lemma words_Nil_iff: "words bs = [] \<longleftrightarrow> (\<forall>b \<in> set bs. b = 0x20)"
  by (induction bs rule: words.induct) auto

lemma words_parts: "w \<in> set (words bs) \<Longrightarrow> w \<noteq> [] \<and> 0x20 \<notin> set w"
proof (induction bs arbitrary: w)
  case Nil
  then show ?case by simp
next
  case (Cons b bs)
  show ?case
  proof (cases "b = 0x20 \<or> bs = [] \<or> hd bs = 0x20")
    case True
    then show ?thesis using Cons by (auto split: if_splits)
  next
    case False
    then have ne: "words bs \<noteq> []" using hd_in_set by (auto simp: words_Nil_iff)
    then obtain v vs where v: "words bs = v # vs" by (cases "words bs") auto
    then have "w = b # v \<or> w \<in> set vs" using Cons.prems False by simp
    then show ?thesis using Cons.IH [of v] Cons.IH [of w] False v by auto
  qed
qed

lemma words_spaces_prefix: "(\<forall>b \<in> set sp. b = 0x20) \<Longrightarrow> words (sp @ bs) = words bs"
  by (induction sp) auto

lemma words_spaces_suffix: "(\<forall>b \<in> set sp. b = 0x20) \<Longrightarrow> words (bs @ sp) = words bs"
proof (induction bs)
  case Nil
  then show ?case by (simp add: words_Nil_iff)
next
  case (Cons b bs)
  have "bs @ sp = [] \<or> hd (bs @ sp) = 0x20 \<longleftrightarrow> bs = [] \<or> hd bs = 0x20"
    using Cons.prems by (cases bs; cases sp) auto
  then show ?case using Cons by auto
qed

text \<open>A value is its leading spaces, a part that starts and ends solid, and trailing spaces.\<close>

lemma spaces_split:
  fixes val :: bytes
  shows "\<exists>sp t sq. val = sp @ t @ sq \<and> (\<forall>b \<in> set sp. b = 0x20) \<and> (\<forall>b \<in> set sq. b = 0x20)
    \<and> (if t = [] then sq = [] else hd t \<noteq> 0x20 \<and> last t \<noteq> 0x20)"
proof (induction val)
  case Nil
  then show ?case by simp
next
  case (Cons b val)
  then obtain sp t sq where v: "val = sp @ t @ sq" "\<forall>b \<in> set sp. b = 0x20" "\<forall>b \<in> set sq. b = 0x20"
    "if t = [] then sq = [] else hd t \<noteq> 0x20 \<and> last t \<noteq> 0x20" by blast
  show ?case
  proof (cases "b = 0x20")
    case True
    then show ?thesis using v by (intro exI [of _ "b # sp"] exI [of _ t] exI [of _ sq]) simp
  next
    case False
    show ?thesis
    proof (cases "t = []")
      case True
      then show ?thesis using v False
        by (intro exI [of _ "[]"] exI [of _ "[b]"] exI [of _ sp]) simp
    next
      case t: False
      then show ?thesis using v False
        by (intro exI [of _ "[]"] exI [of _ "b # sp @ t"] exI [of _ sq]) simp
    qed
  qed
qed

lemma position_skip:
  "\<forall>b \<in> set sp. \<not> P b \<Longrightarrow> P c \<Longrightarrow> position P (sp @ c # bs) = Some (length sp)"
  by (induction sp) auto

lemma fold_value_trims:
  assumes v: "val = sp @ t @ sq" and sp: "\<forall>b \<in> set sp. b = 0x20" and sq: "\<forall>b \<in> set sq. b = 0x20"
    and t: "if t = [] then sq = [] else hd t \<noteq> 0x20 \<and> last t \<noteq> 0x20"
  shows "fold_value val = fold_loop False [] t"
proof (cases "t = []")
  case True
  then have "position (\<lambda>b. b \<noteq> 0x20) val = None" "rposition (\<lambda>b. b \<noteq> 0x20) val = None"
    using v sp t by (simp_all add: position_None_iff rposition_def)
  then show ?thesis using True by (simp add: fold_value_def)
next
  case False
  then obtain c cs where c: "t = c # cs" and c0: "c \<noteq> 0x20" using t by (cases t) auto
  obtain d ds where d: "t = ds @ [d]" and d0: "d \<noteq> 0x20" using t False by (cases t rule: rev_cases) auto
  have pos: "position (\<lambda>b. b \<noteq> 0x20) val = Some (length sp)"
    using v c c0 sp position_skip [of sp "\<lambda>b. b \<noteq> 0x20" c "cs @ sq"] by simp
  have "rev val = rev sq @ d # rev ds @ rev sp" using v d by simp
  then have "position (\<lambda>b. b \<noteq> 0x20) (rev val) = Some (length sq)"
    using d0 sq position_skip [of "rev sq" "\<lambda>b. b \<noteq> 0x20" d "rev ds @ rev sp"] by simp
  then have rpos: "rposition (\<lambda>b. b \<noteq> 0x20) val = Some (length sp + length ds)"
    using v d by (simp add: rposition_def)
  have "fold_value val = fold_loop False [] (take (length t) (drop (length sp) val))"
    unfolding fold_value_def Let_def pos rpos using d by simp
  then show ?thesis using v by simp
qed

lemma fold_loop_words:
  assumes "t \<noteq> [] \<Longrightarrow> last t \<noteq> 0x20"
  shows "fold_loop in_space out t =
    out @ (if \<not> in_space \<and> t \<noteq> [] \<and> hd t = 0x20 then [0x20] else []) @ fold_spec t"
  using assms
proof (induction in_space out t rule: fold_loop.induct)
  case (1 in_space out)
  then show ?case by (simp add: fold_spec_def)
next
  case (2 in_space out b t)
  have last_t: "t \<noteq> [] \<Longrightarrow> last t \<noteq> 0x20" using "2.prems" by auto
  show ?case
  proof (cases "b = 0x20")
    case True
    then have "t \<noteq> []" using "2.prems" by auto
    then show ?thesis using 2 True last_t by (cases in_space) (simp_all add: fold_spec_def)
  next
    case False
    have IH: "fold_loop in_space out (b # t) = out @ [lower_byte b] @
        (if t \<noteq> [] \<and> hd t = 0x20 then [0x20] else []) @ fold_spec t"
      using 2(3) [OF False last_t] False by simp
    have ws: "t \<noteq> [] \<Longrightarrow> words t \<noteq> []"
      using last_t last_in_set by (auto simp: words_Nil_iff)
    have "[lower_byte b] @ (if t \<noteq> [] \<and> hd t = 0x20 then [0x20] else []) @ fold_spec t
        = fold_spec (b # t)"
    proof (cases "t = []")
      case True
      then show ?thesis using False by (simp add: fold_spec_def)
    next
      case t: False
      obtain w wss where w: "words t = w # wss" using ws [OF t] by (cases "words t") auto
      show ?thesis using False t w by (cases wss) (auto simp: fold_spec_def)
    qed
    then show ?thesis using IH False by simp
  qed
qed

lemma fold_value_spec: "fold_value val = fold_spec val"
proof -
  obtain sp t sq where v: "val = sp @ t @ sq" "\<forall>b \<in> set sp. b = 0x20" "\<forall>b \<in> set sq. b = 0x20"
    "if t = [] then sq = [] else hd t \<noteq> 0x20 \<and> last t \<noteq> 0x20"
    using spaces_split by blast
  have "fold_spec val = fold_spec t"
    using v by (simp add: fold_spec_def words_spaces_prefix words_spaces_suffix)
  then show ?thesis
    using fold_value_trims [OF v] fold_loop_words [of t False "[]"] v(4) by (auto split: if_splits)
qed

lemma words_word:
  "w \<noteq> [] \<Longrightarrow> 0x20 \<notin> set w \<Longrightarrow> words (w @ bs) =
    (if bs = [] \<or> hd bs = 0x20 then w # words bs else (w @ hd (words bs)) # tl (words bs))"
proof (induction w)
  case Nil
  then show ?case by simp
next
  case (Cons b w)
  show ?case
  proof (cases "w = []")
    case True
    then show ?thesis using Cons.prems by auto
  next
    case False
    then have "hd (w @ bs) \<noteq> 0x20" using Cons.prems by (cases w) auto
    then show ?thesis using Cons False by auto
  qed
qed

lemma words_join: "\<forall>w \<in> set ws. w \<noteq> [] \<and> 0x20 \<notin> set w \<Longrightarrow> words (join_words ws) = ws"
proof (induction ws rule: join_words.induct)
  case (2 w)
  then show ?case using words_word [of w "[]"] by simp
qed (simp_all add: words_word)

lemma fold_spec_idem: "fold_spec (fold_spec val) = fold_spec val"
proof -
  have "words (join_words (map (map lower_byte) (words val))) = map (map lower_byte) (words val)"
    by (rule words_join) (auto dest!: words_parts)
  then show ?thesis by (simp add: fold_spec_def comp_def)
qed

section \<open>The canonical name\<close>

definition is_canon_string :: "byte \<Rightarrow> bool" where
  "is_canon_string tag \<longleftrightarrow> tag \<in> {0x0C, 0x13, 0x14, 0x16, 0x1A, 0x1C, 0x1E}"

definition canonical_ava :: "bytes \<Rightarrow> der_error + bytes" where
  "canonical_ava ava =
     bindE (read_tlv ava) (\<lambda>(tag, content, rest).
     if tag \<noteq> 0x30 \<or> rest \<noteq> [] then Inl SequenceValue
     else bindE (read_tlv content) (\<lambda>(oid_tag, oid, after_oid).
     if oid_tag \<noteq> 0x06 then Inl SequenceValue
     else bindE (read_tlv after_oid) (\<lambda>(value_tag, val, _).
       Inr (tlv 0x30
         (tlv 0x06 oid @
          (if is_canon_string value_tag then tlv 0x0C (fold_value val) else tlv value_tag val))))))"

definition canonical_name :: "bytes \<Rightarrow> der_error + bytes" where
  "canonical_name name_der =
     bindE (der_contents name_der 0x31) (\<lambda>rdns.
     bindE
       (mapE (\<lambda>rdn.
          bindE (der_elements rdn) (\<lambda>avas.
          bindE (mapE canonical_ava avas) (\<lambda>encoded.
            Inr (tlv 0x31 (concat (sort encoded))))))
         rdns)
       (\<lambda>sets. Inr (concat sets)))"

text \<open>
  \<open>X509_NAME_hash\<close>; SHA-1 is a parameter (the \<open>sha1\<close> crate's digest, twenty bytes).
\<close>

definition hex8 :: "nat \<Rightarrow> string" where
  "hex8 n = map (\<lambda>k. hex_digit (n div 16 ^ k)) [7, 6, 5, 4, 3, 2, 1, 0]"

definition subject_hash :: "(bytes \<Rightarrow> bytes) \<Rightarrow> bytes \<Rightarrow> der_error + string" where
  "subject_hash sha1 name_der =
     bindE (canonical_name name_der) (\<lambda>canonical.
       let digest = sha1 canonical;
           val = le_val [digest ! 0, digest ! 1, digest ! 2, digest ! 3]
       in Inr (hex8 val))"

section \<open>Names as structures\<close>

text \<open>
  A name is a list of RDNs, each a list of attributes: the type's object identifier, the
  value's tag and its content. \<open>encode_name\<close> is the DER a certificate carries (with the
  attributes in whatever order it has them), \<open>canonical\<close> the canonical form.
\<close>

datatype ava = Ava bytes byte bytes

fun encode_ava :: "ava \<Rightarrow> bytes" where
  "encode_ava (Ava i t v) = tlv 0x30 (tlv 0x06 i @ tlv t v)"

definition encode_rdn :: "ava list \<Rightarrow> bytes" where
  "encode_rdn avas = tlv 0x31 (concat (map encode_ava avas))"

definition encode_name :: "ava list list \<Rightarrow> bytes" where
  "encode_name rdns = tlv 0x30 (concat (map encode_rdn rdns))"

fun canon_ava :: "ava \<Rightarrow> ava" where
  "canon_ava (Ava i t v) = (if is_canon_string t then Ava i 0x0C (fold_spec v) else Ava i t v)"

definition canonical :: "ava list list \<Rightarrow> ava list list" where
  "canonical rdns = map (\<lambda>avas. sort_key encode_ava (map canon_ava avas)) rdns"

lemma canon_ava_idem [simp]: "canon_ava (canon_ava a) = canon_ava a"
  by (cases a) (simp add: fold_spec_idem is_canon_string_def)

lemma map_sort_key: "map f (sort_key f xs) = sort (map f xs)"
  by (rule properties_for_sort [symmetric]) simp_all

lemma canonical_idem: "canonical (canonical rdns) = canonical rdns"
proof -
  have "map canon_ava (sort_key encode_ava (map canon_ava avas)) = sort_key encode_ava (map canon_ava avas)"
    for avas by (rule map_idI) auto
  then show ?thesis by (simp add: canonical_def comp_def sort_key_id_if_sorted)
qed

text \<open>Every part of an encoding is shorter than the whole.\<close>

lemma length_in_concat: "x \<in> set xs \<Longrightarrow> length (f x) \<le> length (concat (map f xs))"
  by (induction xs) auto

lemma encode_ava_fits:
  assumes "length (encode_ava (Ava i t v)) < n"
  shows "length (tlv 0x06 i @ tlv t v) < n" "length i < n" "length v < n"
  using assms length_tlv_gt [of "tlv 0x06 i @ tlv t v" "0x30"] length_tlv_gt [of i "0x06"]
    length_tlv_gt [of v t] by simp_all

lemma canonical_ava_encode:
  assumes "length (encode_ava a) < 2 ^ 32"
  shows "canonical_ava (encode_ava a) = Inr (encode_ava (canon_ava a))"
proof (cases a)
  case (Ava i t v)
  have fit: "length (tlv 0x06 i @ tlv t v) < 2 ^ 32" "length i < 2 ^ 32" "length v < 2 ^ 32"
    using encode_ava_fits assms Ava by blast+
  show ?thesis
    using read_tlv_tlv [OF fit(1), of "0x30" "[]"] read_tlv_tlv [OF fit(2), of "0x06"]
      read_tlv_tlv [OF fit(3), of t "[]"]
    by (simp add: Ava canonical_ava_def fold_value_spec)
qed

lemma der_elements_encode_rdn:
  assumes "length (encode_rdn avas) < 2 ^ 32"
  shows "der_elements (encode_rdn avas) = Inr (map encode_ava avas)"
proof -
  let ?ps = "map (\<lambda>a. (0x30 :: byte, case a of Ava i t v \<Rightarrow> tlv 0x06 i @ tlv t v)) avas"
  have body: "length (concat (map encode_ava avas)) < 2 ^ 32"
    using assms length_tlv_gt [of "concat (map encode_ava avas)" "0x31"] by (simp add: encode_rdn_def)
  have enc: "map (\<lambda>(t, c). tlv t c) ?ps = map encode_ava avas" by (auto split: ava.splits)
  have "length (encode_ava a) < 2 ^ 32" if "a \<in> set avas" for a
    using length_in_concat [OF that, of encode_ava] body by simp
  then have "length (case a of Ava i t v \<Rightarrow> tlv 0x06 i @ tlv t v) < 2 ^ 32" if "a \<in> set avas" for a
    using that encode_ava_fits(1) by (cases a) force
  then have "\<forall>(t, c) \<in> set ?ps. True \<and> length c < 2 ^ 32" by auto
  then have "elements (\<lambda>_. True) (concat (map encode_ava avas)) = Inr (map encode_ava avas)"
    using elements_tlvs [of ?ps "\<lambda>_. True"] by (simp only: enc)
  then show ?thesis
    using read_tlv_tlv [OF body, of "0x31" "[]"] by (simp add: der_elements_def encode_rdn_def)
qed

lemma der_contents_encode_name:
  assumes "length (encode_name rdns) < 2 ^ 32"
  shows "der_contents (encode_name rdns) 0x31 = Inr (map encode_rdn rdns)"
proof -
  let ?ps = "map (\<lambda>avas. (0x31 :: byte, concat (map encode_ava avas))) rdns"
  have body: "length (concat (map encode_rdn rdns)) < 2 ^ 32"
    using assms length_tlv_gt [of "concat (map encode_rdn rdns)" "0x30"] by (simp add: encode_name_def)
  have enc: "map (\<lambda>(t, c). tlv t c) ?ps = map encode_rdn rdns" by (simp add: encode_rdn_def)
  have "length (concat (map encode_ava avas)) < 2 ^ 32" if "avas \<in> set rdns" for avas
    using length_in_concat [OF that, of encode_rdn] body
      length_tlv_gt [of "concat (map encode_ava avas)" "0x31"] by (simp add: encode_rdn_def)
  then have "elements (\<lambda>t. t = 0x31) (concat (map encode_rdn rdns)) = Inr (map encode_rdn rdns)"
    using elements_tlvs [of ?ps "\<lambda>t. t = 0x31"] by (simp only: enc) auto
  then show ?thesis
    using read_tlv_tlv [OF body, of "0x30" "[]"] by (simp add: der_contents_def encode_name_def)
qed

lemma canonical_of_encoding:
  assumes "length (encode_name rdns) < 2 ^ 32"
  shows "canonical_name (encode_name rdns) = Inr (concat (map encode_rdn (canonical rdns)))"
proof -
  let ?set = "\<lambda>rdn. bindE (der_elements rdn) (\<lambda>avas. bindE (mapE canonical_ava avas)
     (\<lambda>encoded. Inr (tlv 0x31 (concat (sort encoded)))))"
  have "?set (encode_rdn avas) = Inr (encode_rdn (sort_key encode_ava (map canon_ava avas)))"
    if "avas \<in> set rdns" for avas
  proof -
    have fit: "length (encode_rdn avas) < 2 ^ 32"
      using length_in_concat [OF that, of encode_rdn] assms
        length_tlv_gt [of "concat (map encode_rdn rdns)" "0x30"] by (simp add: encode_name_def)
    have "length (encode_ava a) < 2 ^ 32" if "a \<in> set avas" for a
      using length_in_concat [OF that, of encode_ava] fit
        length_tlv_gt [of "concat (map encode_ava avas)" "0x31"] by (simp add: encode_rdn_def)
    then have "mapE canonical_ava (map encode_ava avas) = Inr (map (encode_ava \<circ> canon_ava) avas)"
      using canonical_ava_encode by (auto simp: mapE_Inr_iff list_all2_map1 list_all2_map2 list_all2_same)
    then have "?set (encode_rdn avas) = Inr (tlv 0x31 (concat (sort (map (encode_ava \<circ> canon_ava) avas))))"
      by (simp add: der_elements_encode_rdn [OF fit])
    then show ?thesis by (simp add: encode_rdn_def map_sort_key)
  qed
  then have "mapE ?set (map encode_rdn rdns) = Inr (map encode_rdn (canonical rdns))"
    by (auto simp: mapE_Inr_iff canonical_def list_all2_map1 list_all2_map2 list_all2_same)
  then show ?thesis by (simp add: canonical_name_def der_contents_encode_name [OF assms])
qed

text \<open>Whatever \<open>canonical_name\<close> returns is the encoding of some canonical name.\<close>

lemma canonical_ava_shape: "canonical_ava b = Inr e \<Longrightarrow> \<exists>a. e = encode_ava (canon_ava a)"
proof -
  assume e: "canonical_ava b = Inr e"
  obtain t0 c r where 1: "read_tlv b = Inr (t0, c, r)" "t0 = 0x30 \<and> r = []"
    using e by (cases "read_tlv b") (auto simp: canonical_ava_def split: if_splits)
  obtain t1 i after where 2: "read_tlv c = Inr (t1, i, after)" "t1 = 0x06"
    using e 1 by (cases "read_tlv c") (auto simp: canonical_ava_def split: if_splits)
  obtain t v r' where 3: "read_tlv after = Inr (t, v, r')"
    using e 1 2 by (cases "read_tlv after") (auto simp: canonical_ava_def)
  have "e = encode_ava (canon_ava (Ava i t v))"
    using e 1 2 3 by (auto simp: canonical_ava_def fold_value_spec)
  then show ?thesis ..
qed

lemma list_all2_ex: "list_all2 P xs ys \<Longrightarrow> (\<And>x y. P x y \<Longrightarrow> \<exists>z. y = f z) \<Longrightarrow> \<exists>zs. ys = map f zs"
proof (induction rule: list_all2_induct)
  case Nil
  then show ?case by simp
next
  case (Cons x xs y ys)
  then obtain z zs where "y = f z" "ys = map f zs" by blast
  then show ?case by (metis list.simps(9))
qed

lemma canonical_name_shape:
  assumes "canonical_name d = Inr c"
  shows "\<exists>rdns. c = concat (map encode_rdn (canonical rdns))"
proof -
  obtain rs sets where c: "c = concat sets" and sets: "list_all2 (\<lambda>rdn y.
      bindE (der_elements rdn) (\<lambda>avas. bindE (mapE canonical_ava avas)
        (\<lambda>encoded. Inr (tlv 0x31 (concat (sort encoded))))) = Inr y) rs sets"
    using assms by (auto simp: canonical_name_def bindE_Inr_iff mapE_Inr_iff)
  have "\<exists>rdns. sets = map (\<lambda>avas. encode_rdn (sort_key encode_ava (map canon_ava avas))) rdns"
    using sets
  proof (rule list_all2_ex)
    fix rdn y
    assume "bindE (der_elements rdn) (\<lambda>avas. bindE (mapE canonical_ava avas)
        (\<lambda>encoded. Inr (tlv 0x31 (concat (sort encoded))))) = Inr y"
    then obtain bs es where y: "y = tlv 0x31 (concat (sort es))"
      and es: "list_all2 (\<lambda>b e. canonical_ava b = Inr e) bs es"
      by (auto simp: bindE_Inr_iff mapE_Inr_iff)
    have "\<exists>avas. es = map (\<lambda>a. encode_ava (canon_ava a)) avas"
      using es by (rule list_all2_ex) (rule canonical_ava_shape)
    then obtain avas where "es = map (\<lambda>a. encode_ava (canon_ava a)) avas" ..
    then have "y = encode_rdn (sort_key encode_ava (map canon_ava avas))"
      by (simp add: y encode_rdn_def map_sort_key comp_def)
    then show "\<exists>avas. y = encode_rdn (sort_key encode_ava (map canon_ava avas))" by blast
  qed
  then show ?thesis by (auto simp: c canonical_def comp_def)
qed

section \<open>Properties\<close>

text \<open>
  OpenSSL's folding: \<open>fold\<close> is the words of the value, ASCII lower-cased, joined by
  single spaces.
\<close>

theorem fold_value_words: "fold_value val = fold_spec val"
  by (rule fold_value_spec)

text \<open>
  C16. The canonical name of an encoded name is its canonical form: every string value
  folded and re-tagged, every RDN's attributes sorted by their encodings, the RDN sets
  concatenated without the outer SEQUENCE.
\<close>

theorem canonical_name_encode:
  assumes "length (encode_name rdns) < 2 ^ 32"
  shows "canonical_name (encode_name rdns) = Inr (concat (map encode_rdn (canonical rdns)))"
  using assms by (rule canonical_of_encoding)

theorem canonical_name_encode_witness:
  "length (encode_name [[Ava [0x55, 4, 3] 0x13 [0x41, 0x20, 0x20, 0x42]]]) = 17 \<and>
   canonical_name (encode_name [[Ava [0x55, 4, 3] 0x13 [0x41, 0x20, 0x20, 0x42]]])
   = Inr [0x31, 12, 0x30, 10, 6, 3, 0x55, 4, 3, 0x0C, 3, 0x61, 0x20, 0x62]"
proof -
  have len: "length (encode_name [[Ava [0x55, 4, 3] 0x13 [0x41, 0x20, 0x20, 0x42]]]) = 17"
    by code_simp
  have "concat (map encode_rdn (canonical [[Ava [0x55, 4, 3] 0x13 [0x41, 0x20, 0x20, 0x42]]]))
      = [0x31, 12, 0x30, 10, 6, 3, 0x55, 4, 3, 0x0C, 3, 0x61, 0x20, 0x62]"
    by code_simp
  then show ?thesis
    using canonical_name_encode [of "[[Ava [0x55, 4, 3] 0x13 [0x41, 0x20, 0x20, 0x42]]]"] len
    by simp
qed

text \<open>
  A canonical name is a fixed point: canonicalising it again (as a Name, inside its
  SEQUENCE) changes nothing.
\<close>

theorem canonical_name_fixed_point:
  assumes "canonical_name name_der = Inr c" and "length (tlv 0x30 c) < 2 ^ 32"
  shows "canonical_name (tlv 0x30 c) = Inr c"
proof -
  obtain rdns where c: "c = concat (map encode_rdn (canonical rdns))"
    using canonical_name_shape [OF assms(1)] by blast
  have "canonical_name (encode_name (canonical rdns))
      = Inr (concat (map encode_rdn (canonical (canonical rdns))))"
    using assms(2) by (intro canonical_of_encoding) (simp add: encode_name_def c)
  then show ?thesis by (simp add: encode_name_def c canonical_idem)
qed


theorem canonical_name_fixed_point_witness:
  "canonical_name (tlv 0x30 [0x31, 12, 0x30, 10, 6, 3, 0x55, 4, 3, 0x0C, 3, 0x61, 0x20, 0x62])
   = Inr [0x31, 12, 0x30, 10, 6, 3, 0x55, 4, 3, 0x0C, 3, 0x61, 0x20, 0x62]"
proof -
  have "canonical_name (encode_name [[Ava [0x55, 4, 3] 0x13 [0x41, 0x20, 0x20, 0x42]]])
      = Inr [0x31, 12, 0x30, 10, 6, 3, 0x55, 4, 3, 0x0C, 3, 0x61, 0x20, 0x62]"
    by code_simp
  moreover have "length (tlv 0x30 [0x31, 12, 0x30, 10, 6, 3, 0x55, 4, 3, 0x0C, 3, 0x61, 0x20, 0x62]) = 16"
    by code_simp
  ultimately show ?thesis by (intro canonical_name_fixed_point) simp_all
qed

end
