(* ===== verification/Base64.thy ===== *)
theory Base64
  imports Prelude
begin

text \<open>
  The base64 codec of \<open>trust-core/src/cert.rs\<close> (\<open>B64\<close>, \<open>base64_encode\<close>, \<open>base64_decode\<close>),
  with its accumulator as the 32-bit word it is. The lemmas show that decoding an encoding
  gives the bytes back, whatever the (never masked) accumulator has kept from earlier
  symbols, and that an encoding only uses the 64 symbols and the padding.
\<close>

unbundle bit_operations_syntax

section \<open>The code\<close>

definition B64 :: string where
  "B64 = ''ABCDEFGHIJKLMNOPQRSTUVWXYZabcdefghijklmnopqrstuvwxyz0123456789+/''"

text \<open>One step of the encoder's loop: the four symbols of a chunk of one to three bytes.\<close>

definition encode_chunk :: "bytes \<Rightarrow> string" where
  "encode_chunk chunk =
     (let b0 = chunk ! 0;
          b1 = (if 1 < length chunk then chunk ! 1 else 0);
          b2 = (if 2 < length chunk then chunk ! 2 else 0);
          n = push_bit 16 (ucast b0) OR push_bit 8 (ucast b1) OR (ucast b2 :: u32)
      in [B64 ! unat (drop_bit 18 n AND 63),
          B64 ! unat (drop_bit 12 n AND 63),
          (if length chunk > 1 then B64 ! unat (drop_bit 6 n AND 63) else CHR ''=''),
          (if length chunk > 2 then B64 ! unat (n AND 63) else CHR ''='')])"

definition base64_encode :: "bytes \<Rightarrow> string" where
  "base64_encode data = concat (map encode_chunk (chunks 3 data))"

text \<open>What the decoder's \<open>match byte\<close> decides about a byte of the text.\<close>

datatype symbol = Value u32 | Break | Continue | Refuse

definition symbol_of :: "char \<Rightarrow> symbol" where
  "symbol_of c =
     (if is_ascii_upper c then Value (word_of_nat (ord c - 65))
      else if is_ascii_lower c then Value (word_of_nat (ord c - 97 + 26))
      else if is_ascii_digit c then Value (word_of_nat (ord c - 48 + 52))
      else if c = CHR ''+'' then Value 62
      else if c = CHR ''/'' then Value 63
      else if c = CHR ''='' then Break
      else if c = CHR 0x20 \<or> c = CHR 0x09 \<or> c = CHR 0x0D \<or> c = CHR 0x0A then Continue
      else Refuse)"

fun decode_loop :: "u32 \<Rightarrow> nat \<Rightarrow> bytes \<Rightarrow> string \<Rightarrow> bytes option" where
  "decode_loop acc bits out [] = Some out"
| "decode_loop acc bits out (c # cs) =
     (case symbol_of c of
        Break \<Rightarrow> Some out
      | Continue \<Rightarrow> decode_loop acc bits out cs
      | Refuse \<Rightarrow> None
      | Value v \<Rightarrow>
          (let acc = push_bit 6 acc OR v; bits = bits + 6
           in if 8 \<le> bits
              then decode_loop acc (bits - 8) (out @ [ucast (drop_bit (bits - 8) acc)]) cs
              else decode_loop acc bits out cs))"

definition base64_decode :: "string \<Rightarrow> bytes option" where
  "base64_decode text = decode_loop 0 0 [] text"

section \<open>The alphabet\<close>

lemma length_B64 [simp]: "length B64 = 64"
  by (simp add: B64_def)

lemma map_symbol_of_B64: "map symbol_of B64 = map (\<lambda>v. Value (word_of_nat v)) [0..<64]"
  by (simp add: B64_def symbol_of_def ascii_defs upt_rec eval_nat_numeral(1))

lemma symbol_of_B64: "v < 64 \<Longrightarrow> symbol_of (B64 ! v) = Value (word_of_nat v)"
  using arg_cong [OF map_symbol_of_B64, of "\<lambda>xs. xs ! v"] by simp

lemma unat_and_63: "unat (w AND 63 :: u32) < 64"
proof -
  have "w AND 63 \<le> 63" by (rule word_and_le1)
  then show ?thesis by (simp add: word_le_nat_alt)
qed

lemma symbol_of_B64_word [simp]:
  "symbol_of (B64 ! unat (w AND 63 :: u32)) = Value (w AND 63)"
  using symbol_of_B64 [OF unat_and_63, of w] by simp

lemma symbol_of_equals [simp]: "symbol_of (CHR ''='') = Break"
  by (simp add: symbol_of_def ascii_defs)

definition pem_safe :: "char \<Rightarrow> bool" where
  "pem_safe c \<longleftrightarrow> c \<in> set B64 \<or> c = CHR ''=''"

lemma B64_safe: "pem_safe (B64 ! unat (w AND 63 :: u32))"
  using unat_and_63 [of w] by (auto simp: pem_safe_def)

section \<open>Decoding an encoding\<close>

text \<open>
  The two word operations of the loops under names of their own, so that the simplifier
  leaves them whole: the six bits a symbol carries, and shifting them into the accumulator.
\<close>

definition low6 :: "u32 \<Rightarrow> u32" where
  "low6 w = w AND 63"

definition shift6 :: "u32 \<Rightarrow> u32 \<Rightarrow> u32" where
  "shift6 acc v = push_bit 6 acc OR v"

lemma bit_low6: "bit (low6 w) n \<longleftrightarrow> n < 6 \<and> bit w n"
proof -
  have "low6 w = take_bit 6 w" by (simp add: low6_def take_bit_eq_mask mask_eq_decr_exp)
  then show ?thesis by (simp add: bit_take_bit_iff)
qed

lemma bit_shift6: "bit (shift6 acc v) n \<longleftrightarrow> (6 \<le> n \<and> n < 32 \<and> bit acc (n - 6)) \<or> bit v n"
  by (auto simp: shift6_def bit_simps dest: bit_imp_le_length)

lemma step_keep:
  assumes "symbol_of c = Value v" and "bits < 2"
  shows "decode_loop acc bits out (c # cs) = decode_loop (shift6 acc v) (bits + 6) out cs"
  using assms by (simp add: shift6_def)

lemma step_emit:
  assumes "symbol_of c = Value v" and "2 \<le> bits"
  shows "decode_loop acc bits out (c # cs)
    = decode_loop (shift6 acc v) (bits - 2) (out @ [ucast (drop_bit (bits - 2) (shift6 acc v))]) cs"
  using assms by (simp add: shift6_def)

text \<open>The word a chunk packs, and the three bytes read back from the unmasked accumulator.\<close>

definition pack :: "byte \<Rightarrow> byte \<Rightarrow> byte \<Rightarrow> u32" where
  "pack a b c = push_bit 16 (ucast a) OR push_bit 8 (ucast b) OR ucast c"

lemma bit_pack:
  "bit (pack a b c) n \<longleftrightarrow>
     (16 \<le> n \<and> n < 24 \<and> bit a (n - 16)) \<or> (8 \<le> n \<and> n < 16 \<and> bit b (n - 8)) \<or> (n < 8 \<and> bit c n)"
  by (auto simp: pack_def bit_simps bit_ucast_iff dest: bit_imp_le_length)

lemmas acc_bits = bit_low6 bit_shift6 bit_pack bit_ucast_iff bit_drop_bit_eq comp_def

lemma acc_byte0:
  "ucast (drop_bit 4 (shift6 (shift6 acc (low6 (drop_bit 18 (pack a b c))))
     (low6 (drop_bit 12 (pack a b c))))) = (a :: byte)" (is "?l = a")
proof (rule bit_word_eqI)
  fix n assume n: "n < LENGTH(8)"
  then have "n < 8" by simp
  then show "bit ?l n = bit a n"
  proof (cases "n < 2")
    case False
    then obtain m where "n = m + 2" by (metis le_add_diff_inverse2 not_less)
    with \<open>n < 8\<close> show ?thesis by (simp add: acc_bits add.commute)
  qed (simp add: acc_bits)
qed

lemma acc_byte1:
  "ucast (drop_bit 2 (shift6 (shift6 acc (low6 (drop_bit 12 (pack a b c))))
     (low6 (drop_bit 6 (pack a b c))))) = (b :: byte)" (is "?l = b")
proof (rule bit_word_eqI)
  fix n assume n: "n < LENGTH(8)"
  then have "n < 8" by simp
  then show "bit ?l n = bit b n"
  proof (cases "n < 4")
    case False
    then obtain m where "n = m + 4" by (metis le_add_diff_inverse2 not_less)
    with \<open>n < 8\<close> show ?thesis by (simp add: acc_bits add.commute)
  qed (simp add: acc_bits)
qed

lemma acc_byte2:
  "ucast (shift6 (shift6 acc (low6 (drop_bit 6 (pack a b c)))) (low6 (pack a b c))) = (c :: byte)"
  (is "?l = c")
proof (rule bit_word_eqI)
  fix n assume n: "n < LENGTH(8)"
  then have "n < 8" by simp
  then show "bit ?l n = bit c n"
  proof (cases "n < 6")
    case False
    then obtain m where "n = m + 6" by (metis le_add_diff_inverse2 not_less)
    with \<open>n < 8\<close> show ?thesis by (simp add: acc_bits add.commute)
  qed (simp add: acc_bits)
qed

lemma symbol_of_low6: "symbol_of (B64 ! unat (low6 w)) = Value (low6 w)"
  by (simp add: low6_def)

lemma encode_chunk_3:
  "encode_chunk [a, b, c] = map (\<lambda>k. B64 ! unat (low6 (drop_bit k (pack a b c)))) [18, 12, 6, 0]"
  by (simp add: encode_chunk_def Let_def pack_def low6_def)

lemma encode_chunk_2:
  "encode_chunk [a, b]
     = map (\<lambda>k. B64 ! unat (low6 (drop_bit k (pack a b 0)))) [18, 12, 6] @ ''=''"
  by (simp add: encode_chunk_def Let_def pack_def low6_def)

lemma encode_chunk_1:
  "encode_chunk [a] = map (\<lambda>k. B64 ! unat (low6 (drop_bit k (pack a 0 0)))) [18, 12] @ ''==''"
  by (simp add: encode_chunk_def Let_def pack_def low6_def)

lemmas chunk_steps = step_keep [OF symbol_of_low6] step_emit [OF symbol_of_low6]
  acc_byte0 acc_byte1 acc_byte2

lemma decode_chunk3:
  "\<exists>acc'. decode_loop acc 0 out (encode_chunk [a, b, c] @ cs)
     = decode_loop acc' 0 (out @ [a, b, c]) cs"
  by (simp add: encode_chunk_3 chunk_steps del: decode_loop.simps(2)) blast

lemma decode_chunk2: "decode_loop acc 0 out (encode_chunk [a, b]) = Some (out @ [a, b])"
  by (simp add: encode_chunk_2 chunk_steps del: decode_loop.simps(2)) simp

lemma decode_chunk1: "decode_loop acc 0 out (encode_chunk [a]) = Some (out @ [a])"
  by (simp add: encode_chunk_1 chunk_steps del: decode_loop.simps(2)) simp

lemma base64_encode_Nil: "base64_encode [] = []"
  by (simp add: base64_encode_def)

lemma base64_encode_step:
  "base64_encode (a # b # c # ds) = encode_chunk [a, b, c] @ base64_encode ds"
  by (simp add: base64_encode_def chunks_step)

lemma base64_encode_short:
  "base64_encode [a] = encode_chunk [a]" "base64_encode [a, b] = encode_chunk [a, b]"
  by (simp_all add: base64_encode_def chunks_step)

fun by_threes :: "'a list \<Rightarrow> 'a list list" where
  "by_threes (a # b # c # ds) = [a, b, c] # by_threes ds"
| "by_threes ds = [ds]"

lemma decode_loop_encode: "decode_loop acc 0 out (base64_encode ds) = Some (out @ ds)"
proof (induction ds arbitrary: acc out rule: by_threes.induct)
  case (1 a b c ds)
  obtain acc' where "decode_loop acc 0 out (encode_chunk [a, b, c] @ base64_encode ds)
     = decode_loop acc' 0 (out @ [a, b, c]) (base64_encode ds)"
    using decode_chunk3 by blast
  then show ?case using 1 by (simp add: base64_encode_step)
qed (simp_all add: base64_encode_Nil base64_encode_short decode_chunk1 decode_chunk2)

interpretation base64: codec base64_encode base64_decode "\<lambda>_. True"
  by unfold_locales (simp add: base64_decode_def decode_loop_encode)

text \<open>Base64 round trip: decoding what \<open>base64_encode\<close> wrote returns the bytes.\<close>

theorem base64_roundtrip: "base64_decode (base64_encode data) = Some data"
  by (rule base64.dec_enc) simp

lemma encode_chunk_safe: "x \<in> set (encode_chunk chunk) \<Longrightarrow> pem_safe x"
  unfolding encode_chunk_def Let_def
  by (auto simp only: list.set insert_iff empty_iff B64_safe split: if_splits)
    (simp_all add: pem_safe_def)

lemma base64_encode_safe: "x \<in> set (base64_encode ds) \<Longrightarrow> pem_safe x"
  by (auto simp: base64_encode_def intro: encode_chunk_safe)

lemma length_base64_encode: "length (base64_encode ds) = 4 * ((length ds + 2) div 3)"
proof -
  have "length (concat (map encode_chunk css)) = 4 * length css" for css
    by (induction css) (simp_all add: encode_chunk_def Let_def)
  then show ?thesis by (simp add: base64_encode_def length_chunks)
qed

text \<open>Blank bytes are skipped, so a text may be wrapped anywhere.\<close>

lemma decode_loop_skips_blanks:
  "decode_loop acc bits out (filter (\<lambda>c. symbol_of c \<noteq> Continue) cs) = decode_loop acc bits out cs"
  by (induction acc bits out cs rule: decode_loop.induct) (auto split: symbol.splits simp: Let_def)

end
