(* ===== verification/Pem.thy ===== *)
theory Pem
  imports Base64
begin

text \<open>
  PEM documents (\<open>from_pem\<close>, \<open>to_pem\<close> of \<open>trust-core/src/cert.rs\<close>), with the parts of
  Rust's standard library they use: \<open>str::lines\<close> and \<open>str::trim\<close>. The scanner is the loop's
  fold over the lines with its two variables, the certificates found and the body of the
  block being read. The lemmas give the round trip, on one block and on a document of
  blocks with commentary between them.
\<close>

section \<open>Lines and trimming\<close>

text \<open>
  \<open>str::lines\<close>: split at newlines, a final newline starts no line, one carriage return
  before a newline is dropped.
\<close>

definition strip_cr :: "string \<Rightarrow> string" where
  "strip_cr l = (if l \<noteq> [] \<and> last l = CHR 0x0D then butlast l else l)"

function rust_lines :: "string \<Rightarrow> string list" where
  "rust_lines s =
     (if s = [] then []
      else case dropWhile (\<lambda>c. c \<noteq> newline) s of
             [] \<Rightarrow> [s]
           | _ # rest \<Rightarrow> strip_cr (takeWhile (\<lambda>c. c \<noteq> newline) s) # rust_lines rest)"
  by pat_completeness auto
termination
proof (relation "measure length", simp)
  fix s :: string and x rest
  assume "dropWhile (\<lambda>c. c \<noteq> newline) s = x # rest"
  then have "length (x # rest) \<le> length s" by (metis length_dropWhile_le)
  then show "(rest, s) \<in> measure length" by simp
qed

declare rust_lines.simps [simp del]

text \<open>
  \<open>str::trim\<close> drops characters with the Unicode property White_Space at both ends. Text is
  UTF-8 here, so these are the encodings of those characters.
\<close>

definition white_space :: "string list" where
  "white_space =
     map (\<lambda>n. [char_of n]) [9, 10, 11, 12, 13, 32 :: nat] @
     [[CHR 0xC2, CHR 0x85], [CHR 0xC2, CHR 0xA0], [CHR 0xE1, CHR 0x9A, CHR 0x80]] @
     map (\<lambda>n. [CHR 0xE2, CHR 0x80, char_of n])
       [128, 129, 130, 131, 132, 133, 134, 135, 136, 137, 138, 168, 169, 175 :: nat] @
     [[CHR 0xE2, CHR 0x81, CHR 0x9F], [CHR 0xE3, CHR 0x80, CHR 0x80]]"

text \<open>Drop one of the given nonempty prefixes while there is one.\<close>

function drop_any :: "'a list list \<Rightarrow> 'a list \<Rightarrow> 'a list" where
  "drop_any ps s =
     (case find (\<lambda>p. p \<noteq> [] \<and> take (length p) s = p) ps of
        None \<Rightarrow> s
      | Some p \<Rightarrow> drop_any ps (drop (length p) s))"
  by pat_completeness auto
termination
proof (relation "measure (\<lambda>(ps, s). length s)", simp)
  fix ps and s p :: "'a list"
  assume "find (\<lambda>p. p \<noteq> [] \<and> take (length p) s = p) ps = Some p"
  then have "p \<noteq> []" and "take (length p) s = p" by (auto simp: find_Some_iff)
  then have "0 < length p" and "s \<noteq> []" by auto
  then show "((ps, drop (length p) s), (ps, s)) \<in> measure (\<lambda>(ps, s). length s)" by simp
qed

declare drop_any.simps [simp del]

definition trim :: "string \<Rightarrow> string" where
  "trim s = rev (drop_any (map rev white_space) (rev (drop_any white_space s)))"

section \<open>Reading and writing PEM\<close>

definition PEM_BEGIN :: string where
  "PEM_BEGIN = ''-----BEGIN CERTIFICATE-----''"

definition PEM_END :: string where
  "PEM_END = ''-----END CERTIFICATE-----''"

type_synonym scan = "bytes list \<times> string option"

fun pem_line :: "scan \<Rightarrow> string \<Rightarrow> scan" where
  "pem_line (out, body) line0 =
     (let line = trim line0
      in if line = PEM_BEGIN then (out, Some [])
         else if line = PEM_END then
           (case body of
              None \<Rightarrow> (out, None)
            | Some b \<Rightarrow>
                (case base64_decode b of
                   None \<Rightarrow> (out, None)
                 | Some der \<Rightarrow> (out @ [der], None)))
         else (out, map_option (\<lambda>b. b @ line) body))"

definition from_pem :: "string \<Rightarrow> bytes list" where
  "from_pem text = fst (foldl pem_line ([], None) (rust_lines text))"

definition to_pem :: "bytes \<Rightarrow> string" where
  "to_pem der =
     PEM_BEGIN @ [newline] @
     concat (map (\<lambda>chunk. chunk @ [newline]) (chunks 64 (base64_encode der))) @
     PEM_END @ [newline]"

section \<open>Lines\<close>

lemma rust_lines_Nil [simp]: "rust_lines [] = []"
  by (simp add: rust_lines.simps)

lemma rust_lines_line:
  assumes "newline \<notin> set l"
  shows "rust_lines (l @ newline # s) = strip_cr l # rust_lines s"
proof -
  have "\<forall>x \<in> set l. x \<noteq> newline" using assms by auto
  then show ?thesis
    using takeWhile_append_stop [of l "\<lambda>c. c \<noteq> newline" newline s]
      dropWhile_append_stop [of l "\<lambda>c. c \<noteq> newline" newline s]
    by (simp add: rust_lines.simps [of "l @ newline # s"])
qed

lemma rust_lines_last: "l \<noteq> [] \<Longrightarrow> newline \<notin> set l \<Longrightarrow> rust_lines l = [l]"
proof -
  assume l: "l \<noteq> []" "newline \<notin> set l"
  then have d: "dropWhile (\<lambda>c. c \<noteq> newline) l = []" by (auto simp: dropWhile_eq_Nil_conv)
  show ?thesis unfolding rust_lines.simps [of l] d using l(1) by simp
qed

text \<open>A text that is empty or ends in a newline is whole lines: what follows starts a line.\<close>

definition whole_lines :: "string \<Rightarrow> bool" where
  "whole_lines s \<longleftrightarrow> s = [] \<or> last s = newline"

lemma whole_lines_induct [consumes 1, case_names Nil Line]:
  assumes "whole_lines s" and "P []"
    and "\<And>l s. newline \<notin> set l \<Longrightarrow> whole_lines s \<Longrightarrow> P s \<Longrightarrow> P (l @ newline # s)"
  shows "P s"
  using assms(1)
proof (induction s rule: length_induct)
  case (1 s)
  show ?case
  proof (cases "newline \<in> set s")
    case True
    then obtain l r where s: "s = l @ newline # r" and l: "newline \<notin> set l"
      by (meson split_list_first)
    have r: "whole_lines r"
      using "1.prems" unfolding s whole_lines_def by (cases "r = []") simp_all
    have "P r" using "1.IH" r unfolding s by simp
    then show ?thesis unfolding s by (rule assms(3) [OF l r])
  next
    case False
    then have "s = []" using "1.prems" by (metis last_in_set whole_lines_def)
    then show ?thesis using assms(2) by simp
  qed
qed

lemma rust_lines_append: "whole_lines s \<Longrightarrow> rust_lines (s @ t) = rust_lines s @ rust_lines t"
  by (induction rule: whole_lines_induct) (simp_all add: rust_lines_line)

lemma whole_lines_append [simp]: "whole_lines s \<Longrightarrow> whole_lines t \<Longrightarrow> whole_lines (s @ t)"
  by (auto simp: whole_lines_def last_append)

lemma whole_lines_newline [simp]: "whole_lines (s @ [newline])"
  by (simp add: whole_lines_def)

section \<open>Trimming a line without blanks at its ends\<close>

definition solid :: "char \<Rightarrow> bool" where
  "solid c \<longleftrightarrow> 33 \<le> ord c \<and> ord c < 127"

lemma white_space_ends:
  "list_all (\<lambda>w. w \<noteq> [] \<and> \<not> solid (hd w) \<and> \<not> solid (last w)) white_space"
  by code_simp

lemma drop_any_id:
  assumes "\<And>p. p \<in> set ps \<Longrightarrow> p \<noteq> [] \<Longrightarrow> s \<noteq> [] \<Longrightarrow> hd p \<noteq> hd s"
  shows "drop_any ps s = s"
proof -
  have "find (\<lambda>p. p \<noteq> [] \<and> take (length p) s = p) ps = None"
  proof (rule ccontr)
    assume "find (\<lambda>p. p \<noteq> [] \<and> take (length p) s = p) ps \<noteq> None"
    then obtain p where p: "p \<in> set ps" "p \<noteq> []" "take (length p) s = p"
      by (auto simp: find_None_iff)
    then have "s \<noteq> []" by auto
    moreover have "hd p = hd s" using p(2,3) by (metis hd_take length_greater_0_conv)
    ultimately show False using assms p by blast
  qed
  then show ?thesis by (simp add: drop_any.simps)
qed

lemma trim_solid:
  assumes "s \<noteq> [] \<Longrightarrow> solid (hd s) \<and> solid (last s)"
  shows "trim s = s"
proof -
  have "drop_any white_space s = s"
    using white_space_ends assms by (intro drop_any_id) (auto simp: list_all_iff)
  moreover have "drop_any (map rev white_space) (rev s) = rev s"
    using white_space_ends assms
    by (intro drop_any_id) (auto simp: list_all_iff hd_rev)
  ultimately show ?thesis by (simp add: trim_def)
qed

lemma strip_cr_solid: "(s \<noteq> [] \<Longrightarrow> solid (last s)) \<Longrightarrow> strip_cr s = s"
  by (auto simp: strip_cr_def solid_def)

lemma B64_solid: "list_all (\<lambda>c. solid c \<and> c \<noteq> CHR ''-'') (CHR ''='' # B64)"
  by code_simp

lemma pem_safe_solid: "pem_safe c \<Longrightarrow> solid c"
  using B64_solid by (auto simp: pem_safe_def list_all_iff)

lemma pem_safe_not_dash: "pem_safe c \<Longrightarrow> c \<noteq> CHR ''-''"
  using B64_solid by (auto simp: pem_safe_def list_all_iff)

lemma solid_not_newline: "solid c \<Longrightarrow> c \<noteq> newline"
  by (auto simp: solid_def)

lemma marker_facts:
  "trim PEM_BEGIN = PEM_BEGIN" "trim PEM_END = PEM_END"
  "strip_cr PEM_BEGIN = PEM_BEGIN" "strip_cr PEM_END = PEM_END"
  "newline \<notin> set PEM_BEGIN" "newline \<notin> set PEM_END" "PEM_BEGIN \<noteq> PEM_END"
  "PEM_BEGIN \<noteq> []" "PEM_END \<noteq> []" "hd PEM_BEGIN = CHR ''-''" "hd PEM_END = CHR ''-''"
  by (simp_all add: PEM_BEGIN_def PEM_END_def strip_cr_def trim_solid solid_def)

section \<open>Scanning whole lines\<close>

definition pem_scan :: "scan \<Rightarrow> string \<Rightarrow> scan" where
  "pem_scan st text = foldl pem_line st (rust_lines text)"

lemma from_pem_scan: "from_pem text = fst (pem_scan ([], None) text)"
  by (simp add: from_pem_def pem_scan_def)

lemma pem_scan_Nil [simp]: "pem_scan st [] = st"
  by (simp add: pem_scan_def)

lemma pem_scan_append: "whole_lines s \<Longrightarrow> pem_scan st (s @ t) = pem_scan (pem_scan st s) t"
  by (simp add: pem_scan_def rust_lines_append)

lemma pem_scan_line:
  "newline \<notin> set l \<Longrightarrow> pem_scan st (l @ newline # s) = pem_scan (pem_line st (strip_cr l)) s"
  by (simp add: pem_scan_def rust_lines_line)

lemma pem_scan_body_line:
  assumes "\<forall>c \<in> set l. pem_safe c" and "l \<noteq> []"
  shows "pem_scan (out, Some b) (l @ newline # s) = pem_scan (out, Some (b @ l)) s"
proof -
  have ends: "solid (hd l)" "solid (last l)" "hd l \<noteq> CHR ''-''"
    using assms pem_safe_solid pem_safe_not_dash by auto
  have "newline \<notin> set l" using assms pem_safe_solid solid_not_newline by blast
  moreover have "l \<noteq> PEM_BEGIN" "l \<noteq> PEM_END" using ends marker_facts by auto
  ultimately show ?thesis
    using ends by (simp add: pem_scan_line strip_cr_solid trim_solid)
qed

lemma pem_scan_body:
  assumes "\<forall>l \<in> set ls. l \<noteq> [] \<and> (\<forall>c \<in> set l. pem_safe c)"
  shows "pem_scan (out, Some b) (concat (map (\<lambda>l. l @ [newline]) ls) @ s)
    = pem_scan (out, Some (b @ concat ls)) s"
  using assms by (induction ls arbitrary: b) (simp_all add: pem_scan_body_line)

lemma whole_lines_to_pem [simp]: "whole_lines (to_pem der)"
  by (simp add: to_pem_def whole_lines_def)

text \<open>A block adds its certificate, whatever came before it.\<close>

lemma pem_scan_to_pem_append:
  "pem_scan (out, body) (to_pem der @ s) = pem_scan (out @ [der], None) s"
proof -
  let ?ls = "chunks 64 (base64_encode der)"
  have ls: "\<forall>l \<in> set ?ls. l \<noteq> [] \<and> (\<forall>c \<in> set l. pem_safe c)"
    using chunks_bounds base64_encode_safe by (metis subset_iff)
  have "pem_scan (out, body) (to_pem der @ s)
      = pem_scan (out, Some []) (concat (map (\<lambda>l. l @ [newline]) ?ls) @ PEM_END @ newline # s)"
    by (simp add: to_pem_def pem_scan_line marker_facts)
  also have "\<dots> = pem_scan (out, Some (base64_encode der)) (PEM_END @ newline # s)"
    by (simp add: pem_scan_body [OF ls])
  also have "\<dots> = pem_scan (out @ [der], None) s"
    by (simp add: pem_scan_line marker_facts marker_facts(7) [symmetric] base64_decode_def
        decode_loop_encode)
  finally show ?thesis .
qed

text \<open>
  Commentary: whole lines none of which is a marker once trimmed. Outside a block it is
  ignored.
\<close>

definition commentary :: "string \<Rightarrow> bool" where
  "commentary s \<longleftrightarrow>
     whole_lines s \<and> list_all (\<lambda>l. trim l \<noteq> PEM_BEGIN \<and> trim l \<noteq> PEM_END) (rust_lines s)"

lemma pem_scan_commentary: "commentary s \<Longrightarrow> pem_scan (out, None) (s @ t) = pem_scan (out, None) t"
proof -
  assume c: "commentary s"
  have "list_all (\<lambda>l. trim l \<noteq> PEM_BEGIN \<and> trim l \<noteq> PEM_END) ls
      \<Longrightarrow> foldl pem_line (out, None) ls = (out, None)" for ls
    by (induction ls) simp_all
  then have "pem_scan (out, None) s = (out, None)"
    using c by (simp add: commentary_def pem_scan_def)
  then show ?thesis using c by (simp add: commentary_def pem_scan_append)
qed

lemma commentary_Nil [simp]: "commentary []"
  by (simp add: commentary_def whole_lines_def)

lemma commentary_append: "commentary s \<Longrightarrow> commentary t \<Longrightarrow> commentary (s @ t)"
  by (simp add: commentary_def rust_lines_append)

lemma commentary_line:
  assumes "newline \<notin> set l" and "trim (strip_cr l) \<noteq> PEM_BEGIN" and "trim (strip_cr l) \<noteq> PEM_END"
  shows "commentary (l @ [newline])"
  using assms by (simp add: commentary_def rust_lines_line)

section \<open>Properties\<close>

text \<open>
  PEM round trip: a certificate written as a block by \<open>to_pem\<close> reads back through
  \<open>from_pem\<close> as exactly that one certificate.
\<close>

theorem pem_roundtrip: "from_pem (to_pem der) = [der]"
  using pem_scan_to_pem_append [of "[]" None der "[]"] by (simp add: from_pem_scan)

text \<open>A document of blocks, each after commentary of its own, yields every certificate in order.\<close>

lemma pem_scan_document:
  assumes "\<forall>(c, der) \<in> set parts. commentary c" and "commentary end"
  shows "pem_scan (out, None) (concat (map (\<lambda>(c, der). c @ to_pem der) parts) @ end)
    = (out @ map snd parts, None)"
  using assms(1)
proof (induction parts arbitrary: out)
  case Nil
  then show ?case using pem_scan_commentary [OF assms(2), of out "[]"] by simp
next
  case (Cons p parts)
  obtain c der where p: "p = (c, der)" by fastforce
  with Cons show ?case by (simp add: pem_scan_commentary pem_scan_to_pem_append)
qed

lemma from_pem_blocks: "from_pem (concat (map to_pem ders)) = ders"
proof -
  have "concat (map (\<lambda>(c, der). c @ to_pem der) (map (Pair []) ders)) = concat (map to_pem ders)"
    by (simp add: comp_def)
  moreover have "map snd (map (Pair []) ders) = ders" by (simp add: comp_def)
  ultimately show ?thesis
    using pem_scan_document [of "map (Pair []) ders" "[]" "[]"] by (simp add: from_pem_scan comp_def)
qed

text \<open>
  A bundle with commentary between its blocks, as the shipped one and the rendered one
  have, yields exactly the certificates written into it, in order.
\<close>

theorem from_pem_document:
  assumes "\<forall>(c, der) \<in> set parts. commentary c" and "commentary end"
  shows "from_pem (concat (map (\<lambda>(c, der). c @ to_pem der) parts) @ end) = map snd parts"
  using pem_scan_document [OF assms, of "[]"] by (simp add: from_pem_scan)

theorem from_pem_document_witness:
  "from_pem (concat (map (\<lambda>(c, der). c @ to_pem der)
      [(''# a header'' @ [newline], [0x30, 0]), ([], [1, 2, 3, 4])]) @ ''# end'' @ [newline])
    = [[0x30, 0], [1, 2, 3, 4]]"
proof -
  have h: "commentary (''# a header'' @ [newline])" "commentary (''# end'' @ [newline])"
    by (rule commentary_line; simp add: strip_cr_def trim_solid solid_def PEM_BEGIN_def PEM_END_def)+
  show ?thesis
    using from_pem_document [of "[(''# a header'' @ [newline], [0x30, 0]), ([], [1, 2, 3, 4])]"
        "''# end'' @ [newline]"] h by simp
qed

end
