(* ===== verification/Cert.thy ===== *)
theory Cert
  imports Der Pem
begin

text \<open>
  Certificates (\<open>trust-core/src/cert.rs\<close>): vetting (\<open>parse\<close>, \<open>is_ca\<close>, \<open>fingerprint\<close>) and the
  description a person reads (\<open>describe\<close>, \<open>attribute_text\<close>, \<open>key_words\<close>, \<open>rsa_bits\<close>).

  The X.509 parser and the digests are crates outside this repository, so they are the
  record \<open>lib\<close>, an argument of every definition that uses them. \<open>certificate\<close> holds the fields of a
  decoded certificate that the code reads, as the code reads them (an object identifier as
  its \<open>to_string()\<close>, a time as its \<open>as_secs()\<close>).
\<close>

unbundle bit_operations_syntax

section \<open>What the code reads of a certificate\<close>

datatype asn1_tag = Utf8String | PrintableString | Ia5String | TeletexString | BmpString | OtherTag

record any =
  any_tag :: asn1_tag
  any_value :: bytes

record certificate =
  cert_extensions :: "(string \<times> bytes) list option"
  cert_not_before :: u64
  cert_not_after :: u64
  cert_subject :: string
  cert_subject_der :: "string + bytes"
  cert_subject_rdns :: "(string \<times> any) list list"
  cert_issuer :: string
  cert_serial :: bytes
  cert_key_oid :: string
  cert_key_parameters :: "string option"
  cert_key_bytes :: "bytes option"

text \<open>
  The functions of other crates: \<open>Certificate::from_der\<close>, \<open>BasicConstraints::from_der\<close> (its
  \<open>ca\<close>), the digests, \<open>decode_as\<close> of a string type, the modulus of an \<open>RSAPublicKey\<close>, and the
  text of a \<open>der::Error\<close>.
\<close>

record lib =
  from_der :: "bytes \<Rightarrow> string + certificate"
  basic_constraints :: "bytes \<Rightarrow> bool option"
  sha1 :: "bytes \<Rightarrow> bytes"
  sha256 :: "bytes \<Rightarrow> bytes"
  decode_as :: "asn1_tag \<Rightarrow> bytes \<Rightarrow> string option"
  rsa_modulus :: "bytes \<Rightarrow> bytes option"
  der_error_text :: "der_error \<Rightarrow> string"

section \<open>Vetting\<close>

datatype cert_error = Malformed string | NotACa | Expired | NoCertificate

fun cert_error_text :: "cert_error \<Rightarrow> string" where
  "cert_error_text (Malformed why) = ''not a certificate: '' @ why"
| "cert_error_text NotACa = ''not a CA certificate (no basicConstraints cA)''"
| "cert_error_text Expired = ''expired''"
| "cert_error_text NoCertificate = ''no CERTIFICATE block''"

record parsed =
  der :: bytes
  fingerprint :: string
  subject :: string
  not_after :: int
  subject_hash_text :: string

text \<open>A \<open>u64\<close> of seconds cast to \<open>i64\<close>.\<close>

definition as_i64 :: "u64 \<Rightarrow> int" where
  "as_i64 w = sint w"

definition fingerprint_of :: "lib \<Rightarrow> bytes \<Rightarrow> string" where
  "fingerprint_of L bs = concat (map hex_byte (sha256 L bs))"

fun is_ca_in :: "lib \<Rightarrow> (string \<times> bytes) list \<Rightarrow> bool" where
  "is_ca_in L [] = False"
| "is_ca_in L ((extn_id, bytes) # extensions) =
     (if extn_id \<noteq> ''2.5.29.19'' then is_ca_in L extensions
      else case basic_constraints L bytes of Some ca \<Rightarrow> ca | None \<Rightarrow> False)"

definition is_ca :: "lib \<Rightarrow> certificate \<Rightarrow> bool" where
  "is_ca L certificate =
     (case cert_extensions certificate of None \<Rightarrow> False | Some extensions \<Rightarrow> is_ca_in L extensions)"

definition parse :: "lib \<Rightarrow> bytes \<Rightarrow> int option \<Rightarrow> cert_error + parsed" where
  "parse L bs now =
     bindE (map_err Malformed (from_der L bs)) (\<lambda>certificate.
     if \<not> is_ca L certificate then Inl NotACa
     else let na = as_i64 (cert_not_after certificate)
          in if (case now of Some t \<Rightarrow> na \<le> t | None \<Rightarrow> False) then Inl Expired
             else bindE (map_err Malformed (cert_subject_der certificate)) (\<lambda>subject_der.
                  bindE (map_err (\<lambda>e. Malformed (der_error_text L e)) (subject_hash (sha1 L) subject_der))
                    (\<lambda>hash. Inr \<lparr>der = bs, fingerprint = fingerprint_of L bs,
                       subject = cert_subject certificate, not_after = na,
                       subject_hash_text = hash\<rparr>)))"

section \<open>Describing\<close>

record details =
  common_name :: "string option"
  organisation :: "string option"
  unit_name :: "string option"
  country :: "string option"
  d_subject :: string
  d_issuer :: string
  d_serial :: string
  d_not_before :: int
  d_not_after :: int
  d_key :: string
  d_ca :: bool

definition details_name :: "details \<Rightarrow> string" where
  "details_name d =
     (case common_name d of Some n \<Rightarrow> n
      | None \<Rightarrow> (case organisation d of Some n \<Rightarrow> n
      | None \<Rightarrow> (case unit_name d of Some n \<Rightarrow> n | None \<Rightarrow> d_subject d)))"

text \<open>\<open>String::from_utf16\<close>: the scalar values, then their UTF-8.\<close>

fun utf16_scalars :: "nat list \<Rightarrow> nat list option" where
  "utf16_scalars [] = Some []"
| "utf16_scalars (u # us) =
     (if u < 0xD800 \<or> 0xDFFF < u then map_option ((#) u) (utf16_scalars us)
      else if 0xDBFF < u then None
      else case us of
             [] \<Rightarrow> None
           | l # us' \<Rightarrow>
               if 0xDC00 \<le> l \<and> l \<le> 0xDFFF
               then map_option ((#) (0x10000 + (u - 0xD800) * 0x400 + (l - 0xDC00))) (utf16_scalars us')
               else None)"

definition utf8_encode :: "nat \<Rightarrow> string" where
  "utf8_encode n =
     map char_of
       (if n < 0x80 then [n]
        else if n < 0x800 then [0xC0 + n div 0x40, 0x80 + n mod 0x40]
        else if n < 0x10000 then [0xE0 + n div 0x1000, 0x80 + n div 0x40 mod 0x40, 0x80 + n mod 0x40]
        else [0xF0 + n div 0x40000, 0x80 + n div 0x1000 mod 0x40, 0x80 + n div 0x40 mod 0x40,
              0x80 + n mod 0x40])"

definition from_utf16 :: "nat list \<Rightarrow> string option" where
  "from_utf16 units = map_option (\<lambda>ns. concat (map utf8_encode ns)) (utf16_scalars units)"

text \<open>\<open>as_chunks::<2>().0\<close> read as big-endian \<open>u16\<close>: whole pairs only, an odd last byte is left out.\<close>

fun be_units :: "bytes \<Rightarrow> nat list" where
  "be_units (a # b # bs) = be_val [a, b] # be_units bs"
| "be_units _ = []"

definition attribute_text :: "lib \<Rightarrow> any \<Rightarrow> string option" where
  "attribute_text L v =
     Option.bind
       (case any_tag v of
          BmpString \<Rightarrow> from_utf16 (be_units (any_value v))
        | OtherTag \<Rightarrow> None
        | t \<Rightarrow> decode_as L t (any_value v))
       (\<lambda>text. let text = trim text in if text = [] then None else Some text)"

definition leading_bits :: "nat list" where
  "leading_bits = [7, 6, 5, 4, 3, 2, 1, 0]"

definition leading_zeros :: "byte \<Rightarrow> nat" where
  "leading_zeros b = length (takeWhile (\<lambda>i. \<not> bit b i) leading_bits)"

definition rsa_bits :: "lib \<Rightarrow> bytes \<Rightarrow> nat option" where
  "rsa_bits L key =
     Option.bind (rsa_modulus L key) (\<lambda>modulus.
     Option.bind (get_at modulus 0) (\<lambda>first.
       Some (length modulus * 8 - leading_zeros first)))"

definition key_words :: "lib \<Rightarrow> certificate \<Rightarrow> string" where
  "key_words L c =
     (let oid = cert_key_oid c
      in if oid = ''1.2.840.113549.1.1.1'' then
           (case Option.bind (cert_key_bytes c) (rsa_bits L) of
              Some bits \<Rightarrow> ''RSA '' @ dec_str bits @ ''-bit''
            | None \<Rightarrow> ''RSA'')
         else if oid = ''1.2.840.10045.2.1'' then
           (if cert_key_parameters c = Some ''1.2.840.10045.3.1.7'' then ''ECDSA P-256''
            else if cert_key_parameters c = Some ''1.3.132.0.34'' then ''ECDSA P-384''
            else if cert_key_parameters c = Some ''1.3.132.0.35'' then ''ECDSA P-521''
            else ''ECDSA'')
         else if oid = ''1.3.101.112'' then ''Ed25519''
         else if oid = ''1.3.101.113'' then ''Ed448''
         else oid)"

text \<open>\<open>format!("{b:02X}")\<close> joined by colons, without the sign byte DER pads a serial with.\<close>

definition hex_byte_upper :: "byte \<Rightarrow> string" where
  "hex_byte_upper b =
     map (\<lambda>n. ''0123456789ABCDEF'' ! n) [unat b div 16, unat b mod 16]"

fun join_colon :: "string list \<Rightarrow> string" where
  "join_colon [] = []"
| "join_colon [x] = x"
| "join_colon (x # xs) = x @ CHR '':'' # join_colon xs"

definition serial_text :: "bytes \<Rightarrow> string" where
  "serial_text bytes =
     join_colon (map hex_byte_upper
       (case bytes of
          b # rest \<Rightarrow> if b = 0 \<and> rest \<noteq> [] then rest else bytes
        | [] \<Rightarrow> bytes))"

text \<open>One attribute of the subject: it fills its slot unless the slot is taken.\<close>

definition fill_slot :: "lib \<Rightarrow> details \<Rightarrow> string \<times> any \<Rightarrow> details" where
  "fill_slot L d atv =
     (let (oid, v) = atv
      in if oid = ''2.5.4.3'' then
           (if common_name d = None then d\<lparr>common_name := attribute_text L v\<rparr> else d)
         else if oid = ''2.5.4.10'' then
           (if organisation d = None then d\<lparr>organisation := attribute_text L v\<rparr> else d)
         else if oid = ''2.5.4.11'' then
           (if unit_name d = None then d\<lparr>unit_name := attribute_text L v\<rparr> else d)
         else if oid = ''2.5.4.6'' then
           (if country d = None then d\<lparr>country := attribute_text L v\<rparr> else d)
         else d)"

definition describe :: "lib \<Rightarrow> bytes \<Rightarrow> cert_error + details" where
  "describe L bs =
     bindE (map_err Malformed (from_der L bs)) (\<lambda>c.
       let d = \<lparr>common_name = None, organisation = None, unit_name = None, country = None,
                d_subject = cert_subject c, d_issuer = cert_issuer c,
                d_serial = serial_text (cert_serial c),
                d_not_before = as_i64 (cert_not_before c), d_not_after = as_i64 (cert_not_after c),
                d_key = key_words L c, d_ca = is_ca L c\<rparr>
       in Inr (foldl (\<lambda>d rdn. foldl (fill_slot L) d rdn) d (cert_subject_rdns c)))"

section \<open>Vetting: properties\<close>

lemma is_ca_in_find:
  "is_ca_in L extensions \<longleftrightarrow>
     (\<exists>b. find (\<lambda>(i, _). i = ''2.5.29.19'') extensions = Some (''2.5.29.19'', b) \<and>
        basic_constraints L b = Some True)"
  by (induction L extensions rule: is_ca_in.induct) (auto split: option.splits)

lemma parse_Inr_iff [conv]:
  "parse L bs now = Inr p \<longleftrightarrow>
     (\<exists>c subject_der hash.
        from_der L bs = Inr c \<and> is_ca L c \<and>
        (\<forall>t. now = Some t \<longrightarrow> t < as_i64 (cert_not_after c)) \<and>
        cert_subject_der c = Inr subject_der \<and> subject_hash (sha1 L) subject_der = Inr hash \<and>
        p = \<lparr>der = bs, fingerprint = fingerprint_of L bs, subject = cert_subject c,
             not_after = as_i64 (cert_not_after c), subject_hash_text = hash\<rparr>)"
  by (auto simp: parse_def conv Let_def split: option.splits)

lemma is_ca_iff:
  "is_ca L c \<longleftrightarrow>
     (\<exists>extensions b. cert_extensions c = Some extensions \<and>
        find (\<lambda>(i, _). i = ''2.5.29.19'') extensions = Some (''2.5.29.19'', b) \<and>
        basic_constraints L b = Some True)"
  by (auto simp: is_ca_def is_ca_in_find split: option.splits)

lemma parse_with_clock: "parse L bs now = Inr p \<Longrightarrow> parse L bs None = Inr p"
  by (auto simp: parse_Inr_iff)

lemma parse_fields:
  assumes "parse L bs now = Inr p"
  shows "der p = bs" and "fingerprint p = fingerprint_of L bs"
  using assms by (auto simp: parse_Inr_iff)

lemma fingerprint_of_hex: "c \<in> set (fingerprint_of L bs) \<Longrightarrow> is_ascii_hexdigit c \<and> to_ascii_lower c = c"
  by (auto simp: fingerprint_of_def hex_byte_def)

lemma length_fingerprint_of: "length (fingerprint_of L bs) = 2 * length (sha256 L bs)"
proof -
  have "length (concat (map hex_byte ds)) = 2 * length ds" for ds
    by (induction ds) auto
  then show ?thesis by (simp add: fingerprint_of_def)
qed

section \<open>Describing: properties\<close>

fun first_some :: "'a option list \<Rightarrow> 'a option" where
  "first_some [] = None"
| "first_some (None # xs) = first_some xs"
| "first_some (Some a # xs) = Some a"

definition attribute :: "lib \<Rightarrow> string \<Rightarrow> certificate \<Rightarrow> string option" where
  "attribute L oid c =
     first_some (map (\<lambda>(i, v). if i = oid then attribute_text L v else None)
       (concat (cert_subject_rdns c)))"

lemma foldl_foldl: "foldl (\<lambda>d xs. foldl f d xs) d xss = foldl f d (concat xss)"
  by (induction xss arbitrary: d) auto

lemma fill_slot_slots:
  "common_name (fill_slot L d (i, v)) =
     (if i = ''2.5.4.3'' \<and> common_name d = None then attribute_text L v else common_name d)"
  "organisation (fill_slot L d (i, v)) =
     (if i = ''2.5.4.10'' \<and> organisation d = None then attribute_text L v else organisation d)"
  "unit_name (fill_slot L d (i, v)) =
     (if i = ''2.5.4.11'' \<and> unit_name d = None then attribute_text L v else unit_name d)"
  "country (fill_slot L d (i, v)) =
     (if i = ''2.5.4.6'' \<and> country d = None then attribute_text L v else country d)"
  by (simp_all add: fill_slot_def)

lemma fill_common_name:
  "common_name (foldl (fill_slot L) d atvs) = (case common_name d of Some n \<Rightarrow> Some n | None \<Rightarrow>
     first_some (map (\<lambda>(i, v). if i = ''2.5.4.3'' then attribute_text L v else None) atvs))"
proof (induction atvs arbitrary: d)
  case (Cons a atvs)
  obtain i v where a: "a = (i, v)" by (cases a)
  show ?case
    by (cases "attribute_text L v") (simp_all add: a Cons.IH fill_slot_slots split: option.split)
qed (simp split: option.split)

lemma fill_organisation:
  "organisation (foldl (fill_slot L) d atvs) = (case organisation d of Some n \<Rightarrow> Some n | None \<Rightarrow>
     first_some (map (\<lambda>(i, v). if i = ''2.5.4.10'' then attribute_text L v else None) atvs))"
proof (induction atvs arbitrary: d)
  case (Cons a atvs)
  obtain i v where a: "a = (i, v)" by (cases a)
  show ?case
    by (cases "attribute_text L v") (simp_all add: a Cons.IH fill_slot_slots split: option.split)
qed (simp split: option.split)

lemma fill_unit_name:
  "unit_name (foldl (fill_slot L) d atvs) = (case unit_name d of Some n \<Rightarrow> Some n | None \<Rightarrow>
     first_some (map (\<lambda>(i, v). if i = ''2.5.4.11'' then attribute_text L v else None) atvs))"
proof (induction atvs arbitrary: d)
  case (Cons a atvs)
  obtain i v where a: "a = (i, v)" by (cases a)
  show ?case
    by (cases "attribute_text L v") (simp_all add: a Cons.IH fill_slot_slots split: option.split)
qed (simp split: option.split)

lemma fill_country:
  "country (foldl (fill_slot L) d atvs) = (case country d of Some n \<Rightarrow> Some n | None \<Rightarrow>
     first_some (map (\<lambda>(i, v). if i = ''2.5.4.6'' then attribute_text L v else None) atvs))"
proof (induction atvs arbitrary: d)
  case (Cons a atvs)
  obtain i v where a: "a = (i, v)" by (cases a)
  show ?case
    by (cases "attribute_text L v") (simp_all add: a Cons.IH fill_slot_slots split: option.split)
qed (simp split: option.split)

lemmas fill_slots = fill_common_name fill_organisation fill_unit_name fill_country

lemma fill_slot_frame [frame]:
  "d_subject (fill_slot L d a) = d_subject d" "d_ca (fill_slot L d a) = d_ca d"
  by (simp_all add: fill_slot_def split: prod.split)

lemma fill_slots_frame [frame]:
  "d_subject (foldl (fill_slot L) d atvs) = d_subject d"
  "d_ca (foldl (fill_slot L) d atvs) = d_ca d"
  by (induction atvs arbitrary: d) (simp_all add: fill_slot_frame)

text \<open>The size of a key is the position of the modulus's highest bit.\<close>

lemma bit_unat_le: "bit (b :: byte) i \<Longrightarrow> 2 ^ i \<le> unat b"
proof -
  assume "bit b i"
  then have "bit (unat b) i" by (simp add: bit_unsigned_iff)
  then have "unat b div 2 ^ i \<noteq> 0" by (metis bit_iff_odd even_zero)
  then show ?thesis by (simp add: div_eq_0_iff)
qed

lemma no_bits_unat_less:
  assumes none: "\<And>j. i \<le> j \<Longrightarrow> j < 8 \<Longrightarrow> \<not> bit (b :: byte) j"
  shows "unat b < 2 ^ i"
proof -
  have "take_bit i b = b"
  proof (rule bit_word_eqI)
    fix n
    assume n: "n < LENGTH(8)"
    show "bit (take_bit i b) n = bit b n"
      using none [of n] n by (cases "n < i") (auto simp: bit_take_bit_iff)
  qed
  then have "unat b = take_bit i (unat b)" by (metis unsigned_take_bit_eq)
  then show ?thesis by (metis take_bit_nat_less_exp)
qed

lemma nth_leading_bits:
  assumes "k < 8"
  shows "leading_bits ! k = 7 - k"
proof -
  have "k \<in> {0, 1, 2, 3, 4, 5, 6, 7}" using assms by auto
  then show ?thesis by (auto simp: leading_bits_def)
qed

lemma length_leading_bits: "length leading_bits = 8"
  by (simp add: leading_bits_def)

lemma mem_leading_bits:
  assumes "j < 8"
  shows "j \<in> set leading_bits"
proof -
  have "j \<in> {0, 1, 2, 3, 4, 5, 6, 7}" using assms by auto
  then show ?thesis by (auto simp: leading_bits_def)
qed

lemma leading_zeros_hit:
  assumes "b \<noteq> 0"
  shows "leading_zeros b < 8" and "bit b (7 - leading_zeros b)"
proof -
  have "\<exists>i \<in> set leading_bits. bit b i"
  proof (rule ccontr)
    assume none: "\<not> ?thesis"
    have "\<not> bit b j" if "j < 8" for j
      using none mem_leading_bits [OF that] by blast
    then have "unat b < 2 ^ 0" by (intro no_bits_unat_less) auto
    then show False using assms by (simp add: unat_eq_zero)
  qed
  then show lz: "leading_zeros b < 8"
    using length_takeWhile_less [of leading_bits "\<lambda>i. \<not> bit b i"] length_leading_bits
    by (simp add: leading_zeros_def)
  show "bit b (7 - leading_zeros b)"
    using nth_length_takeWhile [of "\<lambda>i. \<not> bit b i" leading_bits] lz
      nth_leading_bits [OF lz] length_leading_bits
    by (simp add: leading_zeros_def)
qed

lemma leading_zeros_miss:
  assumes "8 - leading_zeros b \<le> j" and "j < 8"
  shows "\<not> bit b j"
proof -
  define xs where "xs = takeWhile (\<lambda>i. \<not> bit b i) leading_bits"
  have k: "7 - j < length xs"
    using assms by (simp add: leading_zeros_def xs_def)
  then have "xs ! (7 - j) = leading_bits ! (7 - j)"
    unfolding xs_def by (rule takeWhile_nth)
  moreover have "leading_bits ! (7 - j) = j" using nth_leading_bits [of "7 - j"] assms(2) by simp
  ultimately have "j \<in> set xs" using nth_mem [OF k] by simp
  then show ?thesis unfolding xs_def by (auto dest: set_takeWhileD)
qed

lemma leading_zeros_bounds:
  assumes "b \<noteq> 0"
  shows "leading_zeros b < 8" and "2 ^ (7 - leading_zeros b) \<le> unat b"
    and "unat b < 2 ^ (8 - leading_zeros b)"
  using leading_zeros_hit [OF assms]
  by (auto intro: bit_unat_le no_bits_unat_less dest: leading_zeros_miss)

section \<open>A concrete library\<close>

text \<open>
  One decodable certificate, for the witnesses: a CA whose subject has two attributes. Any
  nonempty input decodes to it; the digests copy their input's first bytes.
\<close>

definition sample_cert :: certificate where
  "sample_cert =
     \<lparr>cert_extensions = Some [(''2.5.29.15'', [3]), (''2.5.29.19'', [0xFF])],
      cert_not_before = 0, cert_not_after = 1000, cert_subject = ''CN=R,C=DE'',
      cert_subject_der = Inr [0x30, 0],
      cert_subject_rdns = [[(''2.5.4.6'', \<lparr>any_tag = PrintableString, any_value = [0x44, 0x45]\<rparr>)],
        [(''2.5.4.3'', \<lparr>any_tag = OtherTag, any_value = [1]\<rparr>),
         (''2.5.4.3'', \<lparr>any_tag = BmpString, any_value = [0, 0x52]\<rparr>)]],
      cert_issuer = ''CN=R,C=DE'', cert_serial = [0, 0xAB],
      cert_key_oid = ''1.2.840.113549.1.1.1'', cert_key_parameters = None,
      cert_key_bytes = Some [5, 0, 0]\<rparr>"

definition sample_lib :: lib where
  "sample_lib =
     \<lparr>from_der = (\<lambda>bs. if bs = [] then Inl ''empty'' else Inr sample_cert),
      basic_constraints = (\<lambda>bs. Some (bs = [0xFF])),
      sha1 = (\<lambda>bs. take 20 (bs @ replicate 20 0)),
      sha256 = (\<lambda>bs. take 32 (bs @ replicate 32 0)),
      decode_as = (\<lambda>_ bs. Some (from_bytes bs)),
      rsa_modulus = (\<lambda>bs. Some bs),
      der_error_text = (\<lambda>_. ''bad DER'')\<rparr>"

lemma sample_is_ca: "is_ca sample_lib sample_cert"
  by (simp add: is_ca_def sample_lib_def sample_cert_def)

lemma sample_subject_hash: "subject_hash (sha1 sample_lib) [0x30, 0] = Inr ''00000000''"
proof -
  have "canonical_name [0x30, 0] = Inr []" by code_simp
  moreover have "sha1 sample_lib [] = replicate 20 0" by (simp add: sample_lib_def)
  moreover have "hex8 0 = ''00000000''" by (simp add: hex8_def hex_digit_def)
  ultimately show ?thesis by (simp add: subject_hash_def Let_def)
qed

lemma sample_parse:
  assumes "bs \<noteq> []"
  shows "parse sample_lib bs None = Inr \<lparr>der = bs, fingerprint = fingerprint_of sample_lib bs,
    subject = ''CN=R,C=DE'', not_after = 1000, subject_hash_text = ''00000000''\<rparr>"
proof -
  have "from_der sample_lib bs = Inr sample_cert" using assms by (simp add: sample_lib_def)
  moreover have "cert_not_after sample_cert = 1000" "cert_subject sample_cert = ''CN=R,C=DE''"
    "cert_subject_der sample_cert = Inr [0x30, 0]"
    by (simp_all add: sample_cert_def)
  moreover have "as_i64 1000 = 1000" by code_simp
  ultimately show ?thesis
    by (simp add: parse_def Let_def sample_is_ca sample_subject_hash)
qed

section \<open>Properties\<close>

text \<open>
  What \<open>parse\<close> accepts is the certificate it was given, a CA by its first basicConstraints
  extension, identified by the hash of its own bytes, and unexpired at the clock it was
  given.
\<close>

theorem parse_sound:
  assumes "parse L bs now = Inr p"
  shows "der p = bs \<and> fingerprint p = fingerprint_of L bs \<and>
    (\<exists>c extensions b. from_der L bs = Inr c \<and> cert_extensions c = Some extensions \<and>
        find (\<lambda>(i, _). i = ''2.5.29.19'') extensions = Some (''2.5.29.19'', b) \<and>
        basic_constraints L b = Some True \<and>
        not_after p = as_i64 (cert_not_after c) \<and> subject p = cert_subject c) \<and>
    (\<forall>t. now = Some t \<longrightarrow> t < not_after p)"
  using assms by (auto simp: parse_Inr_iff is_ca_iff)

theorem parse_sound_witness: "\<exists>p. parse sample_lib [1] None = Inr p \<and> der p = [1]"
  using parse_sound [OF sample_parse [of "[1]"]] sample_parse [of "[1]"] by auto

text \<open>
  The clock only ever refuses: a certificate that parses without a clock parses with one
  to the same result, unless its \<open>notAfter\<close> is not later than the clock, and then it is
  \<open>Expired\<close>.
\<close>

theorem parse_clock:
  assumes "parse L bs None = Inr p"
  shows "parse L bs (Some t) = (if not_after p \<le> t then Inl Expired else Inr p)"
  using assms by (auto simp: parse_Inr_iff) (auto simp: parse_def)

theorem parse_clock_witness:
  "parse sample_lib [1] (Some 1000) = Inl Expired \<and>
   parse sample_lib [1] (Some 999) = parse sample_lib [1] None"
  using parse_clock [OF sample_parse [of "[1]"], of 1000]
    parse_clock [OF sample_parse [of "[1]"], of 999] sample_parse [of "[1]"]
  by simp

text \<open>
  A description names the subject by the first attribute of each kind that holds text,
  reports the CA flag vetting uses, and describes exactly the certificates that decode.
\<close>

theorem describe_attributes:
  assumes "describe L bs = Inr d"
  shows "\<exists>c. from_der L bs = Inr c \<and> common_name d = attribute L ''2.5.4.3'' c \<and>
    organisation d = attribute L ''2.5.4.10'' c \<and> unit_name d = attribute L ''2.5.4.11'' c \<and>
    country d = attribute L ''2.5.4.6'' c \<and> d_ca d = is_ca L c \<and> d_subject d = cert_subject c"
  using assms
  by (auto simp: describe_def conv Let_def foldl_foldl fill_slots frame attribute_def)

theorem describe_attributes_witness:
  "\<exists>d. describe sample_lib [1] = Inr d \<and> common_name d = Some ''R'' \<and> country d = Some ''DE''
     \<and> organisation d = None"
proof -
  have "\<exists>d. describe sample_lib [1] = Inr d"
    by (simp add: describe_def sample_lib_def)
  then obtain d where d: "describe sample_lib [1] = Inr d" ..
  have chars: "char_of (82 :: nat) = CHR ''R''" "char_of (68 :: nat) = CHR ''D''"
    "char_of (69 :: nat) = CHR ''E''"
    by (rule ord_inj; simp)+
  have "attribute sample_lib ''2.5.4.3'' sample_cert = Some ''R''"
    "attribute sample_lib ''2.5.4.6'' sample_cert = Some ''DE''"
    "attribute sample_lib ''2.5.4.10'' sample_cert = None"
    by (simp_all add: attribute_def sample_cert_def sample_lib_def attribute_text_def
        from_bytes_def from_utf16_def utf8_encode_def be_val_def trim_solid solid_def chars)
  then show ?thesis using describe_attributes [OF d] d by (auto simp: sample_lib_def)
qed

text \<open>
  The key size \<open>describe\<close> reports for an RSA key is the bit length of its modulus.
\<close>

theorem rsa_bits_length:
  assumes "rsa_modulus L key = Some (first # rest)" and "first \<noteq> 0"
  shows "\<exists>n. rsa_bits L key = Some n \<and> 2 ^ (n - 1) \<le> be_val (first # rest) \<and> be_val (first # rest) < 2 ^ n"
proof -
  let ?z = "leading_zeros first" and ?m = "length rest"
  have z: "?z < 8" by (rule leading_zeros_bounds(1) [OF assms(2)])
  have n: "rsa_bits L key = Some (8 * ?m + (8 - ?z))"
    using assms(1) z by (simp add: rsa_bits_def get_at_def)
  have p: "(256 :: nat) ^ ?m = 2 ^ (8 * ?m)" by (simp add: power_mult)
  have "8 * ?m + (8 - ?z) - 1 = (7 - ?z) + 8 * ?m" using z by arith
  then have "(2 :: nat) ^ (8 * ?m + (8 - ?z) - 1) = 2 ^ (7 - ?z) * 256 ^ ?m"
    by (simp only: p power_add)
  also have "\<dots> \<le> be_val (first # rest)"
    using leading_zeros_bounds(2) [OF assms(2)] by (simp add: be_val_Cons trans_le_add1)
  finally have lo: "(2 :: nat) ^ (8 * ?m + (8 - ?z) - 1) \<le> be_val (first # rest)" .
  have "be_val (first # rest) < (unat first + 1) * 256 ^ ?m"
    using be_val_bound [of rest] by (simp add: be_val_Cons)
  also have "\<dots> \<le> 2 ^ (8 - ?z) * 256 ^ ?m"
    using leading_zeros_bounds(3) [OF assms(2)] by (intro mult_le_mono1) simp
  also have "\<dots> = 2 ^ (8 * ?m + (8 - ?z))" by (simp only: p power_add mult.commute)
  finally show ?thesis using n lo by blast
qed

theorem rsa_bits_length_witness:
  "rsa_bits sample_lib [5, 0, 0] = Some 19 \<and> be_val [5, 0, 0] < 2 ^ 19"
proof -
  have "rsa_bits sample_lib [5, 0, 0] = Some 19" by code_simp
  moreover have "rsa_modulus sample_lib [5, 0, 0] = Some [5, 0, 0]" by (simp add: sample_lib_def)
  ultimately show ?thesis using rsa_bits_length [of sample_lib "[5, 0, 0]" 5 "[0, 0]"] by auto
qed

end
