(* ===== verification/Store.thy ===== *)
theory Store
  imports Cert Wire
begin

text \<open>
  Composing the effective root set (\<open>trust-core/src/store.rs\<close>): \<open>compose\<close>, \<open>push\<close>,
  \<open>normalise_fingerprint\<close>, \<open>for_purpose\<close>, and what the composed store is: its identities are
  those of the usable certificates less the distrusted ones, each once, sorted.
\<close>

section \<open>The model\<close>

definition MINIMUM_SHIPPED :: nat where
  "MINIMUM_SHIPPED = 50"

definition SERVER_AUTH :: string where
  "SERVER_AUTH = ''ServerAuth''"

record addition =
  add_name :: string
  add_der :: bytes
  add_purposes :: "string list"

record entry =
  e_parsed :: parsed
  e_source :: Source
  e_name :: "string option"
  e_purposes :: "string list"

record composed =
  c_roots :: "entry list"
  c_shipped :: u64
  c_added :: u64
  c_distrusted :: u64
  c_skipped :: u64
  c_warnings :: "string list"

definition composed_default :: composed where
  "composed_default = \<lparr>c_roots = [], c_shipped = 0, c_added = 0, c_distrusted = 0, c_skipped = 0,
     c_warnings = []\<rparr>"

text \<open>
  \<open>char::is_ascii_alphanumeric\<close> keeps only single-byte characters, so filtering characters is
  filtering bytes, and \<open>to_lowercase\<close> of what is left is the ASCII one.
\<close>

definition normalise_fingerprint :: "string \<Rightarrow> string" where
  "normalise_fingerprint text = map to_ascii_lower (filter is_ascii_alphanumeric text)"

abbreviation entry_fingerprint :: "entry \<Rightarrow> string" where
  "entry_fingerprint e \<equiv> fingerprint (e_parsed e)"

definition warn :: "string \<Rightarrow> composed \<Rightarrow> composed" where
  "warn line out = out\<lparr>c_warnings := c_warnings out @ [line]\<rparr>"

text \<open>\<open>push\<close> on the pair of the output and the fingerprints seen.\<close>

definition push :: "composed \<times> string list \<Rightarrow> string list \<Rightarrow> entry \<Rightarrow> composed \<times> string list" where
  "push state distrust entry =
     (let (out, seen) = state;
          fp = entry_fingerprint entry;
          seen = seen @ [fp]
      in if fp \<in> set distrust then
           (warn (subject (e_parsed entry) @ '' is distrusted ('' @ fp @ '')'') out, seen)
         else if \<exists>r \<in> set (c_roots out). entry_fingerprint r = fp then
           (if e_source entry = Added
            then warn (''Add'' @ backslash # (case e_name entry of Some n \<Rightarrow> n | None \<Rightarrow> []) @
                   '' duplicates a certificate already in the store; the store holds one copy'') out
            else out, seen)
         else (out\<lparr>c_roots := c_roots out @ [entry]\<rparr>, seen))"

definition shipped_step ::
  "lib \<Rightarrow> string list \<Rightarrow> composed \<times> string list \<Rightarrow> bytes \<Rightarrow> composed \<times> string list" where
  "shipped_step L distrust state cert =
     (let (out, seen) = state
      in case parse L cert None of
           Inr p \<Rightarrow>
             push (out\<lparr>c_shipped := c_shipped out + 1\<rparr>, seen) distrust
               \<lparr>e_parsed = p, e_source = Shipped, e_name = None, e_purposes = [SERVER_AUTH]\<rparr>
         | Inl e \<Rightarrow>
             (warn (''the shipped bundle holds an entry that is '' @ cert_error_text e)
                (out\<lparr>c_skipped := c_skipped out + 1\<rparr>), seen))"

definition addition_step ::
  "lib \<Rightarrow> int option \<Rightarrow> string list \<Rightarrow> composed \<times> string list \<Rightarrow> addition \<Rightarrow> composed \<times> string list" where
  "addition_step L now distrust state addition =
     (let (out, seen) = state
      in case parse L (add_der addition) now of
           Inr p \<Rightarrow>
             push (out\<lparr>c_added := c_added out + 1\<rparr>, seen) distrust
               \<lparr>e_parsed = p, e_source = Added, e_name = Some (add_name addition),
                e_purposes =
                  (if add_purposes addition = [] then [SERVER_AUTH] else add_purposes addition)\<rparr>
         | Inl e \<Rightarrow>
             (warn (''Add'' @ backslash # add_name addition @ '' is '' @ cert_error_text e @ ''; ignored'')
                (out\<lparr>c_skipped := c_skipped out + 1\<rparr>), seen))"

definition unmatched_step :: "string list \<Rightarrow> composed \<Rightarrow> string \<Rightarrow> composed" where
  "unmatched_step seen out fp =
     (if fp \<notin> set seen
      then warn (''Distrust'' @ backslash # fp @
             '' matches no certificate in the store; it stays in force in case one arrives'') out
      else out)"

definition compose ::
  "lib \<Rightarrow> string \<Rightarrow> addition list \<Rightarrow> string list \<Rightarrow> int option \<Rightarrow> string + composed" where
  "compose L shipped_pem additions distrust now =
     (let shipped = from_pem shipped_pem
      in if length shipped < MINIMUM_SHIPPED then
           Inl (''the shipped bundle holds '' @ dec_str (length shipped) @
             '' certificate(s), below the floor of '' @ dec_str MINIMUM_SHIPPED @ '' '' @
             [CHR 0xE2, CHR 0x80, CHR 0x94] @
             '' treating it as broken rather than as a very small trust store'')
         else
           let distrust = map normalise_fingerprint distrust;
               state = foldl (shipped_step L distrust) (composed_default, []) shipped;
               (out, seen) = foldl (addition_step L now distrust) state additions;
               out = out\<lparr>c_distrusted := word_of_nat (length distrust)\<rparr>;
               out = foldl (unmatched_step seen) out distrust;
               out = out\<lparr>c_roots := sort_key entry_fingerprint (c_roots out)\<rparr>
           in if c_roots out = []
              then Inl ''every root was distrusted or unusable; refusing to render an empty store''
              else Inr out)"

definition for_purpose :: "entry list \<Rightarrow> string \<Rightarrow> entry list" where
  "for_purpose roots purpose =
     filter (\<lambda>r. \<exists>p \<in> set (e_purposes r). eq_ignore_ascii_case p purpose) roots"

section \<open>What composition is\<close>

text \<open>
  The entries offered to the store, in order: every usable shipped certificate, then every
  usable addition.
\<close>

definition shipped_entry :: "lib \<Rightarrow> bytes \<Rightarrow> entry option" where
  "shipped_entry L cert =
     (case parse L cert None of
        Inr p \<Rightarrow> Some \<lparr>e_parsed = p, e_source = Shipped, e_name = None, e_purposes = [SERVER_AUTH]\<rparr>
      | Inl e \<Rightarrow> None)"

definition addition_entry :: "lib \<Rightarrow> int option \<Rightarrow> addition \<Rightarrow> entry option" where
  "addition_entry L now addition =
     (case parse L (add_der addition) now of
        Inr p \<Rightarrow> Some \<lparr>e_parsed = p, e_source = Added, e_name = Some (add_name addition),
          e_purposes = (if add_purposes addition = [] then [SERVER_AUTH] else add_purposes addition)\<rparr>
      | Inl e \<Rightarrow> None)"

definition offered :: "lib \<Rightarrow> string \<Rightarrow> addition list \<Rightarrow> int option \<Rightarrow> entry list" where
  "offered L shipped_pem additions now =
     List.map_filter (shipped_entry L) (from_pem shipped_pem) @
     List.map_filter (addition_entry L now) additions"

text \<open>The store it promises: the first entry of each identity that is not distrusted.\<close>

fun firsts :: "string list \<Rightarrow> entry list \<Rightarrow> entry list" where
  "firsts taken [] = []"
| "firsts taken (e # es) =
     (if entry_fingerprint e \<in> set taken then firsts taken es
      else e # firsts (entry_fingerprint e # taken) es)"

definition effective :: "lib \<Rightarrow> string \<Rightarrow> addition list \<Rightarrow> string list \<Rightarrow> int option \<Rightarrow> entry list" where
  "effective L shipped_pem additions distrust now =
     sort_key entry_fingerprint
       (firsts (map normalise_fingerprint distrust) (offered L shipped_pem additions now))"

lemma firsts_append:
  "firsts taken (es @ fs) = firsts taken es @ firsts (rev (map entry_fingerprint (firsts taken es)) @ taken) fs"
  by (induction es arbitrary: taken) auto

lemma firsts_cong: "set taken = set taken' \<Longrightarrow> firsts taken es = firsts taken' es"
proof (induction es arbitrary: taken taken')
  case (Cons e es)
  have "firsts (entry_fingerprint e # taken) es = firsts (entry_fingerprint e # taken') es"
    by (rule Cons.IH) (simp add: Cons.prems)
  moreover have "firsts taken es = firsts taken' es" by (rule Cons.IH) (rule Cons.prems)
  ultimately show ?case by (simp add: Cons.prems)
qed simp

lemma firsts_fingerprints:
  "entry_fingerprint ` set (firsts taken es) = entry_fingerprint ` set es - set taken"
  by (induction es arbitrary: taken) auto

lemma firsts_distinct: "distinct (map entry_fingerprint (firsts taken es))"
proof (induction es arbitrary: taken)
  case (Cons e es)
  have "entry_fingerprint e \<notin> entry_fingerprint ` set (firsts (entry_fingerprint e # taken) es)"
    unfolding firsts_fingerprints by simp
  then show ?case using Cons by simp
qed simp

lemma firsts_subset: "set (firsts taken es) \<subseteq> set es"
  by (induction es arbitrary: taken) auto

lemma firsts_first:
  assumes "r \<in> set (firsts taken es)"
  shows "find (\<lambda>e. entry_fingerprint e = entry_fingerprint r) es = Some r"
  using assms
proof (induction es arbitrary: taken)
  case (Cons e es)
  show ?case
  proof (cases "entry_fingerprint e \<in> set taken")
    case True
    have "entry_fingerprint r \<notin> set taken"
      using Cons.prems firsts_fingerprints [of taken "e # es"] by blast
    then show ?thesis using True Cons by auto
  next
    case False
    show ?thesis
    proof (cases "r = e")
      case True
      then show ?thesis by simp
    next
      case neq: False
      then have r: "r \<in> set (firsts (entry_fingerprint e # taken) es)"
        using Cons.prems False by simp
      then have "entry_fingerprint r \<noteq> entry_fingerprint e"
        using firsts_fingerprints [of "entry_fingerprint e # taken" es] by auto
      then show ?thesis using Cons.IH [OF r] by simp
    qed
  qed
qed simp

section \<open>The loops implement it\<close>

lemma warn_frame [frame]:
  "c_roots (warn l out) = c_roots out" "c_shipped (warn l out) = c_shipped out"
  "c_added (warn l out) = c_added out" "c_skipped (warn l out) = c_skipped out"
  "c_distrusted (warn l out) = c_distrusted out"
  by (simp_all add: warn_def)

lemma push_frame [frame]:
  "c_shipped (fst (push s d e)) = c_shipped (fst s)" "c_added (fst (push s d e)) = c_added (fst s)"
  "c_skipped (fst (push s d e)) = c_skipped (fst s)"
  "snd (push s d e) = snd s @ [entry_fingerprint e]"
  by (simp_all add: push_def Let_def frame split: prod.split)

lemma push_roots:
  "c_roots (fst (push s d e)) =
     c_roots (fst s) @ firsts (map entry_fingerprint (c_roots (fst s)) @ d) [e]"
proof (cases s)
  case (Pair out seen)
  have "(\<exists>r \<in> set (c_roots out). entry_fingerprint r = entry_fingerprint e)
      \<longleftrightarrow> entry_fingerprint e \<in> entry_fingerprint ` set (c_roots out)"
    by (metis (no_types, lifting) image_iff)
  then show ?thesis by (simp add: Pair push_def Let_def frame)
qed

text \<open>One loop, for either kind of input: usable entries are pushed, the rest only counted.\<close>

lemma fold_roots:
  assumes "\<And>s x. c_roots (fst (step s x)) = (case entry_of x of
        Some e \<Rightarrow> c_roots (fst s) @ firsts (map entry_fingerprint (c_roots (fst s)) @ d) [e]
      | None \<Rightarrow> c_roots (fst s))"
  shows "c_roots (fst (foldl step s xs)) =
    c_roots (fst s) @ firsts (map entry_fingerprint (c_roots (fst s)) @ d) (List.map_filter entry_of xs)"
proof (induction xs arbitrary: s)
  case Nil
  then show ?case by (simp add: map_filter_simps)
next
  case (Cons x xs)
  show ?case
  proof (cases "entry_of x")
    case None
    then show ?thesis using Cons by (simp add: assms map_filter_simps)
  next
    case (Some e)
    let ?old = "map entry_fingerprint (c_roots (fst s)) @ d"
    have "firsts ?old (e # List.map_filter entry_of xs) = firsts ?old [e] @
        firsts (map entry_fingerprint (c_roots (fst s) @ firsts ?old [e]) @ d) (List.map_filter entry_of xs)"
      using firsts_append [of ?old "[e]" "List.map_filter entry_of xs"]
        firsts_cong [of "rev (map entry_fingerprint (firsts ?old [e])) @ ?old"
          "map entry_fingerprint (c_roots (fst s) @ firsts ?old [e]) @ d" "List.map_filter entry_of xs"]
      by auto
    then show ?thesis using Cons Some by (simp only: foldl_Cons assms map_filter_simps option.case append_assoc)
  qed
qed

lemma shipped_step_roots:
  "c_roots (fst (shipped_step L d s x)) = (case shipped_entry L x of
        Some e \<Rightarrow> c_roots (fst s) @ firsts (map entry_fingerprint (c_roots (fst s)) @ d) [e]
      | None \<Rightarrow> c_roots (fst s))"
  by (cases s) (auto simp: shipped_step_def shipped_entry_def push_roots frame split: sum.split)

lemma addition_step_roots:
  "c_roots (fst (addition_step L now d s x)) = (case addition_entry L now x of
        Some e \<Rightarrow> c_roots (fst s) @ firsts (map entry_fingerprint (c_roots (fst s)) @ d) [e]
      | None \<Rightarrow> c_roots (fst s))"
  by (cases s) (auto simp: addition_step_def addition_entry_def push_roots frame split: sum.split)

lemma loops_roots:
  "c_roots (fst (foldl (addition_step L now d) (foldl (shipped_step L d) (composed_default, []) shipped)
       additions))
   = firsts d (List.map_filter (shipped_entry L) shipped @ List.map_filter (addition_entry L now) additions)"
  (is "?l = firsts d (?s @ ?a)")
proof -
  have "c_roots (fst (foldl (shipped_step L d) (composed_default, []) shipped)) = firsts d ?s"
    using fold_roots [where step = "shipped_step L d" and entry_of = "shipped_entry L", OF shipped_step_roots,
        of "(composed_default, [])" shipped]
    by (simp add: composed_default_def)
  then have "?l = firsts d ?s @ firsts (map entry_fingerprint (firsts d ?s) @ d) ?a"
    using fold_roots [where step = "addition_step L now d" and entry_of = "addition_entry L now",
        OF addition_step_roots, of "foldl (shipped_step L d) (composed_default, []) shipped" additions]
    by simp
  also have "\<dots> = firsts d (?s @ ?a)"
    unfolding firsts_append by (rule arg_cong2 [where f = append], rule refl, rule firsts_cong) auto
  finally show ?thesis .
qed

lemma unmatched_frame [frame]:
  "c_roots (foldl (unmatched_step seen) out ds) = c_roots out"
  "c_shipped (foldl (unmatched_step seen) out ds) = c_shipped out"
  "c_added (foldl (unmatched_step seen) out ds) = c_added out"
  "c_skipped (foldl (unmatched_step seen) out ds) = c_skipped out"
  "c_distrusted (foldl (unmatched_step seen) out ds) = c_distrusted out"
  by (induction ds arbitrary: out) (simp_all add: unmatched_step_def frame)

lemma sort_key_Nil_iff [simp]: "sort_key f xs = [] \<longleftrightarrow> xs = []"
  by (metis length_0_conv length_sort)

lemma compose_outcome:
  "case compose L pem additions distrust now of
     Inl _ \<Rightarrow> length (from_pem pem) < MINIMUM_SHIPPED \<or> effective L pem additions distrust now = []
   | Inr out \<Rightarrow> MINIMUM_SHIPPED \<le> length (from_pem pem) \<and>
       c_roots out = effective L pem additions distrust now \<and> c_roots out \<noteq> []"
  by (simp add: compose_def Let_def case_prod_beta frame loops_roots effective_def offered_def)

lemma compose_roots [conv]:
  assumes "compose L pem additions distrust now = Inr out"
  shows "c_roots out = effective L pem additions distrust now"
  using compose_outcome [where L = L and pem = pem and additions = additions and distrust = distrust
      and now = now] by (simp add: assms)

lemma effective_set: "set (effective L pem additions distrust now) =
    set (firsts (map normalise_fingerprint distrust) (offered L pem additions now))"
  by (simp add: effective_def)

lemma effective_fingerprints:
  "entry_fingerprint ` set (effective L pem additions distrust now) =
     entry_fingerprint ` set (offered L pem additions now) - normalise_fingerprint ` set distrust"
  by (simp add: effective_set firsts_fingerprints)

lemma effective_distinct: "distinct (map entry_fingerprint (effective L pem additions distrust now))"
  unfolding effective_def
  by (simp add: distinct_map firsts_distinct [unfolded distinct_map])

lemma effective_sorted: "sorted (map entry_fingerprint (effective L pem additions distrust now))"
  by (simp add: effective_def)

lemma map_filter_set: "set (List.map_filter f xs) = {y. \<exists>x \<in> set xs. f x = Some y}"
  by (induction xs) (auto simp: map_filter_simps split: option.splits)

lemma shipped_entry_facts:
  "shipped_entry L d = Some e \<Longrightarrow> e_source e = Shipped \<and> e_name e = None \<and>
     e_purposes e = [SERVER_AUTH] \<and> parse L d None = Inr (e_parsed e)"
  by (auto simp: shipped_entry_def split: sum.splits)

lemma addition_entry_facts:
  "addition_entry L now a = Some e \<Longrightarrow> e_source e = Added \<and> e_name e = Some (add_name a) \<and>
     e_purposes e \<noteq> [] \<and> parse L (add_der a) now = Inr (e_parsed e)"
  by (auto simp: addition_entry_def split: sum.splits if_splits)

lemma shipped_entry_identity:
  "(\<exists>e. shipped_entry L d = Some e \<and> entry_fingerprint e = x) \<longleftrightarrow>
     (\<exists>p. parse L d None = Inr p) \<and> x = fingerprint_of L d"
  by (cases "parse L d None") (auto simp: shipped_entry_def parse_fields)

lemma addition_entry_identity:
  "(\<exists>e. addition_entry L now a = Some e \<and> entry_fingerprint e = x) \<longleftrightarrow>
     (\<exists>p. parse L (add_der a) now = Inr p) \<and> x = fingerprint_of L (add_der a)"
  by (cases "parse L (add_der a) now") (auto simp: addition_entry_def parse_fields)

lemma offered_identities:
  "entry_fingerprint ` set (offered L pem additions now) =
     fingerprint_of L ` {d \<in> set (from_pem pem). \<exists>p. parse L d None = Inr p} \<union>
     fingerprint_of L ` {d \<in> add_der ` set additions. \<exists>p. parse L d now = Inr p}"
proof (rule set_eqI)
  fix x
  have "x \<in> entry_fingerprint ` set (offered L pem additions now) \<longleftrightarrow>
      (\<exists>d \<in> set (from_pem pem). \<exists>e. shipped_entry L d = Some e \<and> entry_fingerprint e = x) \<or>
      (\<exists>a \<in> set additions. \<exists>e. addition_entry L now a = Some e \<and> entry_fingerprint e = x)"
    unfolding offered_def set_append map_filter_set by blast
  also have "\<dots> \<longleftrightarrow>
      x \<in> fingerprint_of L ` {d \<in> set (from_pem pem). \<exists>p. parse L d None = Inr p} \<union>
        fingerprint_of L ` {d \<in> add_der ` set additions. \<exists>p. parse L d now = Inr p}"
    unfolding shipped_entry_identity addition_entry_identity by blast
  finally show "x \<in> entry_fingerprint ` set (offered L pem additions now) \<longleftrightarrow> \<dots>" .
qed

text \<open>Distrusting one more fingerprint filters the store.\<close>

lemma firsts_Cons: "firsts (x # taken) es = filter (\<lambda>e. entry_fingerprint e \<noteq> x) (firsts taken es)"
proof (induction es arbitrary: taken)
  case (Cons e es)
  have swap: "firsts (entry_fingerprint e # x # taken) es = firsts (x # entry_fingerprint e # taken) es"
    by (rule firsts_cong) auto
  show ?case
  proof (cases "entry_fingerprint e = x")
    case True
    have "filter (\<lambda>e. entry_fingerprint e \<noteq> x) (firsts (x # taken) es) = firsts (x # taken) es"
      unfolding Cons.IH by simp
    then show ?thesis using True Cons.IH by auto
  next
    case False
    then show ?thesis using Cons.IH swap by auto
  qed
qed simp

lemma effective_distrust:
  "effective L pem additions (d # distrust) now =
     filter (\<lambda>r. entry_fingerprint r \<noteq> normalise_fingerprint d) (effective L pem additions distrust now)"
  by (simp add: effective_def firsts_Cons filter_sort)

text \<open>With no two certificates of one hash, the order they are listed in does not matter.\<close>

lemma entries_determined:
  assumes "inj_on entry_fingerprint (set es)" and "set es = set es'"
  shows "set (firsts taken es) = set (firsts taken es')"
proof -
  have char: "set (firsts taken fs) = {e \<in> set fs. entry_fingerprint e \<notin> set taken}"
    if "inj_on entry_fingerprint (set fs)" for fs
    using that
  proof (induction fs arbitrary: taken)
    case (Cons f fs)
    then show ?case by (auto simp: inj_on_def)
  qed simp
  show ?thesis using assms by (simp add: char)
qed

lemma sort_key_distinct_eq:
  assumes "set xs = set ys" and "distinct (map f xs)" and "distinct (map f ys)"
  shows "sort_key f xs = sort_key f ys"
proof (rule map_sorted_distinct_set_unique [where f = f])
  show "inj_on f (set (sort_key f xs) \<union> set (sort_key f ys))"
    using assms by (simp add: distinct_map)
qed (use assms in \<open>simp_all add: distinct_map\<close>)

section \<open>Counting\<close>

lemma shipped_step_counts:
  "c_shipped (fst (shipped_step L d s x)) = c_shipped (fst s) + of_bool (shipped_entry L x \<noteq> None)"
  "c_skipped (fst (shipped_step L d s x)) = c_skipped (fst s) + of_bool (shipped_entry L x = None)"
  "c_added (fst (shipped_step L d s x)) = c_added (fst s)"
  by (cases s; simp add: shipped_step_def shipped_entry_def frame split: sum.split)+

lemma addition_step_counts:
  "c_added (fst (addition_step L now d s x)) = c_added (fst s) + of_bool (addition_entry L now x \<noteq> None)"
  "c_skipped (fst (addition_step L now d s x)) = c_skipped (fst s) + of_bool (addition_entry L now x = None)"
  "c_shipped (fst (addition_step L now d s x)) = c_shipped (fst s)"
  by (cases s; simp add: addition_step_def addition_entry_def frame split: sum.split)+

lemma foldl_counts:
  fixes count :: "'s \<Rightarrow> u64"
  assumes "\<And>s x. count (step s x) = count s + of_bool (P x)"
  shows "count (foldl step s xs) = count s + word_of_nat (length (filter P xs))"
  by (induction xs arbitrary: s) (simp_all add: assms)

lemma foldl_keeps: "(\<And>s x. cnt (step s x) = cnt s) \<Longrightarrow> cnt (foldl step s xs) = cnt s"
  by (induction xs arbitrary: s) simp_all

lemma compose_counters:
  assumes "compose L pem additions distrust now = Inr out"
  shows "c_shipped out = word_of_nat (length (filter (\<lambda>d. shipped_entry L d \<noteq> None) (from_pem pem)))"
    and "c_added out = word_of_nat (length (filter (\<lambda>a. addition_entry L now a \<noteq> None) additions))"
    and "c_skipped out = word_of_nat (length (filter (\<lambda>d. shipped_entry L d = None) (from_pem pem)) +
      length (filter (\<lambda>a. addition_entry L now a = None) additions))"
    and "c_distrusted out = word_of_nat (length distrust)"
proof -
  let ?d = "map normalise_fingerprint distrust"
  let ?s = "foldl (shipped_step L ?d) (composed_default, []) (from_pem pem)"
  let ?t = "foldl (addition_step L now ?d) ?s additions"
  have out: "c_shipped out = c_shipped (fst ?t)" "c_added out = c_added (fst ?t)"
    "c_skipped out = c_skipped (fst ?t)" "c_distrusted out = word_of_nat (length distrust)"
    using assms by (auto simp: compose_def Let_def case_prod_beta frame split: if_splits)
  have s: "c_shipped (fst ?s) = word_of_nat (length (filter (\<lambda>d. shipped_entry L d \<noteq> None) (from_pem pem)))"
    "c_skipped (fst ?s) = word_of_nat (length (filter (\<lambda>d. shipped_entry L d = None) (from_pem pem)))"
    "c_added (fst ?s) = 0"
    by (simp_all add: foldl_counts [where count = "\<lambda>s. c_shipped (fst s)", OF shipped_step_counts(1)]
        foldl_counts [where count = "\<lambda>s. c_skipped (fst s)", OF shipped_step_counts(2)]
        foldl_keeps [where cnt = "\<lambda>s. c_added (fst s)", OF shipped_step_counts(3)] composed_default_def)
  have t: "c_added (fst ?t) = c_added (fst ?s) +
      word_of_nat (length (filter (\<lambda>a. addition_entry L now a \<noteq> None) additions))"
    "c_skipped (fst ?t) = c_skipped (fst ?s) +
      word_of_nat (length (filter (\<lambda>a. addition_entry L now a = None) additions))"
    "c_shipped (fst ?t) = c_shipped (fst ?s)"
    by (simp_all add: foldl_counts [where count = "\<lambda>s. c_added (fst s)", OF addition_step_counts(1)]
        foldl_counts [where count = "\<lambda>s. c_skipped (fst s)", OF addition_step_counts(2)]
        foldl_keeps [where cnt = "\<lambda>s. c_shipped (fst s)", OF addition_step_counts(3)])
  show "c_shipped out = word_of_nat (length (filter (\<lambda>d. shipped_entry L d \<noteq> None) (from_pem pem)))"
    by (simp add: out s t)
  show "c_added out = word_of_nat (length (filter (\<lambda>a. addition_entry L now a \<noteq> None) additions))"
    by (simp add: out s t)
  show "c_skipped out = word_of_nat (length (filter (\<lambda>d. shipped_entry L d = None) (from_pem pem)) +
      length (filter (\<lambda>a. addition_entry L now a = None) additions))"
    by (simp add: out s t)
  show "c_distrusted out = word_of_nat (length distrust)"
    by (rule out(4))
qed

section \<open>Fingerprints as people write them\<close>

lemma normalise_idem: "normalise_fingerprint (normalise_fingerprint t) = normalise_fingerprint t"
  by (simp add: normalise_fingerprint_def filter_map comp_def)

lemma normalise_append: "normalise_fingerprint (s @ t) = normalise_fingerprint s @ normalise_fingerprint t"
  by (simp add: normalise_fingerprint_def)

lemma hex_letters:
  "char_of (97 :: nat) = CHR ''a''" "char_of (98 :: nat) = CHR ''b''" "char_of (99 :: nat) = CHR ''c''"
  "char_of (100 :: nat) = CHR ''d''" "char_of (101 :: nat) = CHR ''e''" "char_of (102 :: nat) = CHR ''f''"
  by (rule ord_inj; simp)+

lemma normalise_hex_upper: "normalise_fingerprint (hex_byte_upper b) = hex_byte b"
proof -
  have nibble: "normalise_fingerprint [''0123456789ABCDEF'' ! n] = [hex_digit n]" if "n < 16" for n
  proof -
    have "n \<in> {0, 1, 2, 3, 4, 5, 6, 7, 8, 9, 10, 11, 12, 13, 14, 15}"
      using that unfolding insert_iff empty_iff by presburger
    then show ?thesis
      by (elim insertE emptyE; simp add: normalise_fingerprint_def hex_digit_def ascii_defs hex_letters)
  qed
  have "unat b div 16 < 16" using unat_byte_less [of b] by (simp add: div_less_iff_less_mult)
  moreover have "hex_digit (unat b mod 16) = hex_digit (unat b)" by (simp add: hex_digit_def)
  ultimately show ?thesis
    using nibble [of "unat b div 16"] nibble [of "unat b mod 16"]
      normalise_append [of "[''0123456789ABCDEF'' ! (unat b div 16)]"]
    by (simp add: hex_byte_upper_def hex_byte_def)
qed

lemma normalise_join_colon:
  "normalise_fingerprint (join_colon ss) = concat (map normalise_fingerprint ss)"
proof (induction ss rule: join_colon.induct)
  case 1
  then show ?case by (simp add: normalise_fingerprint_def)
next
  case (2 x)
  then show ?case by simp
next
  case (3 x y ss)
  have "normalise_fingerprint (CHR '':'' # join_colon (y # ss)) = normalise_fingerprint (join_colon (y # ss))"
    by (simp add: normalise_fingerprint_def ascii_defs)
  then show ?case using 3 by (simp add: normalise_append)
qed

lemma normalise_hex: "list_all (\<lambda>c. is_ascii_alphanumeric c \<and> to_ascii_lower c = c) t
    \<Longrightarrow> normalise_fingerprint t = t"
  by (induction t) (simp_all add: normalise_fingerprint_def)

lemma normalise_fingerprint_of: "normalise_fingerprint (fingerprint_of L bs) = fingerprint_of L bs"
proof (rule normalise_hex)
  have "is_ascii_hexdigit c \<Longrightarrow> is_ascii_alphanumeric c" for c
    by (auto simp: ascii_defs)
  then show "list_all (\<lambda>c. is_ascii_alphanumeric c \<and> to_ascii_lower c = c) (fingerprint_of L bs)"
    using fingerprint_of_hex by (auto simp: list_all_iff)
qed

section \<open>A store to compose\<close>

definition sample_bundle :: string where
  "sample_bundle = concat (map to_pem (replicate 50 [1]))"

definition sample_addition :: addition where
  "sample_addition = \<lparr>add_name = ''corp'', add_der = [2], add_purposes = []\<rparr>"

lemma from_pem_sample: "from_pem sample_bundle = replicate 50 [1]"
  unfolding sample_bundle_def by (rule from_pem_blocks)

lemma sample_parses: "\<exists>p. parse sample_lib [n] (Some 5) = Inr p" "\<exists>p. parse sample_lib [n] None = Inr p"
  using sample_parse [of "[n]"] by (auto simp: parse_Inr_iff)

lemma sample_fingerprints: "fingerprint_of sample_lib [1] \<noteq> fingerprint_of sample_lib [2]"
proof -
  have "hd (tl (fingerprint_of sample_lib [1])) = hex_digit 1" "hd (tl (fingerprint_of sample_lib [2])) = hex_digit 2"
    by (simp_all add: fingerprint_of_def sample_lib_def hex_byte_def)
  moreover have "hex_digit 1 \<noteq> hex_digit 2" by (simp add: hex_digit_def)
  ultimately show ?thesis by metis
qed

lemma sample_offered:
  "entry_fingerprint ` set (offered sample_lib sample_bundle [sample_addition] (Some 5)) =
     {fingerprint_of sample_lib [1], fingerprint_of sample_lib [2]}"
proof -
  have "{d \<in> set (from_pem sample_bundle). \<exists>p. parse sample_lib d None = Inr p} = {[1]}"
    using sample_parses(2) by (auto simp: from_pem_sample)
  moreover have "{d \<in> add_der ` set [sample_addition]. \<exists>p. parse sample_lib d (Some 5) = Inr p} = {[2]}"
    using sample_parses(1) by (auto simp: sample_addition_def)
  ultimately show ?thesis unfolding offered_identities by auto
qed

text \<open>Composed with the addition distrusted, and without any distrust.\<close>

lemma sample_compose:
  assumes "distrust = [] \<or> distrust = [fingerprint_of sample_lib [2]]"
  shows "\<exists>out. compose sample_lib sample_bundle [sample_addition] distrust (Some 5) = Inr out"
proof -
  have "fingerprint_of sample_lib [1] \<in> entry_fingerprint `
      set (effective sample_lib sample_bundle [sample_addition] distrust (Some 5))"
    using assms sample_fingerprints
    by (auto simp: effective_fingerprints sample_offered normalise_fingerprint_of)
  then have "effective sample_lib sample_bundle [sample_addition] distrust (Some 5) \<noteq> []" by auto
  then show ?thesis
    using compose_outcome [where L = sample_lib and pem = sample_bundle and
        additions = "[sample_addition]" and distrust = distrust and now = "Some 5"]
    by (auto simp: from_pem_sample MINIMUM_SHIPPED_def split: sum.splits)
qed

lemma find_append_Some: "find P xs = Some x \<Longrightarrow> find P (xs @ ys) = Some x"
  by (induction xs) (auto split: if_splits)

lemma sample_compose_any:
  assumes "50 \<le> length ders" and "\<forall>d \<in> set ders. d \<noteq> []"
  shows "\<exists>out. compose sample_lib (concat (map to_pem ders)) [] [] now = Inr out"
proof -
  have pem: "from_pem (concat (map to_pem ders)) = ders" by (rule from_pem_blocks)
  obtain d where d: "d \<in> set ders" "d \<noteq> []" using assms by (cases ders) auto
  then have "d \<in> {d \<in> set (from_pem (concat (map to_pem ders))). \<exists>p. parse sample_lib d None = Inr p}"
    using sample_parse [of d] by (auto simp: pem)
  then have "fingerprint_of sample_lib d \<in> entry_fingerprint `
      set (effective sample_lib (concat (map to_pem ders)) [] [] now)"
    unfolding effective_fingerprints offered_identities by simp
  then have "effective sample_lib (concat (map to_pem ders)) [] [] now \<noteq> []" by auto
  then show ?thesis
    using assms(1) compose_outcome [where L = sample_lib and pem = "concat (map to_pem ders)" and
        additions = "[]" and distrust = "[]" and now = now]
    by (auto simp: pem MINIMUM_SHIPPED_def split: sum.splits)
qed

lemma shipped_inj:
  assumes "inj_on (fingerprint_of L) (set ders)"
  shows "inj_on entry_fingerprint (set (List.map_filter (shipped_entry L) ders))"
proof (rule inj_onI)
  fix e e'
  assume "e \<in> set (List.map_filter (shipped_entry L) ders)" "e' \<in> set (List.map_filter (shipped_entry L) ders)"
  then obtain d d' where d: "d \<in> set ders" "shipped_entry L d = Some e" "d' \<in> set ders" "shipped_entry L d' = Some e'"
    by (auto simp: map_filter_set)
  then have "entry_fingerprint e = fingerprint_of L d" "entry_fingerprint e' = fingerprint_of L d'"
    using shipped_entry_facts parse_fields(2) by metis+
  moreover assume "entry_fingerprint e = entry_fingerprint e'"
  ultimately have "d = d'" using assms d by (auto dest: inj_onD)
  then show "e = e'" using d by simp
qed

lemma effective_order:
  assumes "set (from_pem pem) = set (from_pem pem')" and "inj_on (fingerprint_of L) (set (from_pem pem))"
  shows "effective L pem additions distrust now = effective L pem' additions distrust now"
proof -
  let ?d = "map normalise_fingerprint distrust" and ?a = "List.map_filter (addition_entry L now) additions"
  let ?s = "List.map_filter (shipped_entry L) (from_pem pem)"
  let ?s' = "List.map_filter (shipped_entry L) (from_pem pem')"
  have "set ?s = set ?s'" using assms(1) by (simp add: map_filter_set)
  then have fs: "set (firsts ?d ?s) = set (firsts ?d ?s')"
    using shipped_inj [OF assms(2)] by (intro entries_determined) simp_all
  then have "firsts (rev (map entry_fingerprint (firsts ?d ?s)) @ ?d) ?a
      = firsts (rev (map entry_fingerprint (firsts ?d ?s')) @ ?d) ?a"
    by (intro firsts_cong) simp
  then have "set (firsts ?d (?s @ ?a)) = set (firsts ?d (?s' @ ?a))"
    using fs by (simp add: firsts_append)
  then show ?thesis
    unfolding effective_def offered_def by (intro sort_key_distinct_eq firsts_distinct)
qed

section \<open>Properties\<close>

text \<open>
  C6. Composition is all or nothing, and implements the promised store: it fails exactly when
  the bundle is below the floor or nothing would be left, and otherwise its roots are the
  first usable certificate of every identity that is not distrusted, sorted.
\<close>

theorem compose_refines:
  "case compose L pem additions distrust now of
     Inl _ \<Rightarrow> length (from_pem pem) < MINIMUM_SHIPPED \<or> effective L pem additions distrust now = []
   | Inr out \<Rightarrow> MINIMUM_SHIPPED \<le> length (from_pem pem) \<and>
       c_roots out = effective L pem additions distrust now \<and> c_roots out \<noteq> []"
  by (rule compose_outcome)

text \<open>
  The identities of the composed store are exactly those of the usable shipped
  certificates and the vetted additions, less the distrusted ones; each occurs once, in
  increasing order.
\<close>

theorem compose_identities:
  assumes "compose L pem additions distrust now = Inr out"
  shows "set (map entry_fingerprint (c_roots out)) =
      (fingerprint_of L ` {d \<in> set (from_pem pem). \<exists>p. parse L d None = Inr p} \<union>
       fingerprint_of L ` {d \<in> add_der ` set additions. \<exists>p. parse L d now = Inr p})
      - normalise_fingerprint ` set distrust \<and>
    sorted (map entry_fingerprint (c_roots out)) \<and> distinct (map entry_fingerprint (c_roots out))"
  using assms
  by (simp add: compose_roots effective_fingerprints offered_identities effective_sorted effective_distinct)

theorem compose_identities_witness:
  "\<exists>out. compose sample_lib sample_bundle [sample_addition] [] (Some 5) = Inr out \<and>
     set (map entry_fingerprint (c_roots out)) = {fingerprint_of sample_lib [1], fingerprint_of sample_lib [2]}"
proof -
  obtain out where out: "compose sample_lib sample_bundle [sample_addition] [] (Some 5) = Inr out"
    using sample_compose by blast
  from compose_identities [OF this] show ?thesis
    using out sample_offered by (simp add: offered_identities)
qed

text \<open>
  C1. Distrust is absolute: no root of the composed store has a distrusted fingerprint,
  whether it was shipped or added, and however the fingerprint was spelled.
\<close>

theorem distrust_absolute:
  assumes "compose L pem additions distrust now = Inr out"
    and "r \<in> set (c_roots out)" and "d \<in> set distrust"
  shows "normalise_fingerprint d \<noteq> fingerprint_of L (der (e_parsed r))"
proof -
  have "r \<in> set (offered L pem additions now)" and
    "entry_fingerprint r \<notin> normalise_fingerprint ` set distrust"
    using assms(1,2) firsts_subset effective_fingerprints [of L pem additions distrust now]
    by (auto simp: compose_roots effective_set)
  then obtain d' now' where "parse L d' now' = Inr (e_parsed r)"
    by (auto simp: offered_def map_filter_set dest: shipped_entry_facts addition_entry_facts)
  then have "entry_fingerprint r = fingerprint_of L (der (e_parsed r))" by (simp add: parse_fields)
  then show ?thesis
    using assms(3) \<open>entry_fingerprint r \<notin> normalise_fingerprint ` set distrust\<close> by (metis image_eqI)
qed

theorem distrust_absolute_witness:
  "\<exists>out. compose sample_lib sample_bundle [sample_addition] [fingerprint_of sample_lib [2]] (Some 5) = Inr out
     \<and> (\<forall>r \<in> set (c_roots out). der (e_parsed r) \<noteq> [2])"
proof -
  obtain out where out: "compose sample_lib sample_bundle [sample_addition]
      [fingerprint_of sample_lib [2]] (Some 5) = Inr out"
    using sample_compose by blast
  have "der (e_parsed r) \<noteq> [2]" if "r \<in> set (c_roots out)" for r
    using distrust_absolute [OF out that, of "fingerprint_of sample_lib [2]"]
    by (auto simp: normalise_fingerprint_of)
  then show ?thesis using out by blast
qed

text \<open>
  A distrust takes out what it names and nothing else: composing with one more entry
  filters the store by it.
\<close>

theorem distrust_filters:
  assumes "compose L pem additions distrust now = Inr out"
    and "compose L pem additions (d # distrust) now = Inr out'"
  shows "c_roots out' = filter (\<lambda>r. entry_fingerprint r \<noteq> normalise_fingerprint d) (c_roots out)"
  using assms by (simp add: compose_roots effective_distrust)

theorem distrust_filters_witness:
  "\<exists>out out'. compose sample_lib sample_bundle [sample_addition] [] (Some 5) = Inr out \<and>
     compose sample_lib sample_bundle [sample_addition] [fingerprint_of sample_lib [2]] (Some 5) = Inr out' \<and>
     c_roots out' = filter (\<lambda>r. entry_fingerprint r \<noteq> fingerprint_of sample_lib [2]) (c_roots out)"
proof -
  obtain out where out: "compose sample_lib sample_bundle [sample_addition] [] (Some 5) = Inr out"
    using sample_compose by blast
  obtain out' where out': "compose sample_lib sample_bundle [sample_addition]
      [fingerprint_of sample_lib [2]] (Some 5) = Inr out'"
    using sample_compose by blast
  show ?thesis
    using distrust_filters [OF out out'] out out' by (simp add: normalise_fingerprint_of)
qed

text \<open>
  A fingerprint pasted as \<open>openssl\<close> prints it, in upper-case hex with colons, names the
  certificate it was printed from; and normalising is idempotent.
\<close>

theorem normalise_pasted:
  "normalise_fingerprint (join_colon (map hex_byte_upper (sha256 L bs))) = fingerprint_of L bs \<and>
   normalise_fingerprint (fingerprint_of L bs) = fingerprint_of L bs"
proof -
  have "concat (map (normalise_fingerprint \<circ> hex_byte_upper) bs) = concat (map hex_byte bs)" for bs
    by (induction bs) (simp_all add: normalise_hex_upper)
  then show ?thesis by (simp add: normalise_join_colon normalise_fingerprint_of) (simp add: fingerprint_of_def)
qed

text \<open>
  The package wins: a certificate the shipped bundle holds is listed as shipped, with the
  shipped purpose, whatever an addition of the same certificate says.
\<close>

theorem shipped_first:
  assumes "compose L pem additions distrust now = Inr out" and "r \<in> set (c_roots out)"
    and "d \<in> set (from_pem pem)" and "parse L d None = Inr p"
    and "fingerprint_of L d = entry_fingerprint r"
  shows "e_source r = Shipped \<and> e_name r = None \<and> e_purposes r = [SERVER_AUTH]"
proof -
  let ?s = "List.map_filter (shipped_entry L) (from_pem pem)"
  have "find (\<lambda>e. entry_fingerprint e = entry_fingerprint r) (offered L pem additions now) = Some r"
    using assms(1,2) by (auto simp: compose_roots effective_set intro: firsts_first)
  moreover have "\<exists>e \<in> set ?s. entry_fingerprint e = entry_fingerprint r"
    using assms(3,4,5) shipped_entry_identity [of L d "entry_fingerprint r"]
    by (auto simp: map_filter_set)
  then obtain e where e: "find (\<lambda>e. entry_fingerprint e = entry_fingerprint r) ?s = Some e"
    by (metis (mono_tags, lifting) find_None_iff not_None_eq)
  then have "find (\<lambda>e. entry_fingerprint e = entry_fingerprint r) (offered L pem additions now) = Some e"
    by (simp add: offered_def find_append_Some)
  ultimately have "r = e" by simp
  moreover have "e \<in> set ?s" using e by (auto simp: find_Some_iff)
  ultimately show ?thesis by (auto simp: map_filter_set dest: shipped_entry_facts)
qed

theorem shipped_first_witness:
  "\<exists>out. compose sample_lib sample_bundle [sample_addition\<lparr>add_der := [1], add_purposes := [''X'']\<rparr>] [] (Some 5)
       = Inr out \<and> (\<forall>r \<in> set (c_roots out). e_purposes r = [SERVER_AUTH])"
proof -
  let ?a = "[sample_addition\<lparr>add_der := [1], add_purposes := [''X'']\<rparr>]"
  have ids: "entry_fingerprint ` set (offered sample_lib sample_bundle ?a (Some 5)) = {fingerprint_of sample_lib [1]}"
  proof -
    have "{d \<in> set (from_pem sample_bundle). \<exists>p. parse sample_lib d None = Inr p} = {[1]}"
      using sample_parses(2) by (auto simp: from_pem_sample)
    moreover have "{d \<in> add_der ` set ?a. \<exists>p. parse sample_lib d (Some 5) = Inr p} = {[1]}"
      using sample_parses(1) by auto
    ultimately show ?thesis unfolding offered_identities by simp
  qed
  then have "effective sample_lib sample_bundle ?a [] (Some 5) \<noteq> []"
    using effective_fingerprints [where L = sample_lib and pem = sample_bundle and additions = ?a
        and distrust = "[]" and now = "Some 5"] by auto
  then obtain out where out: "compose sample_lib sample_bundle ?a [] (Some 5) = Inr out"
    using compose_outcome [where L = sample_lib and pem = sample_bundle and additions = ?a
        and distrust = "[]" and now = "Some 5"]
    by (auto simp: from_pem_sample MINIMUM_SHIPPED_def split: sum.splits)
  have "e_purposes r = [SERVER_AUTH]" if r: "r \<in> set (c_roots out)" for r
  proof -
    have "entry_fingerprint r \<in> entry_fingerprint ` set (effective sample_lib sample_bundle ?a [] (Some 5))"
      using r by (simp add: compose_roots [OF out])
    then have "fingerprint_of sample_lib [1] = entry_fingerprint r"
      unfolding effective_fingerprints ids by simp
    then show ?thesis
      using shipped_first [OF out r, of "[1]"] sample_parses(2) [of 1] by (auto simp: from_pem_sample)
  qed
  then show ?thesis using out by blast
qed

text \<open>
  An added root was vetted against the clock: it comes from an addition of its name whose
  bytes are an unexpired CA certificate.
\<close>

theorem added_vetted:
  assumes "compose L pem additions distrust (Some t) = Inr out" and "r \<in> set (c_roots out)"
    and "e_source r = Added"
  shows "t < not_after (e_parsed r) \<and>
    (\<exists>a c. a \<in> set additions \<and> e_name r = Some (add_name a) \<and> der (e_parsed r) = add_der a \<and>
       from_der L (add_der a) = Inr c \<and> is_ca L c)"
proof -
  have "r \<in> set (offered L pem additions (Some t))"
    using assms(1,2) firsts_subset by (auto simp: compose_roots effective_set)
  then obtain a where "a \<in> set additions" "addition_entry L (Some t) a = Some r"
    using assms(3) by (auto simp: offered_def map_filter_set dest: shipped_entry_facts)
  then show ?thesis using addition_entry_facts [of L "Some t" a r] by (auto simp: parse_Inr_iff)
qed

theorem added_vetted_witness:
  "\<exists>out r. compose sample_lib sample_bundle [sample_addition] [] (Some 5) = Inr out \<and>
     r \<in> set (c_roots out) \<and> e_source r = Added \<and> 5 < not_after (e_parsed r)"
proof -
  obtain out where out: "compose sample_lib sample_bundle [sample_addition] [] (Some 5) = Inr out"
    using sample_compose by blast
  have "fingerprint_of sample_lib [2] \<in> entry_fingerprint ` set (c_roots out)"
    using sample_offered by (simp add: compose_roots [OF out] effective_fingerprints)
  then obtain r where r: "r \<in> set (c_roots out)" "entry_fingerprint r = fingerprint_of sample_lib [2]"
    by auto
  then have "r \<in> set (offered sample_lib sample_bundle [sample_addition] (Some 5))"
    using firsts_subset by (auto simp: compose_roots [OF out] effective_set)
  then have "e_source r = Added"
    using r(2) sample_fingerprints shipped_entry_facts [of sample_lib "[1]" r]
    by (auto simp: offered_def map_filter_set from_pem_sample parse_fields map_filter_simps
        dest: addition_entry_facts split: option.splits)
  then show ?thesis using added_vetted [OF out r(1)] out r(1) by blast
qed

text \<open>
  The counters are exact: every certificate of the bundle and every addition is counted
  once, as usable or as skipped, and every distrust is counted.
\<close>

theorem compose_counts:
  assumes "compose L pem additions distrust now = Inr out"
  shows "c_shipped out = word_of_nat (length (filter (\<lambda>d. shipped_entry L d \<noteq> None) (from_pem pem))) \<and>
    c_added out = word_of_nat (length (filter (\<lambda>a. addition_entry L now a \<noteq> None) additions)) \<and>
    c_shipped out + c_added out + c_skipped out = word_of_nat (length (from_pem pem) + length additions) \<and>
    c_distrusted out = word_of_nat (length distrust)"
proof -
  have split: "length (filter P xs) + length (filter (\<lambda>x. \<not> P x) xs) = length xs" for P and xs :: "'x list"
    by (rule sum_length_filter_compl)
  have "c_shipped out + c_added out + c_skipped out = word_of_nat (
      (length (filter (\<lambda>d. shipped_entry L d \<noteq> None) (from_pem pem)) +
       length (filter (\<lambda>d. \<not> shipped_entry L d \<noteq> None) (from_pem pem))) +
      (length (filter (\<lambda>a. addition_entry L now a \<noteq> None) additions) +
       length (filter (\<lambda>a. \<not> addition_entry L now a \<noteq> None) additions)))"
    using compose_counters [OF assms] by simp
  then show ?thesis using compose_counters [OF assms] by (simp only: split)
qed

theorem compose_counts_witness:
  "\<exists>out. compose sample_lib sample_bundle [sample_addition] [] (Some 5) = Inr out \<and>
     c_shipped out + c_added out + c_skipped out = 51 \<and> c_distrusted out = 0"
proof -
  obtain out where out: "compose sample_lib sample_bundle [sample_addition] [] (Some 5) = Inr out"
    using sample_compose by blast
  moreover have "length (from_pem sample_bundle) + length [sample_addition] = 51"
    by (simp add: from_pem_sample)
  then have "c_shipped out + c_added out + c_skipped out = word_of_nat 51 \<and>
      c_distrusted out = word_of_nat (length ([] :: string list))"
    using compose_counts [OF out] by metis
  moreover have "word_of_nat 51 = (51 :: u64)" "word_of_nat (length ([] :: string list)) = (0 :: u64)"
    by simp_all
  ultimately show ?thesis by metis
qed

text \<open>
  The rendering is stable: the order in which the bundle lists its certificates does not
  show in the store, as long as no two of them share a hash.
\<close>

theorem compose_deterministic:
  assumes "compose L pem additions distrust now = Inr out"
    and "compose L pem' additions distrust now = Inr out'"
    and "set (from_pem pem) = set (from_pem pem')"
    and "inj_on (fingerprint_of L) (set (from_pem pem))"
  shows "c_roots out = c_roots out'"
  by (simp add: compose_roots [OF assms(1)] compose_roots [OF assms(2)] effective_order [OF assms(3,4)])

theorem compose_deterministic_witness:
  "\<exists>out out'. compose sample_lib (concat (map to_pem ([3] # replicate 50 [1]))) [] [] None = Inr out \<and>
     compose sample_lib (concat (map to_pem (replicate 50 [1] @ [[3]]))) [] [] None = Inr out' \<and>
     c_roots out = c_roots out'"
proof -
  let ?a = "[3] # replicate 50 [1] :: bytes list" and ?b = "replicate 50 [1] @ [[3]] :: bytes list"
  obtain out where out: "compose sample_lib (concat (map to_pem ?a)) [] [] None = Inr out"
    using sample_compose_any [of ?a] by auto
  obtain out' where out': "compose sample_lib (concat (map to_pem ?b)) [] [] None = Inr out'"
    using sample_compose_any [of ?b] by auto
  have "hd (tl (fingerprint_of sample_lib [1])) = hex_digit 1" "hd (tl (fingerprint_of sample_lib [3])) = hex_digit 3"
    by (simp_all add: fingerprint_of_def sample_lib_def hex_byte_def)
  moreover have "hex_digit 1 \<noteq> hex_digit 3" by (simp add: hex_digit_def)
  ultimately have "fingerprint_of sample_lib [1] \<noteq> fingerprint_of sample_lib [3]" by metis
  then have "inj_on (fingerprint_of sample_lib) (set ?a)" by auto
  then have "c_roots out = c_roots out'"
    using compose_deterministic [OF out out'] unfolding from_pem_blocks by simp
  then show ?thesis using out out' by blast
qed

end
