(* ===== verification/RootEvents.thy ===== *)
theory RootEvents
  imports Store Msgpack
begin

text \<open>
  The records of root changes (\<open>trustd/src/audit.rs\<close>): the difference of two compositions, a
  purpose as an enumeration value, the payload of a record, and the writing of records under
  the emission policy. The event crate (policy and emission) is a parameter.
\<close>

section \<open>The model\<close>

datatype Change = ChangeAdded | ChangeRemoved | ChangeDistrusted

fun event_type :: "Change \<Rightarrow> string" where
  "event_type ChangeAdded = ''trustd.root.added''"
| "event_type ChangeRemoved = ''trustd.root.removed''"
| "event_type ChangeDistrusted = ''trustd.root.distrusted''"

text \<open>The two loops of \<open>changes\<close>: over the new set, then over the old one.\<close>

fun added_loop :: "string set \<Rightarrow> (Change \<times> entry) list \<Rightarrow> entry list \<Rightarrow> (Change \<times> entry) list" where
  "added_loop before out [] = out"
| "added_loop before out (e # es) =
     added_loop before (if entry_fingerprint e \<notin> before then out @ [(ChangeAdded, e)] else out) es"

fun left_loop ::
  "string set \<Rightarrow> string set \<Rightarrow> (Change \<times> entry) list \<Rightarrow> entry list \<Rightarrow> (Change \<times> entry) list" where
  "left_loop after distrusted out [] = out"
| "left_loop after distrusted out (e # es) =
     left_loop after distrusted
       (if entry_fingerprint e \<notin> after
        then out @ [(if entry_fingerprint e \<in> distrusted then ChangeDistrusted else ChangeRemoved, e)]
        else out) es"

definition changes :: "entry list \<Rightarrow> entry list \<Rightarrow> string list \<Rightarrow> (Change \<times> entry) list" where
  "changes old new distrust =
     (let before = set (map entry_fingerprint old);
          after = set (map entry_fingerprint new);
          distrusted = set (map normalise_fingerprint distrust)
      in left_loop after distrusted (added_loop before [] new) old)"

text \<open>
  A purpose in kebab case. A character that is not ASCII is a run of bytes that are not ASCII
  alphanumeric, and a run of them does what one does.
\<close>

definition purpose_char :: "string \<times> bool \<times> bool \<Rightarrow> char \<Rightarrow> string \<times> bool \<times> bool" where
  "purpose_char state c =
     (let (out, previous_lower, pending_hyphen) = state
      in if is_ascii_alphanumeric c then
           ((if (pending_hyphen \<or> (previous_lower \<and> is_ascii_upper c)) \<and> out \<noteq> [] then out @ ''-'' else out)
              @ [to_ascii_lower c],
            is_ascii_lower c \<or> is_ascii_digit c, False)
         else (out, False, True))"

definition purpose_value :: "string \<Rightarrow> string option" where
  "purpose_value purpose =
     (let (out, _, _) = foldl purpose_char ([], False, False) purpose
      in if out \<noteq> [] then Some out else None)"

fun purposes_loop :: "string list \<Rightarrow> string list \<Rightarrow> string list \<Rightarrow> string list" where
  "purposes_loop seen purposes [] = purposes"
| "purposes_loop seen purposes (p # ps) =
     (let folded = map to_ascii_lower p
      in if folded \<in> set seen then purposes_loop seen purposes ps
         else purposes_loop (seen @ [folded])
                (case purpose_value p of
                   None \<Rightarrow> purposes
                 | Some v \<Rightarrow> if v \<notin> set purposes then purposes @ [v] else purposes) ps)"

definition payload_tokens :: "lib \<Rightarrow> entry \<Rightarrow> tok list" where
  "payload_tokens L entry =
     (let purposes = purposes_loop [] [] (e_purposes entry)
      in [MapHdr 1, Str ''object'', MapHdr 1, Str ''certificate'', MapHdr 3,
          Str ''digest'', Bin (sha256 L (der (e_parsed entry))),
          Str ''name'', Str (subject (e_parsed entry)),
          Str ''purposes'', ArrHdr (length purposes mod 2 ^ 32)] @ map Str purposes)"

definition root_payload :: "('r, 'e) msgpack \<Rightarrow> lib \<Rightarrow> entry \<Rightarrow> 'e + bytes" where
  "root_payload M L entry = to_bytes M (payload_tokens L entry)"

text \<open>
  \<open>record\<close>, as the events it emits. \<open>enabled\<close> is the policy view, if there is one; \<open>emit\<close> is
  the emission, whose failure is logged and goes no further. The second component holds
  the entries a warning was logged for.
\<close>

definition record_one ::
  "('r, 'e) msgpack \<Rightarrow> lib \<Rightarrow> (string \<Rightarrow> 'e + bool) option \<Rightarrow> (string \<Rightarrow> bytes \<Rightarrow> 'e + unit) \<Rightarrow>
   (string \<times> bytes) list \<times> entry list \<Rightarrow> Change \<times> entry \<Rightarrow> (string \<times> bytes) list \<times> entry list" where
  "record_one M L policy emit state change =
     (let (emitted, warned) = state; (c, entry) = change;
          enabled = (case policy of None \<Rightarrow> Inr True | Some p \<Rightarrow> p (event_type c));
          result = bindE enabled (\<lambda>on.
            if on then bindE (root_payload M L entry) (\<lambda>p.
              bindE (emit (event_type c) p) (\<lambda>_. Inr [(event_type c, p)]))
            else Inr [])
      in case result of
           Inr es \<Rightarrow> (emitted @ es, warned)
         | Inl e \<Rightarrow> (emitted, warned @ [entry]))"

definition record_changes ::
  "('r, 'e) msgpack \<Rightarrow> lib \<Rightarrow> (string \<Rightarrow> 'e + bool) option \<Rightarrow> (string \<Rightarrow> bytes \<Rightarrow> 'e + unit) \<Rightarrow>
   (Change \<times> entry) list \<Rightarrow> (string \<times> bytes) list \<times> entry list" where
  "record_changes M L policy emit chs = foldl (record_one M L policy emit) ([], []) chs"

section \<open>Changes: lemmas\<close>

lemma added_loop_eq:
  "added_loop before out es = out @ map (Pair ChangeAdded) (filter (\<lambda>e. entry_fingerprint e \<notin> before) es)"
  by (induction es arbitrary: out) simp_all

lemma left_loop_eq:
  "left_loop after distrusted out es = out @
     map (\<lambda>e. (if entry_fingerprint e \<in> distrusted then ChangeDistrusted else ChangeRemoved, e))
       (filter (\<lambda>e. entry_fingerprint e \<notin> after) es)"
  by (induction es arbitrary: out) simp_all

lemma changes_eq:
  "changes old new distrust =
     map (Pair ChangeAdded) (filter (\<lambda>e. entry_fingerprint e \<notin> entry_fingerprint ` set old) new) @
     map (\<lambda>e. (if entry_fingerprint e \<in> normalise_fingerprint ` set distrust
               then ChangeDistrusted else ChangeRemoved, e))
       (filter (\<lambda>e. entry_fingerprint e \<notin> entry_fingerprint ` set new) old)"
  by (simp add: changes_def added_loop_eq left_loop_eq Let_def)

text \<open>Replaying a record stream on a set of fingerprints.\<close>

fun replay :: "string set \<Rightarrow> (Change \<times> entry) list \<Rightarrow> string set" where
  "replay fps [] = fps"
| "replay fps ((c, e) # chs) =
     replay (if c = ChangeAdded then insert (entry_fingerprint e) fps else fps - {entry_fingerprint e}) chs"

lemma replay_append: "replay fps (xs @ ys) = replay (replay fps xs) ys"
  by (induction fps xs rule: replay.induct) simp_all

lemma replay_added: "replay fps (map (Pair ChangeAdded) es) = fps \<union> entry_fingerprint ` set es"
  by (induction es arbitrary: fps) auto

lemma replay_left:
  "(\<And>e. f e \<noteq> ChangeAdded) \<Longrightarrow> replay fps (map (\<lambda>e. (f e, e)) es) = fps - entry_fingerprint ` set es"
  by (induction es arbitrary: fps) auto

lemma replay_changes:
  "replay (entry_fingerprint ` set old) (changes old new distrust) = entry_fingerprint ` set new"
proof -
  have "(if entry_fingerprint e \<in> normalise_fingerprint ` set distrust
      then ChangeDistrusted else ChangeRemoved) \<noteq> ChangeAdded" for e by simp
  note left = replay_left [where f = "\<lambda>e. if entry_fingerprint e \<in> normalise_fingerprint ` set distrust
      then ChangeDistrusted else ChangeRemoved", OF this]
  have sub: "entry_fingerprint ` set (filter (\<lambda>e. entry_fingerprint e \<notin> X) es) = entry_fingerprint ` set es - X"
    for X es by auto
  show ?thesis unfolding changes_eq replay_append replay_added left sub by blast
qed

section \<open>Kebab case: lemmas\<close>

text \<open>Kebab case: nonempty words of lower-case letters and digits, joined by single hyphens.\<close>

definition kebab_char :: "char \<Rightarrow> bool" where
  "kebab_char c \<longleftrightarrow> is_ascii_lower c \<or> is_ascii_digit c"

fun kebab :: "string \<Rightarrow> bool" where
  "kebab [] = False"
| "kebab [c] = kebab_char c"
| "kebab (c # d # s) = (if d = CHR ''-'' then kebab_char c \<and> kebab s else kebab_char c \<and> kebab (d # s))"

lemma kebab_char_lower: "is_ascii_alphanumeric c \<Longrightarrow> kebab_char (to_ascii_lower c)"
  unfolding kebab_char_def is_ascii_lower_def is_ascii_digit_def ord_to_ascii_lower
  by (auto simp: is_ascii_alphanumeric_def is_ascii_upper_def is_ascii_lower_def is_ascii_digit_def)

lemma kebab_char_hyphen: "kebab_char c \<Longrightarrow> c \<noteq> CHR ''-''"
  by (auto simp: kebab_char_def ascii_defs)

lemma kebab_snoc: "kebab s \<Longrightarrow> kebab_char c \<Longrightarrow> kebab (s @ [c]) \<and> kebab (s @ [CHR ''-'', c])"
  by (induction s rule: kebab.induct) (auto simp: kebab_char_hyphen split: if_splits)

lemma purpose_char_inv:
  assumes "purpose_char (out, l, p) c = (out', l', p')" and "out = [] \<or> kebab out"
  shows "(out' = [] \<or> kebab out') \<and>
    filter (\<lambda>x. x \<noteq> CHR ''-'') out' = filter (\<lambda>x. x \<noteq> CHR ''-'') out @ normalise_fingerprint [c]"
proof (cases "is_ascii_alphanumeric c")
  case True
  then have k: "kebab_char (to_ascii_lower c)" by (rule kebab_char_lower)
  then have "to_ascii_lower c \<noteq> CHR ''-''" by (rule kebab_char_hyphen)
  then show ?thesis
    using assms True k kebab_snoc [of out "to_ascii_lower c"]
    by (auto simp: purpose_char_def normalise_fingerprint_def split: if_splits)
next
  case False
  then show ?thesis using assms by (auto simp: purpose_char_def normalise_fingerprint_def)
qed

lemma purpose_fold:
  assumes "foldl purpose_char (out, l, p) s = (out', l', p')" and "out = [] \<or> kebab out"
  shows "(out' = [] \<or> kebab out') \<and>
    filter (\<lambda>x. x \<noteq> CHR ''-'') out' = filter (\<lambda>x. x \<noteq> CHR ''-'') out @ normalise_fingerprint s"
  using assms
proof (induction s arbitrary: out l p)
  case Nil
  then show ?case by (simp add: normalise_fingerprint_def)
next
  case (Cons c s)
  obtain o1 l1 p1 where 1: "purpose_char (out, l, p) c = (o1, l1, p1)" by (metis prod_cases3)
  note inv = purpose_char_inv [OF 1 Cons.prems(2)]
  have "foldl purpose_char (o1, l1, p1) s = (out', l', p')" using Cons.prems(1) 1 by simp
  then show ?case using Cons.IH [of o1 l1 p1] inv normalise_append [of "[c]" s] by simp
qed

lemma purpose_value_spec:
  "case purpose_value purpose of
     None \<Rightarrow> normalise_fingerprint purpose = []
   | Some v \<Rightarrow> kebab v \<and> filter (\<lambda>c. c \<noteq> CHR ''-'') v = normalise_fingerprint purpose"
proof -
  obtain out l p where f: "foldl purpose_char ([], False, False) purpose = (out, l, p)"
    by (metis prod_cases3)
  then show ?thesis using purpose_fold [OF f] by (auto simp: purpose_value_def)
qed


section \<open>Records: lemmas\<close>

lemma record_one_ok:
  assumes "root_payload M L e = Inr p" and "emit (event_type c) p = Inr ()"
    and "policy = None \<or> (\<exists>f. policy = Some f \<and> f (event_type c) = Inr True)"
  shows "record_one M L policy emit (emitted, warned) (c, e) = (emitted @ [(event_type c, p)], warned)"
  using assms by (auto simp: record_one_def)

lemma purpose_char_length: "length (fst (purpose_char s c)) \<le> length (fst s) + 2"
  by (cases s) (simp add: purpose_char_def)

lemma purpose_fold_length: "length (fst (foldl purpose_char s cs)) \<le> length (fst s) + 2 * length cs"
proof (induction cs arbitrary: s)
  case (Cons c cs)
  have "length (fst (foldl purpose_char (purpose_char s c) cs)) \<le> length (fst (purpose_char s c)) + 2 * length cs"
    by (rule Cons.IH)
  then show ?case using purpose_char_length [of s c] by simp
qed simp

lemma purpose_value_length: "purpose_value p = Some v \<Longrightarrow> length v \<le> 2 * length p"
  using purpose_fold_length [of "([], False, False)" p]
  by (auto simp: purpose_value_def split: prod.splits if_splits)

lemma purpose_value_kebab: "purpose_value p = Some v \<Longrightarrow> kebab v"
  using purpose_value_spec [of p] by simp

lemma kebab_chars: "kebab v \<Longrightarrow> c \<in> set v \<Longrightarrow> kebab_char c \<or> c = CHR ''-''"
  by (induction v rule: kebab.induct) (auto split: if_splits)

lemma kebab_utf8: "kebab v \<Longrightarrow> utf8 v"
proof (rule utf8_ascii)
  assume "kebab v"
  then show "list_all (\<lambda>c. ord c < 0x80) v"
    using kebab_chars by (force simp: list_all_iff kebab_char_def ascii_defs)
qed

lemma purposes_loop_props:
  assumes "distinct purposes" and "list_all P purposes"
    and "\<forall>p \<in> set ps. \<forall>v. purpose_value p = Some v \<longrightarrow> P v"
  shows "distinct (purposes_loop seen purposes ps) \<and> list_all P (purposes_loop seen purposes ps) \<and>
    length (purposes_loop seen purposes ps) \<le> length purposes + length ps"
  using assms
proof (induction seen purposes ps rule: purposes_loop.induct)
  case (2 seen purposes p ps)
  show ?case
  proof (cases "map to_ascii_lower p \<in> set seen")
    case True
    have "distinct (purposes_loop seen purposes ps) \<and> list_all P (purposes_loop seen purposes ps) \<and>
        length (purposes_loop seen purposes ps) \<le> length purposes + length ps"
      using "2.IH"(1) [OF refl True] "2.prems" by simp
    then show ?thesis using True by (auto simp: Let_def)
  next
    case False
    let ?next = "case purpose_value p of None \<Rightarrow> purposes
      | Some v \<Rightarrow> if v \<notin> set purposes then purposes @ [v] else purposes"
    have "distinct ?next \<and> list_all P ?next \<and> length ?next \<le> Suc (length purposes)"
      using "2.prems" by (auto split: option.splits)
    then have "distinct (purposes_loop (seen @ [map to_ascii_lower p]) ?next ps) \<and>
        list_all P (purposes_loop (seen @ [map to_ascii_lower p]) ?next ps) \<and>
        length (purposes_loop (seen @ [map to_ascii_lower p]) ?next ps) \<le> length ?next + length ps"
      using "2.IH"(2) [OF refl False] "2.prems"(3) by simp
    moreover have "length ?next \<le> Suc (length purposes)" by (simp split: option.splits)
    ultimately show ?thesis using False by (simp add: Let_def)
  qed
qed simp

text \<open>An entry whose record is written: text as Rust has it, lengths a header can announce.\<close>

definition entry_ok :: "lib \<Rightarrow> entry \<Rightarrow> bool" where
  "entry_ok L e \<longleftrightarrow> utf8 (subject (e_parsed e)) \<and> length (subject (e_parsed e)) < 2 ^ 32 \<and>
     length (sha256 L (der (e_parsed e))) = 32 \<and> length (e_purposes e) < 2 ^ 32 \<and>
     list_all (\<lambda>p. 2 * length p < 2 ^ 32) (e_purposes e)"

lemma payload_complete:
  assumes "entry_ok L e"
  shows "complete_value (payload_tokens L e)"
proof -
  let ?ps = "purposes_loop [] [] (e_purposes e)"
  have "v \<in> set ?ps \<Longrightarrow> length v < 2 ^ 32 \<and> utf8 v" for v
    using purposes_loop_props [of "[]" "\<lambda>v. length v < 2 ^ 32 \<and> utf8 v" "e_purposes e" "[]"] assms
      purpose_value_length purpose_value_kebab kebab_utf8
    by (force simp: entry_ok_def list_all_iff)
  moreover have "length ?ps < 2 ^ 32"
    using purposes_loop_props [of "[]" "\<lambda>_. True" "e_purposes e" "[]"] assms
    by (simp add: entry_ok_def list_all_iff)
  ultimately show ?thesis
    using due_strs [of ?ps "length ?ps" "[]"] assms
    by (simp add: complete_value_def payload_tokens_def Let_def due_Cons utf8_ascii entry_ok_def list_all_iff)
qed

section \<open>Properties\<close>

text \<open>
  C38. The records account for the store: replaying those of a change on the old set of
  fingerprints gives the new set, and there are none exactly when the sets are the same.
\<close>

theorem changes_account:
  "replay (entry_fingerprint ` set old) (changes old new distrust) = entry_fingerprint ` set new \<and>
   (changes old new distrust = [] \<longleftrightarrow> entry_fingerprint ` set old = entry_fingerprint ` set new)"
proof -
  have "changes old new distrust = [] \<longleftrightarrow>
      entry_fingerprint ` set new \<subseteq> entry_fingerprint ` set old \<and>
      entry_fingerprint ` set old \<subseteq> entry_fingerprint ` set new"
    unfolding changes_eq append_is_Nil_conv map_is_Nil_conv filter_empty_conv image_subset_iff not_not
    by (rule refl)
  also have "\<dots> \<longleftrightarrow> entry_fingerprint ` set old = entry_fingerprint ` set new"
    unfolding set_eq_subset by (rule conj_commute)
  finally show ?thesis by (rule conjI [OF replay_changes])
qed

text \<open>
  A departure is recorded as a distrust exactly when a distrust entry, however spelled,
  names it; anything else that left is a removal, and what arrived is an addition.
\<close>

theorem changes_kinds:
  "(c, e) \<in> set (changes old new distrust) \<longleftrightarrow>
     (c = ChangeAdded \<and> e \<in> set new \<and> entry_fingerprint e \<notin> entry_fingerprint ` set old) \<or>
     (c = (if entry_fingerprint e \<in> normalise_fingerprint ` set distrust
           then ChangeDistrusted else ChangeRemoved) \<and>
      e \<in> set old \<and> entry_fingerprint e \<notin> entry_fingerprint ` set new)"
proof -
  have pairs: "(c, e) \<in> set (map (\<lambda>e. (f e, e)) es) \<longleftrightarrow> c = f e \<and> e \<in> set es" for f and es :: "entry list"
    by auto
  show ?thesis
    unfolding changes_eq set_append Un_iff pairs by (simp only: set_filter mem_Collect_eq)
qed

text \<open>
  A purpose's enumeration value is kebab case with the letters and digits of the purpose,
  lower-cased, and a purpose has none exactly when it has no letter or digit.
\<close>

theorem purpose_kebab:
  "case purpose_value purpose of
     None \<Rightarrow> normalise_fingerprint purpose = []
   | Some v \<Rightarrow> kebab v \<and> filter (\<lambda>c. c \<noteq> CHR ''-'') v = normalise_fingerprint purpose"
  by (rule purpose_value_spec)

text \<open>
  A record is always written: the payload of a composed entry is one complete MessagePack
  value, so with the type on and the emission succeeding every change is emitted, in order.
\<close>

theorem changes_recorded:
  assumes "msgpack_laws M" and "\<forall>(c, e) \<in> set chs. entry_ok L e"
    and "\<And>t p. emit t p = Inr ()"
  shows "\<exists>payloads. record_changes M L None emit chs =
      (map (\<lambda>((c, e), p). (event_type c, p)) (zip chs payloads), []) \<and>
    list_all2 (\<lambda>(c, e) p. root_payload M L e = Inr p) chs payloads"
proof -
  have "\<exists>payloads. foldl (record_one M L None emit) (emitted, []) chs =
      (emitted @ map (\<lambda>((c, e), p). (event_type c, p)) (zip chs payloads), []) \<and>
    list_all2 (\<lambda>(c, e) p. root_payload M L e = Inr p) chs payloads" for emitted
    using assms(2)
  proof (induction chs arbitrary: emitted)
    case Nil
    then show ?case by simp
  next
    case (Cons ch chs)
    obtain c e where ch: "ch = (c, e)" by fastforce
    obtain p where p: "root_payload M L e = Inr p"
      using assms(1) payload_complete [of L e] Cons.prems ch
      by (auto simp: msgpack_laws_def root_payload_def)
    have step: "record_one M L None emit (emitted, []) (c, e) = (emitted @ [(event_type c, p)], [])"
      using p assms(3) by (intro record_one_ok) simp_all
    obtain payloads where "foldl (record_one M L None emit) (emitted @ [(event_type c, p)], []) chs =
      ((emitted @ [(event_type c, p)]) @ map (\<lambda>((c, e), p). (event_type c, p)) (zip chs payloads), [])"
      "list_all2 (\<lambda>(c, e) p. root_payload M L e = Inr p) chs payloads"
      using Cons.IH [of "emitted @ [(event_type c, p)]"] Cons.prems by auto
    then show ?case by (intro exI [of _ "p # payloads"]) (simp add: ch step p)
  qed
  from this [of "[]"] show ?thesis by (simp add: record_changes_def)
qed

definition sample_entry :: entry where
  "sample_entry = \<lparr>e_parsed = \<lparr>der = [1], fingerprint = fingerprint_of sample_lib [1],
     subject = ''CN=R'', not_after = 1000, subject_hash_text = ''00000000''\<rparr>,
     e_source = Added, e_name = Some ''corp'', e_purposes = [''ServerAuth'', ''serverauth'']\<rparr>"

lemma sample_entry_ok: "entry_ok sample_lib sample_entry"
  by (simp add: entry_ok_def sample_entry_def sample_lib_def)

theorem changes_recorded_witness:
  "\<exists>p. record_changes wide sample_lib None (\<lambda>_ _. Inr ()) [(ChangeAdded, sample_entry)]
      = ([(''trustd.root.added'', p)], [])"
proof -
  have "\<forall>(c, e) \<in> set [(ChangeAdded, sample_entry)]. entry_ok sample_lib e"
    by (simp add: sample_entry_ok)
  from changes_recorded [OF wide_laws this, of "\<lambda>_ _. Inr ()"]
  show ?thesis by (auto simp: list_all2_Cons1)
qed

end
