(* ===== verification/Config.thy ===== *)
theory Config
  imports Store
begin

text \<open>
  The registry configuration (\<open>trustd/src/config.rs\<close>, \<open>registry_reader.rs\<close>): reading
  \<open>Machine\System\Trust\<close> into a \<open>config\<close>, or failing. The registry itself is the crate
  \<open>peios::registry\<close>: a type \<open>'k\<close> of open keys and the record \<open>registry\<close> of the reader trait's
  four operations, an argument of the definitions. Log lines are not modelled.
\<close>

section \<open>The registry\<close>

datatype value_type = REG_SZ | REG_EXPAND_SZ | REG_BINARY | REG_DWORD | REG_MULTI_SZ | REG_OTHER

record reg_value =
  v_type :: value_type
  v_data :: bytes

record 'k registry =
  query_value :: "'k \<Rightarrow> string \<Rightarrow> io_error + reg_value"
  query_values :: "'k \<Rightarrow> io_error + bytes list"
  subkeys :: "'k \<Rightarrow> (io_error + bytes) list"
  open_key :: "'k option \<Rightarrow> string \<Rightarrow> io_error + 'k"

text \<open>An absent value or key is \<open>None\<close>; any other failure is the reader's.\<close>

definition optional :: "io_error + 'a \<Rightarrow> io_error + 'a option" where
  "optional m =
     (case m of
        Inr a \<Rightarrow> Inr (Some a)
      | Inl e \<Rightarrow> if io_kind e = NotFound then Inr None else Inl e)"

definition read_value :: "'k registry \<Rightarrow> 'k \<Rightarrow> string \<Rightarrow> io_error + reg_value option" where
  "read_value R key name = optional (query_value R key name)"

definition read_names :: "'k registry \<Rightarrow> 'k \<Rightarrow> io_error + bytes list" where
  "read_names R key = mapE (\<lambda>entry. entry) (subkeys R key)"

definition open_child :: "'k registry \<Rightarrow> 'k option \<Rightarrow> string \<Rightarrow> io_error + 'k option" where
  "open_child R parent name = optional (open_key R parent name)"

definition invalid :: "string \<Rightarrow> io_error" where
  "invalid message = IoError InvalidData None message"

definition text_of :: "bytes \<Rightarrow> io_error + string" where
  "text_of bs = (if utf8 (from_bytes bs) then Inr (from_bytes bs)
     else Inl (invalid ''registry text is not UTF-8''))"

text \<open>\<open>slice.split\<close>: the runs between separators, empty ones included.\<close>

fun split_at :: "('a \<Rightarrow> bool) \<Rightarrow> 'a list \<Rightarrow> 'a list list" where
  "split_at P [] = [[]]"
| "split_at P (x # xs) =
     (if P x then [] # split_at P xs
      else (x # hd (split_at P xs)) # tl (split_at P xs))"

definition multi :: "reg_value \<Rightarrow> io_error + string list option" where
  "multi v =
     (case v_type v of
        REG_MULTI_SZ \<Rightarrow>
          bindE (mapE text_of (filter (\<lambda>part. part \<noteq> []) (split_at (\<lambda>b. b = 0) (v_data v))))
            (\<lambda>ss. Inr (Some ss))
      | REG_SZ \<Rightarrow> bindE (text_of (takeWhile (\<lambda>b. b \<noteq> 0) (v_data v))) (\<lambda>s. Inr (Some [s]))
      | REG_EXPAND_SZ \<Rightarrow> bindE (text_of (takeWhile (\<lambda>b. b \<noteq> 0) (v_data v))) (\<lambda>s. Inr (Some [s]))
      | _ \<Rightarrow> Inr None)"

definition strings :: "'k registry \<Rightarrow> 'k \<Rightarrow> string \<Rightarrow> io_error + string list option" where
  "strings R key name =
     bindE (read_value R key name) (\<lambda>v.
       case v of None \<Rightarrow> Inr None | Some v \<Rightarrow> multi v)"

section \<open>The configuration\<close>

datatype Compat = CompatNone | CompatFiles | CompatLive

definition from_dword :: "u32 \<Rightarrow> Compat" where
  "from_dword val = (if val = 0 then CompatNone else if val = 2 then CompatLive else CompatFiles)"

fun as_dword :: "Compat \<Rightarrow> u32" where
  "as_dword CompatNone = 0"
| "as_dword CompatFiles = 1"
| "as_dword CompatLive = 2"

record config =
  g_additions :: "addition list"
  g_distrust :: "string list"
  g_compat :: Compat
  g_control_security :: "bytes option"

definition config_default :: config where
  "config_default = \<lparr>g_additions = [], g_distrust = [], g_compat = CompatFiles, g_control_security = None\<rparr>"

text \<open>One subkey of \<open>Add\<close>: skipped while it has no usable certificate.\<close>

definition add_entry :: "'k registry \<Rightarrow> 'k \<Rightarrow> bytes \<Rightarrow> io_error + addition option" where
  "add_entry R add subkey =
     bindE (text_of subkey) (\<lambda>name.
     bindE (bindE (open_child R (Some add) name)
         (ok_or (invalid ''enumerated certificate key disappeared''))) (\<lambda>entry.
     bindE (read_value R entry ''Certificate'') (\<lambda>certificate.
       case certificate of
         None \<Rightarrow> Inr None
       | Some certificate \<Rightarrow>
           if v_type certificate \<noteq> REG_BINARY \<or> v_data certificate = [] then Inr None
           else bindE (strings R entry ''Purposes'') (\<lambda>purposes.
             Inr (Some \<lparr>add_name = name, add_der = v_data certificate,
               add_purposes = (case purposes of Some ps \<Rightarrow> ps | None \<Rightarrow> [])\<rparr>)))))"

text \<open>One value of \<open>Distrust\<close>: skipped unless its name is a SHA-256 fingerprint.\<close>

definition distrust_entry :: "bytes \<Rightarrow> io_error + string option" where
  "distrust_entry value_name =
     bindE (text_of value_name) (\<lambda>name.
       let fp = normalise_fingerprint name
       in Inr (if length fp \<noteq> 64 \<or> \<not> list_all is_ascii_hexdigit fp then None else Some fp))"

fun push_all :: "('a \<Rightarrow> io_error + 'b option) \<Rightarrow> 'b list \<Rightarrow> 'a list \<Rightarrow> io_error + 'b list" where
  "push_all f out [] = Inr out"
| "push_all f out (x # xs) =
     bindE (f x) (\<lambda>b. push_all f (case b of Some b \<Rightarrow> out @ [b] | None \<Rightarrow> out) xs)"

definition load_additions :: "'k registry \<Rightarrow> 'k \<Rightarrow> io_error + addition list" where
  "load_additions R certificates =
     bindE (open_child R (Some certificates) ''Add'') (\<lambda>add.
       case add of
         None \<Rightarrow> Inr []
       | Some add \<Rightarrow> bindE (read_names R add) (push_all (add_entry R add) []))"

definition load_distrust :: "'k registry \<Rightarrow> 'k \<Rightarrow> io_error + string list" where
  "load_distrust R certificates =
     bindE (open_child R (Some certificates) ''Distrust'') (\<lambda>distrust.
       case distrust of
         None \<Rightarrow> Inr []
       | Some distrust \<Rightarrow> bindE (query_values R distrust) (push_all distrust_entry []))"

definition compat_of :: "reg_value option \<Rightarrow> Compat \<Rightarrow> Compat" where
  "compat_of v otherwise =
     (case v of
        Some v \<Rightarrow>
          if v_type v = REG_DWORD \<and> length (v_data v) = 4
          then from_dword (word_of_nat (le_val (v_data v))) else otherwise
      | None \<Rightarrow> otherwise)"

definition security_of :: "reg_value option \<Rightarrow> bytes option" where
  "security_of v =
     (case v of
        Some v \<Rightarrow> if v_type v = REG_BINARY \<and> v_data v \<noteq> [] then Some (v_data v) else None
      | None \<Rightarrow> None)"

definition load_from :: "'k registry \<Rightarrow> 'k option \<Rightarrow> io_error + config" where
  "load_from R root =
     (case root of
        None \<Rightarrow> Inr config_default
      | Some root \<Rightarrow>
          bindE (read_value R root ''GenerateLinuxTrustFiles'') (\<lambda>mode.
          bindE (read_value R root ''ControlSecurity'') (\<lambda>security.
          let config = config_default\<lparr>g_compat := compat_of mode (g_compat config_default),
                 g_control_security := security_of security\<rparr>
          in bindE (open_child R (Some root) ''Certificates'') (\<lambda>certificates.
             case certificates of
               None \<Rightarrow> Inr config
             | Some certificates \<Rightarrow>
                 bindE (load_additions R certificates) (\<lambda>additions.
                 bindE (load_distrust R certificates) (\<lambda>distrust.
                   Inr (config\<lparr>g_additions := sort_key add_name additions,
                     g_distrust := remdups_adj (sort distrust)\<rparr>)))))))"

definition load :: "'k registry \<Rightarrow> io_error + config" where
  "load R = bindE (open_child R None (''Machine'' @ backslash # ''System'' @ backslash # ''Trust''))
     (load_from R)"

section \<open>Lemmas\<close>

lemma push_all_out:
  assumes "push_all f out xs = Inr ys"
  shows "(\<forall>x \<in> set xs. \<exists>b. f x = Inr b) \<and> set ys = set out \<union> {b. \<exists>x \<in> set xs. f x = Inr (Some b)}"
  using assms
proof (induction xs arbitrary: out)
  case Nil
  then show ?case by simp
next
  case (Cons x xs)
  then obtain b where b: "f x = Inr b"
    and "push_all f (case b of Some b \<Rightarrow> out @ [b] | None \<Rightarrow> out) xs = Inr ys"
    by (auto simp: conv)
  from Cons.IH [OF this(2)] show ?case using b by (cases b) auto
qed

lemma push_all_set:
  "push_all f [] xs = Inr ys \<Longrightarrow>
     (\<forall>x \<in> set xs. \<exists>b. f x = Inr b) \<and> set ys = {b. \<exists>x \<in> set xs. f x = Inr (Some b)}"
  using push_all_out [of f "[]"] by simp

text \<open>It fails exactly when one of the items does.\<close>

lemma push_all_Inl: "x \<in> set xs \<Longrightarrow> f x = Inl e \<Longrightarrow> \<exists>e'. push_all f out xs = Inl e'"
proof (induction xs arbitrary: out)
  case (Cons y xs)
  then show ?case by (cases "f y") auto
qed simp

lemma distrust_entry_fingerprint:
  assumes "distrust_entry name = Inr (Some fp)"
  shows "length fp = 64 \<and> list_all is_ascii_hexdigit fp \<and> normalise_fingerprint fp = fp"
  using assms by (auto simp: distrust_entry_def conv Let_def normalise_idem split: if_splits)

lemma load_Inr:
  assumes "load R = Inr c"
  shows "(c = config_default \<or> (\<exists>root. open_key R None
      (''Machine'' @ backslash # ''System'' @ backslash # ''Trust'') = Inr root \<and> load_from R (Some root) = Inr c))"
  using assms by (auto simp: load_def conv open_child_def optional_def load_from_def split: sum.splits if_splits option.splits)

lemma load_from_parts:
  assumes "load_from R (Some root) = Inr c"
  shows "g_additions c = [] \<and> g_distrust c = [] \<or>
    (\<exists>certificates additions distrust. open_key R (Some root) ''Certificates'' = Inr certificates \<and>
       load_additions R certificates = Inr additions \<and> load_distrust R certificates = Inr distrust \<and>
       g_additions c = sort_key add_name additions \<and> g_distrust c = remdups_adj (sort distrust))"
  using assms
  by (auto simp: load_from_def conv Let_def open_child_def optional_def config_default_def
      split: option.splits sum.splits if_splits)

lemma load_distrust_fingerprints:
  assumes "load_distrust R certificates = Inr distrust" and "fp \<in> set distrust"
  shows "length fp = 64 \<and> list_all is_ascii_hexdigit fp \<and> normalise_fingerprint fp = fp"
proof -
  obtain names where "push_all distrust_entry [] names = Inr distrust"
    using assms by (auto simp: load_distrust_def conv split: option.splits)
  then obtain name where "distrust_entry name = Inr (Some fp)"
    using push_all_set assms(2) by blast
  then show ?thesis by (rule distrust_entry_fingerprint)
qed

lemma case_Inr_Some:
  "(case x of None \<Rightarrow> Inr None | Some c \<Rightarrow> f c) = Inr (Some a) \<Longrightarrow> \<exists>c. x = Some c \<and> f c = Inr (Some a)"
  by (cases x) auto

lemma add_entry_usable: "add_entry R add name = Inr (Some a) \<Longrightarrow> add_der a \<noteq> []"
  by (auto simp: add_entry_def bindE_Inr_iff dest!: case_Inr_Some split: if_splits)

lemma load_additions_usable:
  assumes "load_additions R certificates = Inr additions" and "a \<in> set additions"
  shows "add_der a \<noteq> []"
proof -
  obtain add names where "push_all (add_entry R add) [] names = Inr additions"
    using assms by (auto simp: load_additions_def conv split: option.splits)
  then obtain name where "add_entry R add name = Inr (Some a)"
    using push_all_set assms(2) by blast
  then show ?thesis by (rule add_entry_usable)
qed

lemma load_parts:
  assumes "load R = Inr c"
  shows "g_additions c = [] \<and> g_distrust c = [] \<or>
    (\<exists>certificates additions distrust.
       load_additions R certificates = Inr additions \<and> load_distrust R certificates = Inr distrust \<and>
       g_additions c = sort_key add_name additions \<and> g_distrust c = remdups_adj (sort distrust))"
  using load_Inr [OF assms] load_from_parts by (fastforce simp: config_default_def)

text \<open>Where the additions and the distrusts are, if they are anywhere.\<close>

definition keys_at :: "'k registry \<Rightarrow> 'k \<Rightarrow> 'k \<Rightarrow> bool" where
  "keys_at R root certificates \<longleftrightarrow>
     open_key R None (''Machine'' @ backslash # ''System'' @ backslash # ''Trust'') = Inr root \<and>
     open_key R (Some root) ''Certificates'' = Inr certificates"

lemma load_at:
  assumes "load R = Inr c" and "keys_at R root certificates"
  shows "\<exists>additions distrust. load_additions R certificates = Inr additions \<and>
    load_distrust R certificates = Inr distrust \<and>
    g_additions c = sort_key add_name additions \<and> g_distrust c = remdups_adj (sort distrust)"
  using assms by (auto simp: load_def conv open_child_def optional_def keys_at_def load_from_def Let_def)

section \<open>A registry\<close>

text \<open>
  Keys are paths; one addition with a certificate, one still being written, one distrust in
  upper case and a value that is no fingerprint.
\<close>

definition sample_pasted :: string where
  "sample_pasted = concat (replicate 32 ''AB'')"

definition no_such :: "io_error + 'a" where
  "no_such = Inl (IoError NotFound None ''no such key'')"

definition sample_registry :: "string list registry" where
  "sample_registry =
     \<lparr>query_value = (\<lambda>key name.
        if key = [''corp'', ''Add''] \<and> name = ''Certificate''
        then Inr \<lparr>v_type = REG_BINARY, v_data = [2]\<rparr> else no_such),
      query_values = (\<lambda>key. if key = [''Distrust'']
        then Inr [as_bytes sample_pasted, as_bytes ''note''] else Inr []),
      subkeys = (\<lambda>key. if key = [''Add''] then [Inr (as_bytes ''corp''), Inr (as_bytes ''half'')] else []),
      open_key = (\<lambda>parent name. case parent of
          None \<Rightarrow> Inr []
        | Some key \<Rightarrow> if name = ''Certificates'' then Inr [] else Inr (name # key))\<rparr>"

lemma sample_names: "text_of (as_bytes ''corp'') = Inr ''corp''" "text_of (as_bytes ''half'') = Inr ''half''"
  "text_of (as_bytes ''note'') = Inr ''note''" "text_of (as_bytes sample_pasted) = Inr sample_pasted"
  by (simp_all add: text_of_def utf8_ascii) (simp add: utf8_ascii sample_pasted_def list_all_iff)

lemma sample_distrust_entries:
  "distrust_entry (as_bytes sample_pasted) = Inr (Some (concat (replicate 32 ''ab'')))"
  "distrust_entry (as_bytes ''note'') = Inr None"
proof -
  have app: "normalise_fingerprint (concat (replicate n ''AB'')) = concat (replicate n ''ab'')" for n
    by (induction n) (simp_all add: normalise_append normalise_fingerprint_def ascii_defs hex_letters)
  have "length (concat (replicate n ''ab'')) = 2 * n" for n by (induction n) simp_all
  moreover have "list_all is_ascii_hexdigit (concat (replicate n ''ab''))" for n
    by (induction n) (simp_all add: ascii_defs)
  moreover have "normalise_fingerprint sample_pasted = concat (replicate 32 ''ab'')"
    by (simp only: sample_pasted_def app)
  ultimately show "distrust_entry (as_bytes sample_pasted) = Inr (Some (concat (replicate 32 ''ab'')))"
    by (simp add: distrust_entry_def sample_names Let_def)
  have "length (normalise_fingerprint ''note'') = 4"
    by (simp add: normalise_fingerprint_def ascii_defs)
  then show "distrust_entry (as_bytes ''note'') = Inr None"
    by (simp add: distrust_entry_def sample_names Let_def)
qed

lemma sample_add_entries:
  "add_entry sample_registry [''Add''] (as_bytes ''corp'') =
     Inr (Some \<lparr>add_name = ''corp'', add_der = [2], add_purposes = []\<rparr>)"
  "add_entry sample_registry [''Add''] (as_bytes ''half'') = Inr None"
  by (simp_all add: add_entry_def sample_names open_child_def optional_def read_value_def strings_def
      no_such_def sample_registry_def)

lemma sample_load:
  "load sample_registry = Inr \<lparr>g_additions = [\<lparr>add_name = ''corp'', add_der = [2], add_purposes = []\<rparr>],
     g_distrust = [concat (replicate 32 ''ab'')], g_compat = CompatFiles, g_control_security = None\<rparr>"
proof -
  have "load_additions sample_registry [] = Inr [\<lparr>add_name = ''corp'', add_der = [2], add_purposes = []\<rparr>]"
  proof -
    have "open_child sample_registry (Some []) ''Add'' = Inr (Some [''Add''])"
      by (simp add: open_child_def optional_def sample_registry_def)
    moreover have "read_names sample_registry [''Add''] = Inr [as_bytes ''corp'', as_bytes ''half'']"
      by (simp add: read_names_def sample_registry_def)
    ultimately show ?thesis by (simp add: load_additions_def sample_add_entries)
  qed
  moreover have "load_distrust sample_registry [] = Inr [concat (replicate 32 ''ab'')]"
  proof -
    have "open_child sample_registry (Some []) ''Distrust'' = Inr (Some [''Distrust''])"
      by (simp add: open_child_def optional_def sample_registry_def)
    moreover have "query_values sample_registry [''Distrust''] = Inr [as_bytes sample_pasted, as_bytes ''note'']"
      by (simp add: sample_registry_def)
    ultimately show ?thesis by (simp add: load_distrust_def sample_distrust_entries)
  qed
  moreover have "open_child sample_registry None p = Inr (Some [])"
    "open_child sample_registry (Some []) ''Certificates'' = Inr (Some [])"
    "read_value sample_registry [] n = Inr None" for p n
    by (simp_all add: open_child_def optional_def read_value_def no_such_def sample_registry_def)
  ultimately show ?thesis
    by (simp add: load_def load_from_def Let_def compat_of_def security_of_def config_default_def)
qed

lemma distinct_dedup: "sorted (xs :: string list) \<Longrightarrow> distinct (remdups_adj xs)"
proof (induction xs rule: remdups_adj.induct)
  case (3 x y xs)
  show ?case
  proof (cases "x = y")
    case False
    then have "x \<notin> set (y # xs)" using "3.prems" by (auto intro: order.antisym)
    then show ?thesis using False 3 by simp
  qed (use 3 in simp)
qed simp_all

lemma sample_keys: "keys_at sample_registry [] []"
  by (simp add: keys_at_def sample_registry_def)

section \<open>Properties\<close>

lemma load_is_normal:
  assumes "load R = Inr c"
  shows "(\<forall>fp \<in> set (g_distrust c). length fp = 64 \<and> list_all is_ascii_hexdigit fp \<and>
        normalise_fingerprint fp = fp) \<and>
    sorted (g_distrust c) \<and> distinct (g_distrust c) \<and>
    (\<forall>a \<in> set (g_additions c). add_der a \<noteq> []) \<and> sorted (map add_name (g_additions c))"
  using load_parts [OF assms]
proof (elim disjE exE conjE)
  fix certificates additions distrust
  assume a: "load_additions R certificates = Inr additions" and d: "load_distrust R certificates = Inr distrust"
    and c: "g_additions c = sort_key add_name additions" "g_distrust c = remdups_adj (sort distrust)"
  show ?thesis
    using load_distrust_fingerprints [OF d] load_additions_usable [OF a]
    by (simp add: c distinct_dedup)
qed simp

text \<open>A key under one that may not be there, and what is listed in it.\<close>

definition below :: "'k registry \<Rightarrow> 'k option \<Rightarrow> string \<Rightarrow> 'k option \<Rightarrow> bool" where
  "below R parent name child \<longleftrightarrow>
     (case parent of None \<Rightarrow> child = None | Some key \<Rightarrow> open_child R (Some key) name = Inr child)"

definition listed :: "('k \<Rightarrow> io_error + 'a list) \<Rightarrow> 'k option \<Rightarrow> 'a list \<Rightarrow> bool" where
  "listed f key xs \<longleftrightarrow> (case key of None \<Rightarrow> xs = [] | Some key \<Rightarrow> f key = Inr xs)"

lemma load_additions_all:
  assumes "load_additions R certificates = Inr additions"
  shows "\<exists>add names. below R (Some certificates) ''Add'' add \<and> listed (read_names R) add names \<and>
    (\<forall>n \<in> set names. \<exists>a. add_entry R (the add) n = Inr a) \<and>
    set additions = {a. \<exists>n \<in> set names. add_entry R (the add) n = Inr (Some a)}"
proof -
  obtain add where add: "open_child R (Some certificates) ''Add'' = Inr add"
    "(case add of None \<Rightarrow> Inr [] | Some add \<Rightarrow> bindE (read_names R add) (push_all (add_entry R add) [])) = Inr additions"
    using assms by (auto simp: load_additions_def bindE_Inr_iff)
  show ?thesis
  proof (cases add)
    case None
    then show ?thesis using add by (intro exI [of _ None] exI [of _ "[]"]) (simp add: below_def listed_def)
  next
    case (Some key)
    then obtain names where n: "read_names R key = Inr names" "push_all (add_entry R key) [] names = Inr additions"
      using add(2) by (auto simp: bindE_Inr_iff)
    show ?thesis using push_all_set [OF n(2)] n(1) add(1) Some
      by (intro exI [of _ "Some key"] exI [of _ names]) (simp add: below_def listed_def)
  qed
qed

lemma load_distrust_all:
  assumes "load_distrust R certificates = Inr fps"
  shows "\<exists>distrust vals. below R (Some certificates) ''Distrust'' distrust \<and> listed (query_values R) distrust vals \<and>
    (\<forall>v \<in> set vals. \<exists>fp. distrust_entry v = Inr fp) \<and>
    set fps = {fp. \<exists>v \<in> set vals. distrust_entry v = Inr (Some fp)}"
proof -
  obtain distrust where d: "open_child R (Some certificates) ''Distrust'' = Inr distrust"
    "(case distrust of None \<Rightarrow> Inr [] | Some key \<Rightarrow> bindE (query_values R key) (push_all distrust_entry [])) = Inr fps"
    using assms by (auto simp: load_distrust_def bindE_Inr_iff)
  show ?thesis
  proof (cases distrust)
    case None
    then show ?thesis using d by (intro exI [of _ None] exI [of _ "[]"]) (simp add: below_def listed_def)
  next
    case (Some key)
    then obtain vals where v: "query_values R key = Inr vals" "push_all distrust_entry [] vals = Inr fps"
      using d(2) by (auto simp: bindE_Inr_iff)
    show ?thesis using push_all_set [OF v(2)] v(1) d(1) Some
      by (intro exI [of _ "Some key"] exI [of _ vals]) (simp add: below_def listed_def)
  qed
qed

lemma load_tree:
  assumes "load R = Inr c"
  shows "\<exists>root certificates add distrust names vals.
    open_child R None (''Machine'' @ backslash # ''System'' @ backslash # ''Trust'') = Inr root \<and>
    below R root ''Certificates'' certificates \<and>
    below R certificates ''Add'' add \<and> below R certificates ''Distrust'' distrust \<and>
    listed (read_names R) add names \<and> listed (query_values R) distrust vals \<and>
    (\<forall>n \<in> set names. \<exists>a. add_entry R (the add) n = Inr a) \<and>
    (\<forall>v \<in> set vals. \<exists>fp. distrust_entry v = Inr fp) \<and>
    set (g_additions c) = {a. \<exists>n \<in> set names. add_entry R (the add) n = Inr (Some a)} \<and>
    set (g_distrust c) = {fp. \<exists>v \<in> set vals. distrust_entry v = Inr (Some fp)}"
proof -
  obtain root where root: "open_child R None (''Machine'' @ backslash # ''System'' @ backslash # ''Trust'') = Inr root"
    and l: "load_from R root = Inr c"
    using assms by (auto simp: load_def bindE_Inr_iff)
  define settled where "settled certificates \<longleftrightarrow>
    (case certificates of
       None \<Rightarrow> g_additions c = [] \<and> g_distrust c = []
     | Some key \<Rightarrow> \<exists>additions fps. load_additions R key = Inr additions \<and> load_distrust R key = Inr fps \<and>
         set (g_additions c) = set additions \<and> set (g_distrust c) = set fps)" for certificates
  have "\<exists>certificates. below R root ''Certificates'' certificates \<and> settled certificates"
  proof (cases root)
    case None
    then show ?thesis using l by (intro exI [of _ None]) (auto simp: load_from_def below_def settled_def config_default_def)
  next
    case (Some key)
    then obtain certificates where "open_child R (Some key) ''Certificates'' = Inr certificates"
      using l by (auto simp: load_from_def bindE_Inr_iff Let_def)
    then show ?thesis using l Some
      by (intro exI [of _ certificates])
        (auto simp: load_from_def below_def settled_def config_default_def bindE_Inr_iff Let_def split: option.splits)
  qed
  then obtain certificates where c: "below R root ''Certificates'' certificates" "settled certificates"
    by blast
  show ?thesis
  proof (cases certificates)
    case None
    then show ?thesis using root c
      by (intro exI [of _ root] exI [of _ certificates] exI [of _ None] exI [of _ "[]"])
        (simp add: below_def listed_def settled_def)
  next
    case (Some key)
    then obtain additions fps where parts: "load_additions R key = Inr additions" "load_distrust R key = Inr fps"
      "set (g_additions c) = set additions" "set (g_distrust c) = set fps"
      using c(2) by (auto simp: settled_def)
    show ?thesis
      using load_additions_all [OF parts(1)] load_distrust_all [OF parts(2)] root c(1) Some
      unfolding parts(3,4) by blast
  qed
qed

text \<open>
  C37. Every distrust entry a loaded configuration holds is a fingerprint in the store's own
  spelling: 64 lower-case hex digits, so composition's normalisation leaves it alone; the
  list is sorted and has no duplicates, and every addition has certificate bytes and the
  additions are in name order.
\<close>

theorem load_normal:
  assumes "load R = Inr c"
  shows "(\<forall>fp \<in> set (g_distrust c). length fp = 64 \<and> list_all is_ascii_hexdigit fp \<and>
        normalise_fingerprint fp = fp) \<and>
    sorted (g_distrust c) \<and> distinct (g_distrust c) \<and>
    (\<forall>a \<in> set (g_additions c). add_der a \<noteq> []) \<and> sorted (map add_name (g_additions c))"
  using assms by (rule load_is_normal)

text \<open>
  C36. There is no partial configuration: when the load succeeds, each of the keys \<open>Trust\<close>, \<open>Certificates\<close>,
  \<open>Add\<close> and \<open>Distrust\<close> was opened or is not there, each on its own; every subkey of \<open>Add\<close> and every value
  of \<open>Distrust\<close> was read, and the configuration holds exactly the additions and the fingerprints they
  are, none from a key that is not there.
\<close>

theorem load_complete:
  assumes "load R = Inr c"
  shows "\<exists>root certificates add distrust names vals.
    open_child R None (''Machine'' @ backslash # ''System'' @ backslash # ''Trust'') = Inr root \<and>
    below R root ''Certificates'' certificates \<and>
    below R certificates ''Add'' add \<and> below R certificates ''Distrust'' distrust \<and>
    listed (read_names R) add names \<and> listed (query_values R) distrust vals \<and>
    (\<forall>n \<in> set names. \<exists>a. add_entry R (the add) n = Inr a) \<and>
    (\<forall>v \<in> set vals. \<exists>fp. distrust_entry v = Inr fp) \<and>
    set (g_additions c) = {a. \<exists>n \<in> set names. add_entry R (the add) n = Inr (Some a)} \<and>
    set (g_distrust c) = {fp. \<exists>v \<in> set vals. distrust_entry v = Inr (Some fp)}"
  using assms by (rule load_tree)

theorem load_complete_witness:
  "\<exists>c. load sample_registry = Inr c \<and> set (g_distrust c) = {concat (replicate 32 ''ab'')}"
proof -
  have keys: "open_child sample_registry None p = Inr root \<Longrightarrow> root = Some []"
    "below sample_registry (Some []) ''Certificates'' certificates \<Longrightarrow> certificates = Some []"
    "below sample_registry (Some []) ''Distrust'' distrust \<Longrightarrow> distrust = Some [''Distrust'']" for p root certificates distrust
    by (auto simp: below_def open_child_def optional_def sample_registry_def)
  have vals: "listed (query_values sample_registry) (Some [''Distrust'']) vals \<Longrightarrow>
      {fp. \<exists>v \<in> set vals. distrust_entry v = Inr (Some fp)} = {concat (replicate 32 ''ab'')}" for vals
    using sample_distrust_entries by (auto simp: listed_def sample_registry_def)
  from load_complete [OF sample_load] show ?thesis
    using sample_load keys vals by (metis (no_types, lifting))
qed

theorem load_normal_witness:
  "\<exists>c. load sample_registry = Inr c \<and> g_distrust c \<noteq> [] \<and>
     (\<forall>fp \<in> set (g_distrust c). normalise_fingerprint fp = fp)"
  using load_normal [OF sample_load] sample_load by auto

end
