(* ===== verification/Control.thy ===== *)
theory Control
  imports Msgpack
begin

text \<open>
  The control socket (\<open>trustd/src/control.rs\<close>): a client's request read off a non-blocking
  stream, replies written under a deadline, the root set sent in chunks, and the control
  object's check.

  A stream is what the kernel makes of it, given as a list: each \<open>read\<close> takes the next
  \<open>read_result\<close> (no more of them is \<open>WouldBlock\<close>), each turn of the write loop the clock it sees
  and the next \<open>write_result\<close> (no more of them is a peer that takes nothing more before the
  deadline). Creating the socket and its descriptor is in \<open>Startup\<close>; when
  \<open>set_nonblocking\<close> or \<open>set_write_timeout\<close> of a stream fails, that is a write that fails.
\<close>

section \<open>Reading a request\<close>

datatype read_result = Got bytes | ReadErr io_kind

datatype Progress = Incomplete | ProgressRequest Request | Closed

datatype read_end = Drained | HungUp | Flooded

text \<open>The read loop: the buffer, and how the loop was left. \<open>Ok(0)\<close> is \<open>Got []\<close>.\<close>

fun read_loop :: "bytes \<Rightarrow> read_result list \<Rightarrow> bytes \<times> read_end" where
  "read_loop buf [] = (buf, Drained)"
| "read_loop buf (Got chunk # results) =
     (if chunk = [] then (buf, HungUp)
      else let buf = buf @ chunk
           in if 4 + MAX_MESSAGE_BYTES < length buf then (buf, Flooded) else read_loop buf results)"
| "read_loop buf (ReadErr kind # results) =
     (if kind = WouldBlock then (buf, Drained)
      else if kind = Interrupted then read_loop buf results
      else (buf, HungUp))"

text \<open>
  \<open>WireError\<close>'s \<open>Display\<close>, over the texts of the errors it wraps and \<open>str\<close>'s \<open>Debug\<close> form.
\<close>

fun wire_error_text ::
  "('e \<Rightarrow> string) \<Rightarrow> (string \<Rightarrow> string) \<Rightarrow> 'e wire_error \<Rightarrow> string" where
  "wire_error_text err_text debug (Encoding e) = ''malformed message: '' @ err_text e"
| "wire_error_text err_text debug (Missing k) = ''missing field '' @ k"
| "wire_error_text err_text debug (Duplicate k) = ''duplicate field '' @ k"
| "wire_error_text err_text debug (UnknownQuery q) = ''unknown query '' @ debug q"
| "wire_error_text err_text debug (TooLarge n) =
     ''message of '' @ dec_str n @ '' bytes exceeds the ceiling''"
| "wire_error_text err_text debug (Io e) = io_text e"

text \<open>\<open>Client::read\<close>: the progress, the buffer kept, and the reply it sends, if any.\<close>

definition client_read ::
  "('r, 'e) msgpack \<Rightarrow> ('e wire_error \<Rightarrow> string) \<Rightarrow> bytes \<Rightarrow> read_result list \<Rightarrow>
   Progress \<times> bytes \<times> Reply option" where
  "client_read M describe_error buf results =
     (case read_loop buf results of
        (buf, HungUp) \<Rightarrow> (Closed, buf, None)
      | (buf, Flooded) \<Rightarrow> (Closed, buf, Some (ReplyError ''request too large''))
      | (buf, Drained) \<Rightarrow>
          if length buf < 4 then (Incomplete, buf, None)
          else let len = le_val (take 4 buf)
               in if MAX_MESSAGE_BYTES < len
                  then (Closed, buf, Some (ReplyError ''request too large''))
                  else if length buf < 4 + len then (Incomplete, buf, None)
                  else (case decode_request M (take len (drop 4 buf)) of
                          Inr r \<Rightarrow> (ProgressRequest r, buf, None)
                        | Inl e \<Rightarrow> (Closed, buf, Some (ReplyError (describe_error e)))))"

section \<open>Writing a reply\<close>

datatype write_result = Wrote nat | WriteErr io_kind

record peer =
  sent :: bytes
  future :: "(nat \<times> write_result) list"

fun write_loop ::
  "nat \<Rightarrow> bytes \<Rightarrow> bytes \<Rightarrow> (nat \<times> write_result) list \<Rightarrow> (io_error + unit) \<times> peer" where
  "write_loop deadline pending out [] =
     (if pending = [] then (Inr (), \<lparr>sent = out, future = []\<rparr>)
      else (Inl (IoError TimedOut None ''reply deadline expired''), \<lparr>sent = out, future = []\<rparr>))"
| "write_loop deadline pending out ((now, result) # later) =
     (if pending = [] then (Inr (), \<lparr>sent = out, future = (now, result) # later\<rparr>)
      else if deadline \<le> now
      then (Inl (IoError TimedOut None ''reply deadline expired''), \<lparr>sent = out, future = later\<rparr>)
      else case result of
        Wrote count \<Rightarrow>
          if count = 0
          then (Inl (IoError WriteZero None ''peer stopped accepting reply''), \<lparr>sent = out, future = later\<rparr>)
          else write_loop deadline (drop count pending) (out @ take count pending) later
      | WriteErr kind \<Rightarrow>
          if kind = Interrupted then write_loop deadline pending out later
          else (Inl (IoError kind None []), \<lparr>sent = out, future = later\<rparr>))"

definition write_frame :: "nat \<Rightarrow> bytes \<Rightarrow> peer \<Rightarrow> (io_error + unit) \<times> peer" where
  "write_frame deadline payload peer =
     (if 2 ^ 32 \<le> length payload
      then (Inl (IoError InvalidInput None ''reply is too large''), peer)
      else write_loop deadline (le_bytes 4 (length payload) @ payload) (sent peer) (future peer))"

definition write_message :: "nat \<Rightarrow> bytes \<Rightarrow> peer \<Rightarrow> bool \<times> peer" where
  "write_message deadline payload peer =
     (case write_frame deadline payload peer of
        (Inr _, peer) \<Rightarrow> (True, peer)
      | (Inl _, peer) \<Rightarrow> (False, peer))"

text \<open>\<open>None\<close> is the panic of a reply that does not encode.\<close>

definition respond :: "('r, 'e) msgpack \<Rightarrow> nat \<Rightarrow> Reply \<Rightarrow> peer \<Rightarrow> (bool \<times> peer) option" where
  "respond M deadline reply peer =
     map_option (\<lambda>payload. write_message deadline payload peer) (encode_reply M reply)"

fun send_chunks ::
  "('r, 'e) msgpack \<Rightarrow> nat \<Rightarrow> u64 \<Rightarrow> root list list \<Rightarrow> peer \<Rightarrow> (bool \<times> peer) option" where
  "send_chunks M deadline generation [] peer = Some (True, peer)"
| "send_chunks M deadline generation (batch # batches) peer =
     (case respond M deadline (ReplyRoots generation batch (batches \<noteq> [])) peer of
        None \<Rightarrow> None
      | Some (ok, peer) \<Rightarrow>
          if \<not> ok then Some (False, peer) else send_chunks M deadline generation batches peer)"

definition send_roots ::
  "('r, 'e) msgpack \<Rightarrow> nat \<Rightarrow> u64 \<Rightarrow> root list \<Rightarrow> peer \<Rightarrow> (bool \<times> peer) option" where
  "send_roots M deadline generation roots peer =
     (if roots = [] then respond M deadline (ReplyRoots generation [] False) peer
      else send_chunks M deadline generation (chunks ROOTS_PER_CHUNK roots) peer)"

section \<open>The control object\<close>

text \<open>
  The security crate: validating a descriptor, the peer's token, and the access check of a
  descriptor, a token and a right; and what \<open>default_control_security\<close> gives (theory \<open>Startup\<close>), where
  \<open>None\<close> is its panic.
\<close>

record ('sd, 'tok, 'conn) security =
  validated :: "bytes \<Rightarrow> 'sd option"
  default_sd :: "'sd option"
  open_peer :: "'conn \<Rightarrow> 'tok option"
  access_check :: "'sd \<Rightarrow> u32 \<Rightarrow> 'tok \<Rightarrow> bool option"

definition control_new :: "('sd, 'tok, 'conn) security \<Rightarrow> bytes option \<Rightarrow> 'sd option" where
  "control_new S configured =
     (case configured of
        None \<Rightarrow> default_sd S
      | Some bs \<Rightarrow> (case validated S bs of Some sd \<Rightarrow> Some sd | None \<Rightarrow> default_sd S))"

definition permits :: "('sd, 'tok, 'conn) security \<Rightarrow> 'sd \<Rightarrow> 'conn \<Rightarrow> u32 \<Rightarrow> bool" where
  "permits S sd stream right =
     (case open_peer S stream of
        None \<Rightarrow> False
      | Some token \<Rightarrow> (case access_check S sd right token of Some allowed \<Rightarrow> allowed | None \<Rightarrow> False))"

section \<open>Reading: lemmas\<close>

lemma read_loop_bound:
  "read_loop buf results = (buf', Drained) \<Longrightarrow> length buf \<le> 4 + MAX_MESSAGE_BYTES \<Longrightarrow>
     length buf' \<le> 4 + MAX_MESSAGE_BYTES"
  by (induction buf results rule: read_loop.induct) (auto simp: Let_def split: if_splits)

lemma read_loop_chunks:
  assumes "\<forall>c \<in> set cs. c \<noteq> []" and "length (buf @ concat cs) \<le> 4 + MAX_MESSAGE_BYTES"
  shows "read_loop buf (map Got cs) = (buf @ concat cs, Drained)"
  using assms by (induction cs arbitrary: buf) (auto simp: Let_def)

section \<open>Writing: lemmas\<close>

lemma write_loop_outcome:
  "\<exists>k. k \<le> length pending \<and> sent (snd (write_loop deadline pending out later)) = out @ take k pending \<and>
     ((fst (write_loop deadline pending out later) = Inr ()) = (k = length pending))"
proof (induction deadline pending out later rule: write_loop.induct)
  case (1 deadline pending out)
  then show ?case by (auto intro: exI [of _ 0])
next
  case (2 deadline pending out now result later)
  show ?case
  proof (cases "pending = [] \<or> deadline \<le> now")
    case True
    then show ?thesis by (auto intro: exI [of _ 0])
  next
    case False
    show ?thesis
    proof (cases result)
      case (Wrote count)
      show ?thesis
      proof (cases "count = 0")
        case True
        then show ?thesis using False Wrote by (auto intro: exI [of _ 0])
      next
        case nz: False
        obtain k where k: "k \<le> length (drop count pending)"
          "sent (snd (write_loop deadline (drop count pending) (out @ take count pending) later)) =
            (out @ take count pending) @ take k (drop count pending)"
          "(fst (write_loop deadline (drop count pending) (out @ take count pending) later) = Inr ())
            = (k = length (drop count pending))"
          using 2 False Wrote nz by auto
        have "take count pending @ take k (drop count pending) = take (min count (length pending) + k) pending"
          by (cases "count \<le> length pending") (simp_all add: take_add min_def)
        then show ?thesis
          using False Wrote nz k by (intro exI [of _ "min count (length pending) + k"]) auto
      qed
    next
      case (WriteErr kind)
      then show ?thesis using 2 False by (auto intro: exI [of _ 0])
    qed
  qed
qed

lemma write_message_outcome:
  "\<exists>k. k \<le> length (frame_of payload) \<and>
     sent (snd (write_message deadline payload peer)) = sent peer @ take k (frame_of payload) \<and>
     fst (write_message deadline payload peer) = (k = length (frame_of payload))"
proof (cases "2 ^ 32 \<le> length payload")
  case True
  then show ?thesis
    by (intro exI [of _ 0]) (simp add: write_message_def write_frame_def frame_of_def)
next
  case False
  obtain k where k: "k \<le> length (frame_of payload)"
    "sent (snd (write_loop deadline (frame_of payload) (sent peer) (future peer))) =
      sent peer @ take k (frame_of payload)"
    "(fst (write_loop deadline (frame_of payload) (sent peer) (future peer)) = Inr ()) = (k = length (frame_of payload))"
    using write_loop_outcome by blast
  then show ?thesis
    using False by (intro exI [of _ k])
      (auto simp: write_message_def write_frame_def frame_of_def split: prod.splits sum.splits)
qed

text \<open>A run of replies on the wire, and the replies of a root set.\<close>

definition wire :: "('r, 'e) msgpack \<Rightarrow> Reply list \<Rightarrow> bytes" where
  "wire M replies = concat (map (\<lambda>r. frame_of (the (encode_reply M r))) replies)"

fun chunk_replies :: "u64 \<Rightarrow> root list list \<Rightarrow> Reply list" where
  "chunk_replies g [] = []"
| "chunk_replies g (b # bs) = ReplyRoots g b (bs \<noteq> []) # chunk_replies g bs"

definition snapshot_replies :: "u64 \<Rightarrow> root list \<Rightarrow> Reply list" where
  "snapshot_replies g roots =
     (if roots = [] then [ReplyRoots g [] False] else chunk_replies g (chunks ROOTS_PER_CHUNK roots))"

lemma wire_Cons: "wire M (r # rs) = frame_of (the (encode_reply M r)) @ wire M rs"
  by (simp add: wire_def)

lemma respond_outcome:
  assumes "encode_reply M r \<noteq> None"
  shows "\<exists>ok peer' k. respond M deadline r peer = Some (ok, peer') \<and> k \<le> length (wire M [r]) \<and>
    sent peer' = sent peer @ take k (wire M [r]) \<and> ok = (k = length (wire M [r]))"
proof -
  obtain payload where p: "encode_reply M r = Some payload" using assms by blast
  obtain k where "k \<le> length (frame_of payload)"
     "sent (snd (write_message deadline payload peer)) = sent peer @ take k (frame_of payload)"
     "fst (write_message deadline payload peer) = (k = length (frame_of payload))"
    using write_message_outcome by blast
  moreover have "respond M deadline r peer =
      Some (fst (write_message deadline payload peer), snd (write_message deadline payload peer))"
    by (simp add: respond_def p)
  moreover have "wire M [r] = frame_of payload" by (simp add: wire_def p)
  ultimately show ?thesis by metis
qed

lemma send_chunks_outcome:
  assumes "\<forall>r \<in> set (chunk_replies g batches). encode_reply M r \<noteq> None"
  shows "\<exists>ok peer' k. send_chunks M deadline g batches peer = Some (ok, peer') \<and>
    k \<le> length (wire M (chunk_replies g batches)) \<and>
    sent peer' = sent peer @ take k (wire M (chunk_replies g batches)) \<and>
    ok = (k = length (wire M (chunk_replies g batches)))"
  using assms
proof (induction batches arbitrary: peer)
  case Nil
  then show ?case by (auto simp: wire_def)
next
  case (Cons b batches)
  let ?r = "ReplyRoots g b (batches \<noteq> [])" and ?rest = "wire M (chunk_replies g batches)"
  obtain ok peer1 k where 1: "respond M deadline ?r peer = Some (ok, peer1)" "k \<le> length (wire M [?r])"
    "sent peer1 = sent peer @ take k (wire M [?r])" "ok = (k = length (wire M [?r]))"
    using respond_outcome [of M ?r deadline peer] Cons.prems by auto
  have w: "wire M (chunk_replies g (b # batches)) = wire M [?r] @ ?rest" by (simp add: wire_def)
  show ?case
  proof (cases ok)
    case False
    then show ?thesis
      using 1 unfolding w by (intro exI [of _ False] exI [of _ peer1] exI [of _ k]) auto
  next
    case True
    obtain ok2 peer2 k2 where 2: "send_chunks M deadline g batches peer1 = Some (ok2, peer2)"
      "k2 \<le> length ?rest" "sent peer2 = sent peer1 @ take k2 ?rest" "ok2 = (k2 = length ?rest)"
      using Cons.IH [of peer1] Cons.prems by auto
    then show ?thesis
      using 1 True unfolding w
      by (intro exI [of _ ok2] exI [of _ peer2] exI [of _ "length (wire M [?r]) + k2"]) simp
  qed
qed

lemma send_roots_outcome:
  assumes "\<forall>r \<in> set (snapshot_replies g roots). encode_reply M r \<noteq> None"
  shows "\<exists>ok peer' k. send_roots M deadline g roots peer = Some (ok, peer') \<and>
    k \<le> length (wire M (snapshot_replies g roots)) \<and>
    sent peer' = sent peer @ take k (wire M (snapshot_replies g roots)) \<and>
    ok = (k = length (wire M (snapshot_replies g roots)))"
proof (cases "roots = []")
  case True
  then have "encode_reply M (ReplyRoots g [] False) \<noteq> None"
    using assms by (simp add: snapshot_replies_def)
  from respond_outcome [OF this] show ?thesis
    using True by (simp add: send_roots_def snapshot_replies_def)
next
  case False
  then have "\<forall>r \<in> set (chunk_replies g (chunks ROOTS_PER_CHUNK roots)). encode_reply M r \<noteq> None"
    using assms by (simp add: snapshot_replies_def)
  from send_chunks_outcome [OF this] show ?thesis
    using False by (simp add: send_roots_def snapshot_replies_def)
qed

section \<open>What the client makes of it\<close>

text \<open>A reply the client can take: it fits the ceiling and decodes.\<close>

definition readable :: "('r, 'e) msgpack \<Rightarrow> Reply \<Rightarrow> bool" where
  "readable M r \<longleftrightarrow>
     (\<exists>payload. encode_reply M r = Some payload \<and> length payload \<le> MAX_MESSAGE_BYTES \<and>
        decode_reply M payload = Inr r)"

lemma recv_truncated:
  assumes "length payload \<le> MAX_MESSAGE_BYTES" and "k < length (frame_of payload)"
  shows "recv (take k (frame_of payload)) = Inl (Io (IoError UnexpectedEof None ''failed to fill whole buffer''))"
proof (cases "k < 4")
  case True
  then have "length (take k (frame_of payload)) < 4" by simp
  then show ?thesis by (simp only: recv_def read_exact_def if_True bindE.simps)
next
  case False
  have len: "length (frame_of payload) = 4 + length payload" by (simp add: frame_of_def)
  have "take 4 (take k (frame_of payload)) = le_bytes 4 (length payload)"
    using False by (simp add: frame_of_def min_def)
  moreover have "le_val (le_bytes 4 (length payload)) = length payload"
    using assms(1) by (simp add: le_val_le_bytes MAX_MESSAGE_BYTES_def)
  ultimately show ?thesis
    using False assms by (simp add: recv_def read_exact_def len Let_def)
qed

lemma call_loop_step:
  assumes "readable M r"
  shows "call_loop M out (wire M (r # rs) @ rest) =
    (if is_more r then call_loop M (out @ [r]) (wire M rs @ rest) else Inr (out @ [r]))"
proof -
  obtain payload where "encode_reply M r = Some payload" "length payload \<le> MAX_MESSAGE_BYTES"
    "decode_reply M payload = Inr r"
    using assms by (auto simp: readable_def)
  then show ?thesis
    by (simp add: call_loop.simps [of M out] wire_Cons recv_frame)
qed

lemma call_loop_chunks:
  assumes "batches \<noteq> []" and "\<forall>r \<in> set (chunk_replies g batches). readable M r"
  shows "call_loop M out (wire M (chunk_replies g batches) @ rest) = Inr (out @ chunk_replies g batches)"
  using assms
proof (induction batches arbitrary: out)
  case (Cons b batches)
  then show ?case
    by (cases "batches = []") (simp_all add: call_loop_step wire_def [of M "[]"] del: append_assoc)
qed simp

lemma call_loop_truncated:
  assumes "\<forall>r \<in> set (chunk_replies g batches). readable M r"
    and "k < length (wire M (chunk_replies g batches))"
  shows "call_loop M out (take k (wire M (chunk_replies g batches)))
    = Inl (Io (IoError UnexpectedEof None ''failed to fill whole buffer''))"
  using assms
proof (induction batches arbitrary: out k)
  case Nil
  then show ?case by (simp add: wire_def)
next
  case (Cons b batches)
  let ?r = "ReplyRoots g b (batches \<noteq> [])" and ?rest = "wire M (chunk_replies g batches)"
  obtain payload where p: "encode_reply M ?r = Some payload" "length payload \<le> MAX_MESSAGE_BYTES"
    "decode_reply M payload = Inr ?r"
    using Cons.prems(1) by (auto simp: readable_def)
  have w: "wire M (chunk_replies g (b # batches)) = frame_of payload @ ?rest"
    by (simp add: wire_Cons p(1))
  show ?case
  proof (cases "k < length (frame_of payload)")
    case True
    then show ?thesis
      using p(2) unfolding w by (simp add: call_loop.simps [of M out] recv_truncated)
  next
    case False
    then have k: "take k (wire M (chunk_replies g (b # batches))) =
        wire M [?r] @ take (k - length (frame_of payload)) ?rest"
      unfolding w by (simp add: wire_Cons p(1) wire_def [of M "[]"])
    have lt: "k - length (frame_of payload) < length ?rest"
      using False Cons.prems(2) unfolding w by simp
    then have "batches \<noteq> []" by (auto simp: wire_def)
    then have "is_more ?r" by simp
    then have "call_loop M out (take k (wire M (chunk_replies g (b # batches)))) =
        call_loop M (out @ [?r]) (take (k - length (frame_of payload)) ?rest)"
      using call_loop_step [of M ?r out "[]"] Cons.prems(1) unfolding k by (simp add: wire_def [of M "[]"])
    then show ?thesis using Cons.IH [OF _ lt] Cons.prems(1) by simp
  qed
qed

lemma roots_of_chunks:
  assumes "batches \<noteq> []"
  shows "roots_of (chunk_replies g batches) = Some (Inr (g, concat batches))"
proof -
  have "chunk_replies g batches = map (\<lambda>b. ReplyRoots g b True) (butlast batches) @ [ReplyRoots g (last batches) False]"
    using assms by (induction batches) auto
  moreover have "concat batches = concat (butlast batches) @ last batches"
    using assms by (induction batches) auto
  ultimately show ?thesis using roots_of_iff [of "chunk_replies g batches" g "concat batches"] by blast
qed

text \<open>A root set's replies are the chunks of a nonempty list of batches that hold it.\<close>

lemma snapshot_batches:
  "\<exists>batches. batches \<noteq> [] \<and> snapshot_replies g roots = chunk_replies g batches \<and> concat batches = roots"
proof (cases "roots = []")
  case True
  then show ?thesis by (intro exI [of _ "[[]]"]) (simp add: snapshot_replies_def)
next
  case False
  then show ?thesis
    by (intro exI [of _ "chunks ROOTS_PER_CHUNK roots"])
      (simp add: snapshot_replies_def ROOTS_PER_CHUNK_def)
qed

lemma recv_oversize_frame:
  assumes "MAX_MESSAGE_BYTES < length payload" and "length payload < 2 ^ 32"
  shows "recv (frame_of payload) = Inl (TooLarge (length payload))"
proof -
  have "le_val (le_bytes 4 (length payload)) = length payload"
    using assms(2) by (simp add: le_val_le_bytes)
  then show ?thesis
    using assms(1) by (simp add: recv_def read_exact_def frame_of_def)
qed

lemma readable_reply:
  assumes "msgpack_laws M" and "reply_ok r"
    and "\<And>payload. encode_reply M r = Some payload \<Longrightarrow> length payload \<le> MAX_MESSAGE_BYTES"
  shows "readable M r"
  using reply_codec [OF assms(1,2)] assms(3) by (auto simp: readable_def)

text \<open>A reply over the ceiling: whatever of it goes out, what the client reads is an error.\<close>

definition oversized :: "('r, 'e) msgpack \<Rightarrow> Reply \<Rightarrow> bool" where
  "oversized M r \<longleftrightarrow> MAX_MESSAGE_BYTES < length (the (encode_reply M r))"

definition carried :: "('r, 'e) msgpack \<Rightarrow> Reply \<Rightarrow> bool" where
  "carried M r \<longleftrightarrow> (\<exists>payload. encode_reply M r = Some payload \<and> decode_reply M payload = Inr r)"

lemma readable_iff: "readable M r \<longleftrightarrow> carried M r \<and> \<not> oversized M r"
  by (auto simp: readable_def carried_def oversized_def)

lemma recv_oversized:
  assumes "MAX_MESSAGE_BYTES < length payload" and "length payload < 2 ^ 32"
  shows "\<exists>e. recv (take k (frame_of payload @ rest)) = Inl e"
proof (cases "k < 4")
  case True
  then have "length (take k (frame_of payload @ rest)) < 4" by simp
  then have "recv (take k (frame_of payload @ rest)) =
      Inl (Io (IoError UnexpectedEof None ''failed to fill whole buffer''))"
    by (simp only: recv_def read_exact_def if_True bindE.simps)
  then show ?thesis by blast
next
  case False
  have "take 4 (take k (frame_of payload @ rest)) = le_bytes 4 (length payload)"
    using False by (simp add: frame_of_def min_def)
  moreover have "le_val (le_bytes 4 (length payload)) = length payload"
    using assms(2) by (simp add: le_val_le_bytes)
  moreover have "\<not> length (take k (frame_of payload @ rest)) < 4" using False by (simp add: frame_of_def)
  ultimately show ?thesis using assms(1) by (simp add: recv_def read_exact_def Let_def)
qed

lemma call_loop_error: "recv stream = Inl e \<Longrightarrow> call_loop M out stream = Inl e"
  by (simp add: call_loop.simps [of M out])

lemma send_oversized_first:
  assumes "encode_reply M r = Some payload" and "MAX_MESSAGE_BYTES < length payload"
    and "respond M deadline r peer = Some (ok, peer')"
  shows "\<exists>bytes. sent peer' = sent peer @ bytes \<and> (\<forall>rest out. ok \<or> rest = [] \<longrightarrow> (\<exists>e. call_loop M out (bytes @ rest) = Inl e))"
proof (cases "length payload < 2 ^ 32")
  case True
  obtain k where k: "sent peer' = sent peer @ take k (frame_of payload)" "ok = (k = length (frame_of payload))"
    using write_message_outcome [of payload deadline peer] assms(1,3) by (auto simp: respond_def)
  have "\<exists>e. call_loop M out (take k (frame_of payload) @ rest) = Inl e" if "ok \<or> rest = []" for rest out
  proof -
    have "\<exists>j. take k (frame_of payload) @ rest = take j (frame_of payload @ rest)"
    proof (cases ok)
      case True
      then have "take k (frame_of payload) @ rest = take (k + length rest) (frame_of payload @ rest)"
        using k(2) by simp
      then show ?thesis by blast
    next
      case False
      then have "take k (frame_of payload) @ rest = take (min k (length (frame_of payload))) (frame_of payload @ rest)"
        using that by (simp add: min_def)
      then show ?thesis by blast
    qed
    then obtain j where "take k (frame_of payload) @ rest = take j (frame_of payload @ rest)" by blast
    then show ?thesis using recv_oversized [OF assms(2) True, of j rest] call_loop_error by metis
  qed
  then show ?thesis using k(1) by blast
next
  case False
  then have "\<not> ok" "peer' = peer"
    using assms(1,3) by (auto simp: respond_def write_message_def write_frame_def)
  moreover have "\<exists>e. call_loop M out [] = Inl e" for out
    using call_loop_error [where stream = "[]" and M = M and out = out] by (auto simp: recv_def read_exact_def)
  ultimately show ?thesis by (intro exI [of _ "[]"]) simp
qed

lemma respond_carried:
  assumes "carried M r"
  shows "\<exists>ok peer'. respond M deadline r peer = Some (ok, peer')"
  using assms by (cases "write_message deadline (the (encode_reply M r)) peer") (auto simp: respond_def carried_def)

lemma send_chunks_oversized:
  assumes "\<forall>r \<in> set (chunk_replies g batches). carried M r" and "list_ex (oversized M) (chunk_replies g batches)"
  shows "\<exists>ok peer' bytes. send_chunks M deadline g batches peer = Some (ok, peer') \<and>
    sent peer' = sent peer @ bytes \<and> (\<forall>out. \<exists>e. call_loop M out bytes = Inl e)"
  using assms
proof (induction batches arbitrary: peer)
  case (Cons b batches)
  let ?r = "ReplyRoots g b (batches \<noteq> [])"
  obtain payload where p: "encode_reply M ?r = Some payload" "decode_reply M payload = Inr ?r"
    using Cons.prems(1) by (auto simp: carried_def)
  obtain ok peer1 where 1: "respond M deadline ?r peer = Some (ok, peer1)"
    using respond_carried [of M ?r deadline peer] Cons.prems(1) by auto
  have all: "\<forall>r \<in> set (chunk_replies g batches). encode_reply M r \<noteq> None"
    using Cons.prems(1) by (auto simp: carried_def)
  obtain ok2 peer2 more where 2: "send_chunks M deadline g batches peer1 = Some (ok2, peer2)"
    "sent peer2 = sent peer1 @ more"
    using send_chunks_outcome [OF all, of deadline peer1] by blast
  show ?case
  proof (cases "oversized M ?r")
    case True
    then have big: "MAX_MESSAGE_BYTES < length payload" by (simp add: oversized_def p(1))
    obtain bytes where b: "sent peer1 = sent peer @ bytes"
      "\<And>rest out. ok \<or> rest = [] \<Longrightarrow> \<exists>e. call_loop M out (bytes @ rest) = Inl e"
      using send_oversized_first [OF p(1) big 1] by blast
    show ?thesis
    proof (cases ok)
      case True
      then show ?thesis
        using 1 2 b by (intro exI [of _ ok2] exI [of _ peer2] exI [of _ "bytes @ more"]) simp
    next
      case False
      then show ?thesis
        using 1 b(1) b(2) [of "[]"] by (intro exI [of _ False] exI [of _ peer1] exI [of _ bytes]) simp
    qed
  next
    case False
    then have r: "readable M ?r" using Cons.prems(1) by (simp add: readable_iff)
    have small: "length payload \<le> MAX_MESSAGE_BYTES" using False by (simp add: oversized_def p(1))
    have rest: "list_ex (oversized M) (chunk_replies g batches)" using False Cons.prems(2) by simp
    obtain k where k: "k \<le> length (frame_of payload)" "sent peer1 = sent peer @ take k (frame_of payload)"
      "ok = (k = length (frame_of payload))"
      using write_message_outcome [of payload deadline peer] 1 by (auto simp: respond_def p(1))
    show ?thesis
    proof (cases ok)
      case True
      obtain ok3 peer3 bytes where 3: "send_chunks M deadline g batches peer1 = Some (ok3, peer3)"
        "sent peer3 = sent peer1 @ bytes" "\<And>out. \<exists>e. call_loop M out bytes = Inl e"
        using Cons.IH [of peer1] Cons.prems(1) rest by auto
      have "is_more ?r" using rest by (cases batches) simp_all
      then have "call_loop M out (frame_of payload @ bytes) = call_loop M (out @ [?r]) bytes" for out
        using call_loop_step [OF r, of out "[]" bytes] by (simp add: wire_def p(1))
      then show ?thesis
        using 1 3 True k by (intro exI [of _ ok3] exI [of _ peer3] exI [of _ "frame_of payload @ bytes"]) simp
    next
      case False
      then have "recv (take k (frame_of payload)) = Inl (Io (IoError UnexpectedEof None ''failed to fill whole buffer''))"
        using k recv_truncated [OF small, of k] by simp
      then have "\<exists>e. call_loop M out (take k (frame_of payload)) = Inl e" for out
        using call_loop_error by blast
      then show ?thesis
        using 1 False k
        by (intro exI [of _ False] exI [of _ peer1] exI [of _ "take k (frame_of payload)"]) auto
    qed
  qed
qed simp

lemma send_chunks_readable:
  assumes "batches \<noteq> []" and "\<forall>r \<in> set (chunk_replies g batches). readable M r"
  shows "\<exists>ok peer' bytes. send_chunks M deadline g batches peer = Some (ok, peer') \<and>
    sent peer' = sent peer @ bytes \<and>
    (if ok then \<exists>replies. call_loop M [] bytes = Inr replies \<and> roots_of replies = Some (Inr (g, concat batches))
     else \<exists>e. call_loop M [] bytes = Inl e)"
proof -
  let ?w = "wire M (chunk_replies g batches)"
  have "\<forall>r \<in> set (chunk_replies g batches). encode_reply M r \<noteq> None" using assms(2) by (auto simp: readable_def)
  then obtain ok peer' k where s: "send_chunks M deadline g batches peer = Some (ok, peer')"
    "k \<le> length ?w" "sent peer' = sent peer @ take k ?w" "ok = (k = length ?w)"
    using send_chunks_outcome [of g batches M deadline peer] by blast
  have "call_loop M [] ?w = Inr (chunk_replies g batches)"
    using call_loop_chunks [OF assms, of "[]" "[]"] by simp
  moreover have "\<exists>e. call_loop M [] (take k ?w) = Inl e" if "\<not> ok"
    using call_loop_truncated [OF assms(2)] that s(2,4) by simp
  ultimately show ?thesis
    using s roots_of_chunks [OF assms(1), of g]
    by (intro exI [of _ ok] exI [of _ peer'] exI [of _ "take k ?w"]) simp
qed

lemma send_roots_chunks: "\<exists>batches. batches \<noteq> [] \<and> snapshot_replies g roots = chunk_replies g batches \<and>
    concat batches = roots \<and> send_roots M deadline g roots peer = send_chunks M deadline g batches peer"
proof (cases "roots = []")
  case True
  then show ?thesis
    by (intro exI [of _ "[[]]"]) (auto simp: snapshot_replies_def send_roots_def split: option.splits)
next
  case False
  then show ?thesis
    by (intro exI [of _ "chunks ROOTS_PER_CHUNK roots"])
      (simp add: snapshot_replies_def send_roots_def ROOTS_PER_CHUNK_def)
qed

section \<open>Two roots to send\<close>

definition sample_roots :: "root list" where
  "sample_roots = replicate 25 sample_root"

lemma sample_chunks: "chunks ROOTS_PER_CHUNK sample_roots = [replicate 24 sample_root, [sample_root]]"
  by (simp add: sample_roots_def ROOTS_PER_CHUNK_def chunks_step)

lemma wide_encode: "encode_reply wide r = Some payload \<Longrightarrow>
    length payload = sum_list (map (\<lambda>t. length (put_tok t)) (reply_tokens r))"
  by (auto simp: encode_reply_def expect_def wide_def length_concat comp_def split: if_splits)

lemma sample_root_size: "sum_list (map (\<lambda>t. length (put_tok t)) (root_tokens sample_root)) \<le> 200"
  by (simp add: sample_root_def root_tokens_def write_str_list_def write_opt_str_def)

lemma sample_chunk_size:
  assumes "encode_reply wide (ReplyRoots g (replicate n sample_root) follows) = Some payload"
  shows "length payload \<le> 100 + n * 200"
proof -
  have "sum_list (map (\<lambda>t. length (put_tok t)) (concat (map root_tokens (replicate n sample_root)))) \<le> n * 200"
  proof (induction n)
    case (Suc n)
    then show ?case using sample_root_size by simp
  qed simp
  then show ?thesis unfolding wide_encode [OF assms] by simp
qed

lemma sample_readable: "\<forall>r \<in> set (snapshot_replies 7 sample_roots). readable wide r"
proof -
  have "readable wide (ReplyRoots 7 (replicate n sample_root) follows)" if "n \<le> 24" for n follows
  proof (rule readable_reply [OF wide_laws])
    show "reply_ok (ReplyRoots 7 (replicate n sample_root) follows)"
      using that sample_root_ok by (simp add: list_all_iff)
    show "length payload \<le> MAX_MESSAGE_BYTES"
      if "encode_reply wide (ReplyRoots 7 (replicate n sample_root) follows) = Some payload" for payload
      using sample_chunk_size [OF that] \<open>n \<le> 24\<close> by (simp add: MAX_MESSAGE_BYTES_def)
  qed
  from this [of 24] this [of 1] show ?thesis
    by (simp add: snapshot_replies_def sample_chunks) (simp add: sample_roots_def)
qed

lemma sample_replies_ok: "\<forall>r \<in> set (snapshot_replies 7 sample_roots). reply_ok r"
proof -
  have "reply_ok (ReplyRoots 7 (replicate n sample_root) follows)" if "n \<le> 24" for n follows
    using that sample_root_ok by (simp add: list_all_iff)
  from this [of 24] this [of 1] show ?thesis
    by (simp add: snapshot_replies_def sample_chunks del: reply_ok.simps) (simp add: sample_roots_def)
qed

text \<open>A request in pieces.\<close>

lemma client_read_pieces:
  assumes "decode_request M payload = Inr request" and "length payload \<le> MAX_MESSAGE_BYTES"
    and "concat pieces = take n (frame_of payload)" and "\<forall>p \<in> set pieces. p \<noteq> []"
  shows "client_read M describe_error [] (map Got pieces) =
    (if length (frame_of payload) \<le> n then ProgressRequest request else Incomplete,
     take n (frame_of payload), None)"
proof -
  have len: "length (frame_of payload) = 4 + length payload" by (simp add: frame_of_def)
  have loop: "read_loop [] (map Got pieces) = (take n (frame_of payload), Drained)"
    using read_loop_chunks [OF assms(4), of "[]"] assms(2,3) len by simp
  have val: "le_val (le_bytes 4 (length payload)) = length payload"
    using assms(2) by (simp add: le_val_le_bytes MAX_MESSAGE_BYTES_def)
  show ?thesis
  proof (cases "n < 4")
    case True
    then show ?thesis by (simp add: client_read_def loop len)
  next
    case False
    then have "take 4 (take n (frame_of payload)) = le_bytes 4 (length payload)"
      by (simp add: frame_of_def min_def)
    then have head: "le_val (take 4 (take n (frame_of payload))) = length payload" by (simp only: val)
    show ?thesis
    proof (cases "length (frame_of payload) \<le> n")
      case True
      moreover have "take (length payload) (drop 4 (frame_of payload)) = payload"
        by (simp add: frame_of_def)
      ultimately show ?thesis
        using False assms(1,2) head by (simp add: client_read_def loop len Let_def)
    next
      case short: False
      then show ?thesis
        using False assms(2) head by (simp add: client_read_def loop len Let_def)
    qed
  qed
qed

lemma client_read_within:
  assumes "client_read M describe_error buf results = (Incomplete, buf', reply)"
    and "length buf \<le> 4 + MAX_MESSAGE_BYTES"
  shows "length buf' \<le> 4 + MAX_MESSAGE_BYTES \<and> reply = None"
  using assms read_loop_bound [OF _ assms(2)]
  by (auto simp: client_read_def Let_def split: prod.splits read_end.splits if_splits sum.splits)

section \<open>Properties\<close>

text \<open>
  C29. The root set arrives whole or not at all, and never in part. Whatever the peer takes, \<open>send_roots\<close>
  does not panic, and when it reports success and no chunk is over the ceiling on a message (64 KiB),
  the client's \<open>call\<close> loop reads from what was sent exactly one snapshot, of which \<open>roots_of\<close> returns
  the generation and all the roots. In every other case the client gets an error: when sending failed,
  whatever prefix went out, and also when a chunk was over the ceiling, which the daemon
  does not check, so that it may report success.
\<close>

theorem send_roots_whole:
  assumes "msgpack_laws M" and "\<forall>r \<in> set (snapshot_replies g roots). reply_ok r"
  shows "\<exists>ok peer' bytes. send_roots M deadline g roots peer = Some (ok, peer') \<and>
    sent peer' = sent peer @ bytes \<and>
    (if ok \<and> \<not> list_ex (oversized M) (snapshot_replies g roots)
     then \<exists>replies. call_loop M [] bytes = Inr replies \<and> roots_of replies = Some (Inr (g, roots))
     else \<exists>e. call_loop M [] bytes = Inl e)"
proof -
  obtain batches where b: "batches \<noteq> []" "snapshot_replies g roots = chunk_replies g batches"
    "concat batches = roots" "send_roots M deadline g roots peer = send_chunks M deadline g batches peer"
    using send_roots_chunks by blast
  have c: "\<forall>r \<in> set (chunk_replies g batches). carried M r"
    using reply_codec [OF assms(1)] assms(2) by (auto simp: carried_def b(2))
  show ?thesis
  proof (cases "list_ex (oversized M) (chunk_replies g batches)")
    case True
    then show ?thesis using send_chunks_oversized [OF c True] unfolding b(2,4) by metis
  next
    case False
    then have r: "\<forall>r \<in> set (chunk_replies g batches). readable M r"
      using c by (auto simp: readable_iff list_ex_iff)
    then show ?thesis
      using send_chunks_readable [OF b(1) r, of deadline peer] False
      unfolding b(2,4) by (simp only: b(3) simp_thms not_False_eq_True)
  qed
qed

theorem send_roots_whole_witness:
  "(\<exists>ok peer' bytes.
    send_roots wide 5 7 sample_roots \<lparr>sent = [], future = [(0, Wrote 10), (1, Wrote 9000)]\<rparr> = Some (ok, peer') \<and>
    sent peer' = [] @ bytes \<and>
    (if ok then \<exists>replies. call_loop wide [] bytes = Inr replies \<and> roots_of replies = Some (Inr (7, sample_roots))
     else \<exists>e. call_loop wide [] bytes = Inl e)) \<and>
   \<not> list_ex (oversized wide) (snapshot_replies 7 sample_roots)"
proof -
  have "\<not> list_ex (oversized wide) (snapshot_replies 7 sample_roots)"
    using sample_readable by (auto simp: readable_iff list_ex_iff)
  then show ?thesis
    using send_roots_whole [OF wide_laws sample_replies_ok, of 5 "\<lparr>sent = [], future = [(0, Wrote 10), (1, Wrote 9000)]\<rparr>"]
    by simp
qed

text \<open>
  A request sent in any pieces is read as that request: however the kernel cuts its frame,
  the client that has delivered all of it has made the request; while some of it is missing
  nothing is answered and what came is kept.
\<close>

theorem client_read_request:
  assumes "decode_request M payload = Inr request" and "length payload \<le> MAX_MESSAGE_BYTES"
    and "concat pieces = take n (frame_of payload)" and "\<forall>p \<in> set pieces. p \<noteq> []"
  shows "client_read M describe_error [] (map Got pieces) =
    (if length (frame_of payload) \<le> n then ProgressRequest request else Incomplete,
     take n (frame_of payload), None)"
  using assms by (rule client_read_pieces)

theorem client_read_request_witness:
  "\<exists>payload. encode_request wide ReqStatus = Some payload \<and>
     client_read wide (\<lambda>_. []) [] (map Got [take 3 (frame_of payload), drop 3 (frame_of payload)]) =
       (ProgressRequest ReqStatus, frame_of payload, None)"
proof -
  obtain payload where p: "encode_request wide ReqStatus = Some payload" "decode_request wide payload = Inr ReqStatus"
    using request_codec [OF wide_laws, of ReqStatus] by auto
  have "payload = concat (map put_tok (request_tokens ReqStatus))"
    using p(1) by (auto simp: encode_request_def expect_def wide_def split: if_splits)
  then have len: "length payload = 26" by simp
  then have f: "length (frame_of payload) = 30" by (simp add: frame_of_def)
  show ?thesis
    using client_read_request [OF p(2), of "[take 3 (frame_of payload), drop 3 (frame_of payload)]" 30] p(1) len f
    by (cases "frame_of payload") (auto simp: MAX_MESSAGE_BYTES_def)
qed

text \<open>
  A client cannot make the daemon hold more than one message: whatever it sends, the
  buffer kept while its request is incomplete is within a header and the ceiling.
\<close>

theorem client_read_bound:
  assumes "client_read M describe_error buf results = (Incomplete, buf', reply)"
    and "length buf \<le> 4 + MAX_MESSAGE_BYTES"
  shows "length buf' \<le> 4 + MAX_MESSAGE_BYTES \<and> reply = None"
  using assms by (rule client_read_within)

theorem client_read_bound_witness:
  "client_read wide (\<lambda>_. []) [] [Got [1, 0], ReadErr WouldBlock] = (Incomplete, [1, 0], None) \<and>
   length [1, 0 :: byte] \<le> 4 + MAX_MESSAGE_BYTES"
proof -
  have "client_read wide (\<lambda>_. []) [] [Got [1, 0], ReadErr WouldBlock] = (Incomplete, [1, 0], None)"
    by (simp add: client_read_def MAX_MESSAGE_BYTES_def)
  then show ?thesis using client_read_bound by fastforce
qed

text \<open>
  Nothing holds a reply to the ceiling: a message above it is written in full to a peer
  that takes it, and the peer's \<open>recv\<close> refuses it.
\<close>

theorem oversized_reply_sent:
  assumes "MAX_MESSAGE_BYTES < length payload" and "length payload < 2 ^ 32" and "now < deadline"
  shows "write_message deadline payload \<lparr>sent = [], future = [(now, Wrote (4 + length payload))]\<rparr>
      = (True, \<lparr>sent = frame_of payload, future = []\<rparr>) \<and>
    recv (frame_of payload) = Inl (TooLarge (length payload))"
proof
  have "le_bytes 4 (length payload) \<noteq> []"
    by (metis length_le_bytes list.size(3) zero_neq_numeral)
  then show "write_message deadline payload \<lparr>sent = [], future = [(now, Wrote (4 + length payload))]\<rparr>
      = (True, \<lparr>sent = frame_of payload, future = []\<rparr>)"
    using assms by (simp add: write_message_def write_frame_def frame_of_def)
  show "recv (frame_of payload) = Inl (TooLarge (length payload))"
    using assms(1,2) by (rule recv_oversize_frame)
qed

theorem oversized_reply_sent_witness:
  "write_message 5 (replicate 65537 0) \<lparr>sent = [], future = [(0, Wrote 65541)]\<rparr>
      = (True, \<lparr>sent = frame_of (replicate 65537 0), future = []\<rparr>) \<and>
   recv (frame_of (replicate 65537 0)) = (Inl (TooLarge 65537) :: unit wire_error + _)"
  using oversized_reply_sent [of "replicate 65537 0" 0 5] by (simp add: MAX_MESSAGE_BYTES_def)

end
