(* ===== verification/Render.thy ===== *)
theory Render
  imports Config "HOL-Library.Finite_Map"
begin

text \<open>
  Rendering the compat files (\<open>trustd/src/render.rs\<close>) over a model of the store directory.

  The directory is a finite map from names to files and directories. Every file-system call
  takes the next \<open>outcome\<close> of the world: it works (its own errors included), or it fails with
  an error, having done as much of a non-atomic call as a number says (bytes written,
  entries removed). \<open>Path::exists\<close> reads the truth, mode bits have no effect, and a directory
  is listed in the order of its names.
\<close>

section \<open>The file system\<close>

datatype node = File bytes | Dir "(string, node) fmap"

type_synonym dir = "(string, node) fmap"

datatype outcome = Works | Fails io_error nat

record world =
  w_dir :: dir
  w_present :: bool
  w_next :: nat
  w_outcomes :: "outcome list"

type_synonym 'a io = "world \<Rightarrow> (io_error + 'a) \<times> world"

definition returnIO :: "'a \<Rightarrow> 'a io" where
  "returnIO a w = (Inr a, w)"

definition bindIO :: "'a io \<Rightarrow> ('a \<Rightarrow> 'b io) \<Rightarrow> 'b io" where
  "bindIO m f w = (case m w of (Inl e, w) \<Rightarrow> (Inl e, w) | (Inr a, w) \<Rightarrow> f a w)"

definition map_errIO :: "(io_error \<Rightarrow> io_error) \<Rightarrow> 'a io \<Rightarrow> 'a io" where
  "map_errIO h m w = (case m w of (r, w) \<Rightarrow> (map_err h r, w))"

text \<open>A system call: what it does when it works, and what a failed one has done.\<close>

definition sys :: "(dir \<Rightarrow> (io_error + 'a) \<times> dir) \<Rightarrow> (nat \<Rightarrow> dir \<Rightarrow> dir) \<Rightarrow> 'a io" where
  "sys op partial w =
     (case w_outcomes w of
        Fails e n # later \<Rightarrow> (Inl e, w\<lparr>w_dir := partial n (w_dir w), w_outcomes := later\<rparr>)
      | _ \<Rightarrow> (case op (w_dir w) of
                (r, d) \<Rightarrow> (r, w\<lparr>w_dir := d, w_outcomes := tl (w_outcomes w)\<rparr>)))"

text \<open>A directory of the store: the store itself, or one in it.\<close>

definition get_parent :: "string option \<Rightarrow> dir \<Rightarrow> dir option" where
  "get_parent p d =
     (case p of
        None \<Rightarrow> Some d
      | Some s \<Rightarrow> (case fmlookup d s of Some (Dir c) \<Rightarrow> Some c | _ \<Rightarrow> None))"

definition set_parent :: "string option \<Rightarrow> dir \<Rightarrow> dir \<Rightarrow> dir" where
  "set_parent p c d = (case p of None \<Rightarrow> c | Some s \<Rightarrow> fmupd s (Dir c) d)"

definition os_error :: "io_kind \<Rightarrow> io_error" where
  "os_error kind = IoError kind None []"

definition in_parent ::
  "string option \<Rightarrow> (dir \<Rightarrow> (io_error + 'a) \<times> dir) \<Rightarrow> dir \<Rightarrow> (io_error + 'a) \<times> dir" where
  "in_parent p f d =
     (case get_parent p d of
        None \<Rightarrow> (Inl (os_error NotFound), d)
      | Some c \<Rightarrow> (case f c of (r, c) \<Rightarrow> (r, set_parent p c d)))"

definition part_of :: "string option \<Rightarrow> (dir \<Rightarrow> dir) \<Rightarrow> dir \<Rightarrow> dir" where
  "part_of p f d = (case get_parent p d of None \<Rightarrow> d | Some c \<Rightarrow> set_parent p (f c) d)"

definition create_new_op :: "string \<Rightarrow> dir \<Rightarrow> (io_error + unit) \<times> dir" where
  "create_new_op name c =
     (if fmlookup c name \<noteq> None then (Inl (os_error AlreadyExists), c)
      else (Inr (), fmupd name (File []) c))"

definition rename_op :: "string \<Rightarrow> string \<Rightarrow> dir \<Rightarrow> (io_error + unit) \<times> dir" where
  "rename_op a b c =
     (case fmlookup c a of
        None \<Rightarrow> (Inl (os_error NotFound), c)
      | Some x \<Rightarrow>
          if (case (x, fmlookup c b) of
                (_, None) \<Rightarrow> True
              | (File _, Some (File _)) \<Rightarrow> True
              | (Dir _, Some (Dir e)) \<Rightarrow> e = fmempty
              | _ \<Rightarrow> False)
          then (Inr (), fmupd b x (fmdrop a c))
          else (Inl (os_error OtherKind), c))"

definition remove_file_op :: "string \<Rightarrow> dir \<Rightarrow> (io_error + unit) \<times> dir" where
  "remove_file_op name c =
     (case fmlookup c name of
        None \<Rightarrow> (Inl (os_error NotFound), c)
      | Some (File _) \<Rightarrow> (Inr (), fmdrop name c)
      | Some (Dir _) \<Rightarrow> (Inl (os_error OtherKind), c))"

definition names_of :: "dir \<Rightarrow> string list" where
  "names_of c = sorted_list_of_fset (fmdom c)"

definition remove_dir_op :: "string \<Rightarrow> dir \<Rightarrow> (io_error + unit) \<times> dir" where
  "remove_dir_op name c =
     (case fmlookup c name of
        None \<Rightarrow> (Inl (os_error NotFound), c)
      | Some (File _) \<Rightarrow> (Inl (os_error OtherKind), c)
      | Some (Dir _) \<Rightarrow> (Inr (), fmdrop name c))"

definition remove_dir_part :: "string \<Rightarrow> nat \<Rightarrow> dir \<Rightarrow> dir" where
  "remove_dir_part name n c =
     (case fmlookup c name of
        Some (Dir e) \<Rightarrow> fmupd name (Dir (fmdrop_set (set (take n (names_of e))) e)) c
      | _ \<Rightarrow> c)"

definition list_op :: "string \<Rightarrow> dir \<Rightarrow> (io_error + (string \<times> bool) list) \<times> dir" where
  "list_op name d =
     (case fmlookup d name of
        None \<Rightarrow> (Inl (os_error NotFound), d)
      | Some (File _) \<Rightarrow> (Inl (os_error OtherKind), d)
      | Some (Dir c) \<Rightarrow>
          (Inr (map (\<lambda>n. (n, case fmlookup c n of Some (Dir _) \<Rightarrow> True | _ \<Rightarrow> False)) (names_of c)), d))"

definition exchange_op :: "string \<Rightarrow> string \<Rightarrow> dir \<Rightarrow> (io_error + unit) \<times> dir" where
  "exchange_op a b d =
     (case (fmlookup d a, fmlookup d b) of
        (Some x, Some y) \<Rightarrow> (Inr (), fmupd b x (fmupd a y d))
      | _ \<Rightarrow> (Inl (os_error NotFound), d))"

abbreviation atomic :: "nat \<Rightarrow> dir \<Rightarrow> dir" where
  "atomic \<equiv> \<lambda>_ d. d"

definition fs_rename :: "string option \<Rightarrow> string \<Rightarrow> string \<Rightarrow> unit io" where
  "fs_rename p a b = sys (in_parent p (rename_op a b)) atomic"

definition fs_remove_file :: "string option \<Rightarrow> string \<Rightarrow> unit io" where
  "fs_remove_file p name = sys (in_parent p (remove_file_op name)) atomic"

definition fs_remove_dir_all :: "string option \<Rightarrow> string \<Rightarrow> unit io" where
  "fs_remove_dir_all p name =
     sys (in_parent p (remove_dir_op name)) (\<lambda>n. part_of p (remove_dir_part name n))"

definition fs_write_all :: "string option \<Rightarrow> string \<Rightarrow> bytes \<Rightarrow> unit io" where
  "fs_write_all p name contents =
     sys (in_parent p (\<lambda>c. (Inr (), fmupd name (File contents) c)))
       (\<lambda>n. part_of p (fmupd name (File (take n contents))))"

definition exists_in :: "world \<Rightarrow> string \<Rightarrow> bool" where
  "exists_in w name \<longleftrightarrow> fmlookup (w_dir w) name \<noteq> None"

section \<open>Writing and emptying\<close>

definition temp_name :: "nat \<Rightarrow> nat \<Rightarrow> string" where
  "temp_name pid n = ''.trustd-'' @ dec_str pid @ ''-'' @ dec_str n @ ''.tmp''"

fun temp_create :: "nat \<Rightarrow> string option \<Rightarrow> nat \<Rightarrow> string io" where
  "temp_create pid p 0 w = (Inl (IoError AlreadyExists None ''cannot reserve a trust staging file''), w)"
| "temp_create pid p (Suc tries) w =
     (let path = temp_name pid (w_next w);
          w = w\<lparr>w_next := w_next w + 1\<rparr>
      in case sys (in_parent p (create_new_op path)) atomic w of
           (Inr _, w) \<Rightarrow> (Inr path, w)
         | (Inl e, w) \<Rightarrow>
             if io_kind e = AlreadyExists then temp_create pid p tries w else (Inl e, w))"

text \<open>The temporary file is removed, if it is still there, whatever happened to it.\<close>

definition write_file :: "nat \<Rightarrow> string option \<Rightarrow> string \<Rightarrow> bytes \<Rightarrow> unit io" where
  "write_file pid p name contents =
     bindIO (temp_create pid p 64) (\<lambda>temporary w.
       case bindIO (fs_write_all p temporary contents) (\<lambda>_.
            bindIO (sys (\<lambda>d. (Inr (), d)) atomic) (\<lambda>_.
            fs_rename p temporary name)) w of
         (r, w) \<Rightarrow> (case fs_remove_file p temporary w of (_, w) \<Rightarrow> (r, w)))"

definition if_present :: "unit io \<Rightarrow> unit io" where
  "if_present remove w =
     (case remove w of
        (Inl e, w) \<Rightarrow> if io_kind e = NotFound then (Inr (), w) else (Inl e, w)
      | (Inr _, w) \<Rightarrow> (Inr (), w))"

definition remove_if_present :: "string \<Rightarrow> unit io" where
  "remove_if_present name = if_present (fs_remove_file None name)"

definition remove_dir_if_present :: "string \<Rightarrow> unit io" where
  "remove_dir_if_present name = if_present (fs_remove_dir_all None name)"

fun empty_loop :: "string \<Rightarrow> (string \<times> bool) list \<Rightarrow> unit io" where
  "empty_loop dir [] w = (Inr (), w)"
| "empty_loop dir ((name, is_dir) # entries) w =
     bindIO (sys (\<lambda>d. (Inr (), d)) atomic) (\<lambda>_.
     bindIO (if is_dir then fs_remove_dir_all (Some dir) name else fs_remove_file (Some dir) name) (\<lambda>_.
       empty_loop dir entries)) w"

definition empty_dir :: "string \<Rightarrow> unit io" where
  "empty_dir dir = bindIO (sys (list_op dir) atomic) (empty_loop dir)"

section \<open>Installing a directory\<close>

definition exchange_fallback :: "string \<Rightarrow> string \<Rightarrow> unit io" where
  "exchange_fallback staging live =
     (let previous = live @ ''.previous''
      in bindIO (remove_dir_if_present previous) (\<lambda>_.
         bindIO (fs_rename None live previous) (\<lambda>_ w.
           case fs_rename None staging live w of
             (Inl install_error, w) \<Rightarrow>
               (case fs_rename None previous live w of
                  (Inl restore_error, w) \<Rightarrow>
                    (Inl (IoError (io_kind install_error) None
                       (''rename '' @ staging @ '' to '' @ live @ '': '' @ io_text install_error @
                        ''; restore '' @ previous @ '' to '' @ live @ '': '' @ io_text restore_error)), w)
                | (Inr _, w) \<Rightarrow> (Inl install_error, w))
           | (Inr _, w) \<Rightarrow> remove_dir_if_present previous w)))"

definition unsupported :: "io_error \<Rightarrow> bool" where
  "unsupported e \<longleftrightarrow>
     raw_os_error e \<in> {Some 22, Some 38, Some 95} \<or> io_kind e = PermissionDenied"

definition exchange :: "string \<Rightarrow> string \<Rightarrow> unit io" where
  "exchange staging live w =
     (if \<not> exists_in w live then fs_rename None staging live w
      else case sys (exchange_op staging live) atomic w of
        (Inl e, w) \<Rightarrow> if unsupported e then exchange_fallback staging live w else (Inl e, w)
      | (Inr _, w) \<Rightarrow> remove_dir_if_present staging w)"

section \<open>The files\<close>

abbreviation backquote :: char where
  "backquote \<equiv> CHR 0x60"

definition bundle_header :: "entry list \<Rightarrow> string" where
  "bundle_header roots =
     ''# Peios trust store '' @ [CHR 0xE2, CHR 0x80, CHR 0x94] @
     '' generated by trustd; edits are overwritten.'' @ [newline] @
     ''#'' @ [newline] @
     ''# This file is a compatibility rendering of the machine'' @ [CHR 0x27] @ ''s trust store.'' @ [newline] @
     ''# It is composed from the roots the ca-certificates package ships and'' @ [newline] @
     ''# the additions and distrusts under Machine'' @ [backslash] @ ''System'' @ [backslash] @ ''Trust'' @
     [backslash] @ ''Certificates.'' @ [newline] @
     ''# To change what this machine trusts, use '' @ backquote # ''trust add'' @ backquote # '' / '' @
     backquote # ''trust distrust'' @ [backquote] @ [newline] @
     ''# or write the registry directly '' @ [CHR 0xE2, CHR 0x80, CHR 0x94] @ '' never this file.'' @ [newline] @
     ''#'' @ [newline] @
     ''# '' @ dec_str (length roots) @ '' root(s): '' @
     dec_str (length (filter (\<lambda>r. e_source r = Shipped) roots)) @ '' shipped, '' @
     dec_str (length (filter (\<lambda>r. e_source r = Added) roots)) @ '' added.'' @ [newline, newline]"

definition root_block :: "entry \<Rightarrow> string" where
  "root_block root =
     ''# '' @ subject (e_parsed root) @ [newline] @
     (case e_name root of Some name \<Rightarrow> ''# added as '' @ name @ [newline] | None \<Rightarrow> []) @
     ''# SHA-256 '' @ fingerprint (e_parsed root) @ [newline] @
     to_pem (der (e_parsed root)) @ [newline]"

definition bundle_for_roots :: "entry list \<Rightarrow> string" where
  "bundle_for_roots roots = foldl (\<lambda>out root. out @ root_block root) (bundle_header roots) roots"

definition bundle_of :: "composed \<Rightarrow> string" where
  "bundle_of composed = bundle_for_roots (for_purpose (c_roots composed) SERVER_AUTH)"

text \<open>The sequence number of a hash: its entry in \<open>used\<close> is bumped, or added.\<close>

fun bump :: "string \<Rightarrow> (string \<times> nat) list \<Rightarrow> nat \<times> (string \<times> nat) list" where
  "bump hash [] = (0, [(hash, 0)])"
| "bump hash ((h, n) # used) =
     (if h = hash then (n + 1, (h, n + 1) # used)
      else let (seq, used) = bump hash used in (seq, (h, n) # used))"

definition at_path :: "string \<Rightarrow> string \<Rightarrow> io_error \<Rightarrow> io_error" where
  "at_path operation path e =
     IoError (io_kind e) None (operation @ '' '' @ path @ '': '' @ io_text e)"

fun hashed_loop :: "nat \<Rightarrow> string \<Rightarrow> (string \<times> nat) list \<Rightarrow> entry list \<Rightarrow> unit io" where
  "hashed_loop pid root used [] w = (Inr (), w)"
| "hashed_loop pid root used (e # es) w =
     (let (seq, used) = bump (subject_hash_text (e_parsed e)) used;
          name = subject_hash_text (e_parsed e) @ ''.'' @ dec_str seq
      in bindIO (map_errIO (at_path ''write'' (root @ ''/certs.new/'' @ name))
            (write_file pid (Some ''certs.new'') name (as_bytes (to_pem (der (e_parsed e))))))
          (\<lambda>_. hashed_loop pid root used es) w)"

definition create_dir :: "string \<Rightarrow> unit io" where
  "create_dir name =
     sys (\<lambda>d. (Inr (), case fmlookup d name of None \<Rightarrow> fmupd name (Dir fmempty) d | Some _ \<Rightarrow> d)) atomic"

definition create_root :: "unit io" where
  "create_root w = (case sys (\<lambda>d. (Inr (), d)) atomic w of
     (Inr _, w) \<Rightarrow> (Inr (), w\<lparr>w_present := True\<rparr>) | (Inl e, w) \<Rightarrow> (Inl e, w))"

definition render :: "nat \<Rightarrow> string \<Rightarrow> composed \<Rightarrow> Compat \<Rightarrow> string list io" where
  "render pid root composed mode w =
     (if mode = CompatNone then
        bindIO (map_errIO (at_path ''remove'' (root @ ''/cert.pem'')) (remove_if_present ''cert.pem''))
          (\<lambda>_ w. if exists_in w ''certs''
             then bindIO (map_errIO (at_path ''empty'' (root @ ''/certs'')) (empty_dir ''certs''))
               (\<lambda>_. returnIO []) w
             else (Inr [], w)) w
      else
        bindIO (map_errIO (at_path ''create'' root) create_root) (\<lambda>_.
        bindIO (\<lambda>w. if exists_in w ''certs.new''
            then map_errIO (at_path ''empty'' (root @ ''/certs.new'')) (empty_dir ''certs.new'') w
            else map_errIO (at_path ''create'' (root @ ''/certs.new'')) (create_dir ''certs.new'') w) (\<lambda>_.
        let roots = for_purpose (c_roots composed) SERVER_AUTH;
            text = bundle_for_roots roots
        in
        bindIO (map_errIO (at_path ''write'' (root @ ''/certs.new/ca-certificates.crt''))
          (write_file pid (Some ''certs.new'') ''ca-certificates.crt'' (as_bytes text))) (\<lambda>_.
        bindIO (hashed_loop pid root [] roots) (\<lambda>_.
        bindIO (map_errIO (at_path ''install'' (root @ ''/certs'')) (exchange ''certs.new'' ''certs'')) (\<lambda>_.
        bindIO (map_errIO (at_path ''write'' (root @ ''/cert.pem''))
          (write_file pid None ''cert.pem'' (as_bytes text))) (\<lambda>_.
        returnIO [root @ ''/certs/ca-certificates.crt'', root @ ''/cert.pem'', root @ ''/certs''])))))) w)"

definition rendered_paths :: "string \<Rightarrow> world \<Rightarrow> string list" where
  "rendered_paths root w =
     (if (case fmlookup (w_dir w) ''certs'' of
            Some (Dir c) \<Rightarrow> fmlookup c ''ca-certificates.crt'' \<noteq> None | _ \<Rightarrow> False)
      then [root @ ''/certs/ca-certificates.crt''] else []) @
     (if exists_in w ''cert.pem'' then [root @ ''/cert.pem''] else [])"

text \<open>
  The identity of the shipped bundle, from its metadata: the length, and the modification time
  in seconds since the epoch (negative before it), each of which may not be had.
\<close>

definition stamp :: "(io_error + u64 \<times> (io_error + int)) \<Rightarrow> (u64 \<times> int) option" where
  "stamp metadata =
     (case metadata of
        Inl _ \<Rightarrow> None
      | Inr (len, modified) \<Rightarrow>
          (case modified of
             Inl _ \<Rightarrow> None
           | Inr secs \<Rightarrow> if secs < 0 then None else Some (len, as_i64 (word_of_int secs))))"

section \<open>Calls: lemmas\<close>

lemma bindIO_Inr_iff [conv]:
  "bindIO m f w = (Inr b, w') \<longleftrightarrow> (\<exists>a w1. m w = (Inr a, w1) \<and> f a w1 = (Inr b, w'))"
  by (auto simp: bindIO_def split: prod.splits sum.splits)

lemma bindIO_cases:
  assumes "bindIO m f w = (r, w')"
  obtains e where "m w = (Inl e, w')" and "r = Inl e"
    | a w1 where "m w = (Inr a, w1)" and "f a w1 = (r, w')"
  using assms by (auto simp: bindIO_def split: prod.splits sum.splits)

lemma map_errIO_Inr_iff [conv]: "map_errIO h m w = (Inr a, w') \<longleftrightarrow> m w = (Inr a, w')"
  by (cases "m w") (auto simp: map_errIO_def map_err_Inr_iff)

lemma map_errIO_cases:
  assumes "map_errIO h m w = (r, w')"
  obtains r0 where "m w = (r0, w')" and "r = map_err h r0"
  using assms by (cases "m w") (auto simp: map_errIO_def)

lemma sys_cases:
  assumes "sys op partial w = (r, w')"
  obtains e n where "r = Inl e" and "w_dir w' = partial n (w_dir w)"
    | "op (w_dir w) = (r, w_dir w')"
  using assms
  by (auto simp: sys_def split: list.splits outcome.splits prod.splits)

lemma get_set [simp]: "get_parent p d \<noteq> None \<Longrightarrow> get_parent p (set_parent p c d) = Some c"
  by (cases p) (auto simp: get_parent_def set_parent_def)

lemma set_set [simp]: "set_parent p c' (set_parent p c d) = set_parent p c' d"
  by (cases p) (auto simp: set_parent_def fmap_ext)

lemma set_get: "get_parent p d = Some c \<Longrightarrow> set_parent p c d = d"
  by (cases p) (auto simp: get_parent_def set_parent_def intro!: fmap_ext split: option.splits node.splits)

lemma sys_in_parent_Inr:
  assumes "sys (in_parent p f) partial w = (Inr a, w')"
  obtains c c' where "get_parent p (w_dir w) = Some c" and "f c = (Inr a, c')"
    and "w_dir w' = set_parent p c' (w_dir w)"
  using assms
  by (cases rule: sys_cases) (auto simp: in_parent_def split: option.splits prod.splits)

text \<open>What a call may touch: the entries of the store directory outside a set are left alone.\<close>

definition touches :: "string set \<Rightarrow> 'a io \<Rightarrow> bool" where
  "touches S m \<longleftrightarrow>
     (\<forall>w r w'. m w = (r, w') \<longrightarrow> (\<forall>n. n \<notin> S \<longrightarrow> fmlookup (w_dir w') n = fmlookup (w_dir w) n))"

lemma touchesD: "touches S m \<Longrightarrow> m w = (r, w') \<Longrightarrow> n \<notin> S \<Longrightarrow> fmlookup (w_dir w') n = fmlookup (w_dir w) n"
  unfolding touches_def by blast

lemma touchesI:
  "(\<And>w r w' n. m w = (r, w') \<Longrightarrow> n \<notin> S \<Longrightarrow> fmlookup (w_dir w') n = fmlookup (w_dir w) n) \<Longrightarrow> touches S m"
  unfolding touches_def by blast

lemma touches_bind [intro]:
  assumes "touches S m" and "\<And>a. touches S (f a)"
  shows "touches S (bindIO m f)"
proof (rule touchesI)
  fix w r w' n
  assume b: "bindIO m f w = (r, w')" and n: "n \<notin> S"
  from b show "fmlookup (w_dir w') n = fmlookup (w_dir w) n"
  proof (cases rule: bindIO_cases)
    case (1 e)
    then show ?thesis using touchesD [OF assms(1) _ n] by blast
  next
    case (2 a w1)
    then show ?thesis using touchesD [OF assms(1) _ n] touchesD [OF assms(2) _ n] by metis
  qed
qed

lemma touches_map_err [intro]:
  assumes "touches S m"
  shows "touches S (map_errIO h m)"
proof (rule touchesI)
  fix w r w' n
  assume "map_errIO h m w = (r, w')" and n: "n \<notin> S"
  then obtain r0 where "m w = (r0, w')" by (auto elim: map_errIO_cases)
  then show "fmlookup (w_dir w') n = fmlookup (w_dir w) n" by (rule touchesD [OF assms _ n])
qed

lemma touches_mono: "touches S m \<Longrightarrow> S \<subseteq> T \<Longrightarrow> touches T m"
  unfolding touches_def by blast

lemma touches_sys:
  assumes "\<And>d n. n \<notin> S \<Longrightarrow> fmlookup (snd (op d)) n = fmlookup d n"
    and "\<And>d k n. n \<notin> S \<Longrightarrow> fmlookup (partial k d) n = fmlookup d n"
  shows "touches S (sys op partial)"
proof (rule touchesI)
  fix w r w' n
  assume "sys op partial w = (r, w')" and n: "n \<notin> S"
  then show "fmlookup (w_dir w') n = fmlookup (w_dir w) n"
  proof (cases rule: sys_cases)
    case (1 e k)
    then show ?thesis using assms(2) [OF n] by simp
  next
    case 2
    then show ?thesis using assms(1) [OF n, of "w_dir w"] by simp
  qed
qed

lemma in_parent_other: "n \<noteq> s \<Longrightarrow> fmlookup (snd (in_parent (Some s) f d)) n = fmlookup d n"
  by (auto simp: in_parent_def set_parent_def split: option.split prod.split)

lemma part_of_other: "n \<noteq> s \<Longrightarrow> fmlookup (part_of (Some s) f d) n = fmlookup d n"
  by (auto simp: part_of_def set_parent_def split: option.split)

lemma touches_in [intro]:
  "touches {s} (sys (in_parent (Some s) f) atomic)"
  "touches {s} (sys (in_parent (Some s) f) (\<lambda>n. part_of (Some s) (g n)))"
  by (rule touches_sys; simp add: in_parent_other part_of_other)+

lemma touches_id [intro]: "touches S (sys (\<lambda>d. (Inr (), d)) atomic)"
  by (rule touches_sys) simp_all

lemma touches_in_ops [intro]:
  "touches {s} (fs_rename (Some s) a b)" "touches {s} (fs_remove_file (Some s) a)"
  "touches {s} (fs_remove_dir_all (Some s) a)" "touches {s} (fs_write_all (Some s) a x)"
  unfolding fs_rename_def fs_remove_file_def fs_remove_dir_all_def fs_write_all_def
  by (rule touches_in)+

lemma touches_temp_create [intro]: "touches {s} (temp_create pid (Some s) tries)"
  unfolding touches_def
proof (intro allI impI)
  fix w r w' n
  assume "temp_create pid (Some s) tries w = (r, w')" and "n \<notin> {s}"
  then show "fmlookup (w_dir w') n = fmlookup (w_dir w) n"
  proof (induction tries arbitrary: w)
    case (Suc tries)
    let ?w = "w\<lparr>w_next := w_next w + 1\<rparr>"
    obtain r1 w1 where 1: "sys (in_parent (Some s) (create_new_op (temp_name pid (w_next w)))) atomic ?w = (r1, w1)"
      by fastforce
    have "fmlookup (w_dir w1) n = fmlookup (w_dir w) n"
      using touchesD [OF touches_in(1) 1 Suc.prems(2)] by simp
    then show ?case
      using Suc 1 by (auto simp: Let_def split: sum.splits if_splits)
  qed simp
qed

lemma touches_write_file [intro]: "touches {s} (write_file pid (Some s) name x)"
  unfolding write_file_def
proof (rule touches_bind [OF touches_temp_create])
  fix tmp
  let ?m = "bindIO (fs_write_all (Some s) tmp x) (\<lambda>_.
            bindIO (sys (\<lambda>d. (Inr (), d)) atomic) (\<lambda>_. fs_rename (Some s) tmp name))"
  have m: "touches {s} ?m" by (intro touches_bind touches_in_ops touches_id)
  show "touches {s} (\<lambda>w. case ?m w of (r, w) \<Rightarrow> (case fs_remove_file (Some s) tmp w of (_, w) \<Rightarrow> (r, w)))"
    unfolding touches_def
  proof (intro allI impI)
    fix w r w' n
    assume e: "(case ?m w of (r, w) \<Rightarrow> (case fs_remove_file (Some s) tmp w of (_, w) \<Rightarrow> (r, w))) = (r, w')"
      and n: "n \<notin> {s}"
    obtain r1 w1 where 1: "?m w = (r1, w1)" by fastforce
    obtain r2 w2 where 2: "fs_remove_file (Some s) tmp w1 = (r2, w2)" by fastforce
    have "w' = w2" using e by (simp add: 1 2)
    then show "fmlookup (w_dir w') n = fmlookup (w_dir w) n"
      using touchesD [OF m 1 n] touchesD [OF touches_in_ops(2) 2 n] by simp
  qed
qed

section \<open>A file is written whole: lemmas\<close>

lemma write_all_Inr:
  assumes "fs_write_all p n x w = (Inr u, w')"
  obtains c where "get_parent p (w_dir w) = Some c"
    and "w_dir w' = set_parent p (fmupd n (File x) c) (w_dir w)"
  using assms unfolding fs_write_all_def by (elim sys_in_parent_Inr) auto

lemma rename_Inr:
  assumes "fs_rename p a b w = (Inr u, w')"
  obtains c x where "get_parent p (w_dir w) = Some c" and "fmlookup c a = Some x"
    and "w_dir w' = set_parent p (fmupd b x (fmdrop a c)) (w_dir w)"
  using assms unfolding fs_rename_def
  by (elim sys_in_parent_Inr) (auto simp: rename_op_def split: option.splits if_splits)

lemma rename_Inl:
  assumes "fs_rename p a b w = (Inl e, w')"
  shows "w_dir w' = w_dir w"
  using assms unfolding fs_rename_def
  by (elim sys_cases)
    (auto simp: in_parent_def rename_op_def set_get split: option.splits prod.splits if_splits)

lemma create_new_outcome:
  assumes "sys (in_parent p (create_new_op path)) atomic w = (r, w')"
  shows "case r of
      Inr _ \<Rightarrow> \<exists>c. get_parent p (w_dir w) = Some c \<and> fmlookup c path = None \<and>
        w_dir w' = set_parent p (fmupd path (File []) c) (w_dir w)
    | Inl _ \<Rightarrow> w_dir w' = w_dir w"
  using assms
  by (elim sys_cases)
    (auto simp: in_parent_def create_new_op_def set_get split: option.splits prod.splits if_splits)

lemma temp_create_outcome:
  assumes "temp_create pid p tries w = (r, w')"
  shows "case r of
      Inr path \<Rightarrow> (\<exists>k. path = temp_name pid k) \<and>
        (\<exists>c. get_parent p (w_dir w) = Some c \<and> fmlookup c path = None \<and>
          w_dir w' = set_parent p (fmupd path (File []) c) (w_dir w))
    | Inl _ \<Rightarrow> w_dir w' = w_dir w"
  using assms
proof (induction tries arbitrary: w)
  case 0
  then show ?case by auto
next
  case (Suc tries)
  let ?path = "temp_name pid (w_next w)" and ?w = "w\<lparr>w_next := w_next w + 1\<rparr>"
  obtain r1 w1 where 1: "sys (in_parent p (create_new_op ?path)) atomic ?w = (r1, w1)" by fastforce
  show ?case
  proof (cases r1)
    case (Inr u)
    then have "r = Inr ?path" "w' = w1" using Suc.prems 1 by (simp_all add: Let_def)
    then show ?thesis using create_new_outcome [OF 1] Inr by auto
  next
    case (Inl e)
    then have same: "w_dir w1 = w_dir w" using create_new_outcome [OF 1] by simp
    show ?thesis
    proof (cases "io_kind e = AlreadyExists")
      case True
      then have "temp_create pid p tries w1 = (r, w')" using Suc.prems 1 Inl by (simp add: Let_def)
      from Suc.IH [OF this] show ?thesis by (simp only: same)
    next
      case False
      then show ?thesis using Suc.prems 1 Inl same by (auto simp: Let_def)
    qed
  qed
qed

lemma remove_absent:
  assumes "fs_remove_file p n w = (r, w')" and "get_parent p (w_dir w) = Some c" and "fmlookup c n = None"
  shows "w_dir w' = w_dir w"
  using assms unfolding fs_remove_file_def
  by (elim sys_cases) (auto simp: in_parent_def remove_file_op_def set_get)

text \<open>The body of \<open>write_file\<close> between the reservation and the clean-up.\<close>

definition fill_temp :: "string option \<Rightarrow> string \<Rightarrow> string \<Rightarrow> bytes \<Rightarrow> unit io" where
  "fill_temp p tmp name x =
     bindIO (fs_write_all p tmp x) (\<lambda>_. bindIO (sys (\<lambda>d. (Inr (), d)) atomic) (\<lambda>_. fs_rename p tmp name))"

lemma sync_dir: "sys (\<lambda>d. (Inr (), d)) atomic w = (r, w') \<Longrightarrow> w_dir w' = w_dir w"
  by (elim sys_cases) auto

lemma fill_temp_Inr:
  assumes "fill_temp p tmp name x w = (Inr u, w')"
  obtains c where "get_parent p (w_dir w) = Some c"
    and "w_dir w' = set_parent p (fmupd name (File x) (fmdrop tmp c)) (w_dir w)"
proof -
  from assms obtain w1 w2 where 1: "fs_write_all p tmp x w = (Inr (), w1)"
    and 2: "sys (\<lambda>d. (Inr (), d)) atomic w1 = (Inr (), w2)" and 3: "fs_rename p tmp name w2 = (Inr u, w')"
    by (auto simp: fill_temp_def conv)
  obtain c where c: "get_parent p (w_dir w) = Some c" "w_dir w1 = set_parent p (fmupd tmp (File x) c) (w_dir w)"
    using 1 by (rule write_all_Inr)
  have w2: "w_dir w2 = w_dir w1" using 2 by (rule sync_dir)
  have gp: "get_parent p (w_dir w1) = Some (fmupd tmp (File x) c)" using c by simp
  obtain c2 y where r: "get_parent p (w_dir w2) = Some c2" "fmlookup c2 tmp = Some y"
    "w_dir w' = set_parent p (fmupd name y (fmdrop tmp c2)) (w_dir w2)"
    using 3 by (rule rename_Inr)
  have "c2 = fmupd tmp (File x) c" using r(1) gp w2 by simp
  then have "y = File x" "fmdrop tmp c2 = fmdrop tmp c" using r(2) by (auto intro: fmap_ext)
  then have "w_dir w' = set_parent p (fmupd name (File x) (fmdrop tmp c)) (w_dir w)"
    using r(3) w2 c by simp
  then show thesis using c(1) that by blast
qed

lemma write_file_eq:
  "write_file pid p name x =
     bindIO (temp_create pid p 64) (\<lambda>tmp w. case fill_temp p tmp name x w of
        (r, w) \<Rightarrow> (case fs_remove_file p tmp w of (_, w) \<Rightarrow> (r, w)))"
  unfolding write_file_def fill_temp_def ..

lemma write_file_Inr:
  assumes "write_file pid p name x w = (Inr u, w')" and "\<And>k. name \<noteq> temp_name pid k"
  obtains c where "get_parent p (w_dir w) = Some c"
    and "w_dir w' = set_parent p (fmupd name (File x) c) (w_dir w)"
proof -
  obtain tmp w1 where 1: "temp_create pid p 64 w = (Inr tmp, w1)"
    and 2: "(case fill_temp p tmp name x w1 of (r, w) \<Rightarrow> (case fs_remove_file p tmp w of (_, w) \<Rightarrow> (r, w))) = (Inr u, w')"
    using assms(1) unfolding write_file_eq by (auto simp: bindIO_Inr_iff)
  obtain w2 where 3: "fill_temp p tmp name x w1 = (Inr u, w2)" and 4: "fs_remove_file p tmp w2 = (fst (fs_remove_file p tmp w2), w')"
    using 2 by (auto split: prod.splits)
  obtain c k where c: "get_parent p (w_dir w) = Some c" "fmlookup c tmp = None" "tmp = temp_name pid k"
    "w_dir w1 = set_parent p (fmupd tmp (File []) c) (w_dir w)"
    using temp_create_outcome [OF 1] by auto
  obtain c1 where c1: "get_parent p (w_dir w1) = Some c1"
    "w_dir w2 = set_parent p (fmupd name (File x) (fmdrop tmp c1)) (w_dir w1)"
    using 3 by (rule fill_temp_Inr)
  have "c1 = fmupd tmp (File []) c" using c c1 by simp
  then have drop: "fmdrop tmp c1 = c" using c(2) by (auto intro: fmap_ext)
  have w2: "w_dir w2 = set_parent p (fmupd name (File x) c) (w_dir w)" using c1(2) c drop by simp
  have "fmlookup (fmupd name (File x) c) tmp = None" using c assms(2) by auto
  moreover have "get_parent p (w_dir w2) = Some (fmupd name (File x) c)" using w2 c by simp
  ultimately have "w_dir w' = w_dir w2" using remove_absent [OF 4] by blast
  then show thesis using that c(1) w2 by simp
qed

text \<open>Whatever the outcome, the store's own entries other than temporaries are as before or the new file.\<close>

lemma touches_root:
  assumes "\<And>c n. n \<notin> S \<Longrightarrow> fmlookup (snd (f c)) n = fmlookup c n"
    and "\<And>k c n. n \<notin> S \<Longrightarrow> fmlookup (g k c) n = fmlookup c n"
  shows "touches S (sys (in_parent None f) (\<lambda>k. part_of None (g k)))"
    and "touches S (sys (in_parent None f) atomic)"
proof -
  have f: "fmlookup (snd (in_parent None f d)) n = fmlookup d n" if "n \<notin> S" for d n
    using assms(1) [OF that, of d] by (simp add: in_parent_def get_parent_def set_parent_def split: prod.split)
  show "touches S (sys (in_parent None f) (\<lambda>k. part_of None (g k)))"
    by (rule touches_sys) (simp_all add: f part_of_def get_parent_def set_parent_def assms(2))
  show "touches S (sys (in_parent None f) atomic)"
    by (rule touches_sys) (simp_all add: f)
qed

lemma touches_None:
  "touches {n} (fs_write_all None n x)" "touches {n} (fs_remove_file None n)"
  "touches {n} (fs_remove_dir_all None n)" "touches {a, b} (fs_rename None a b)"
proof -
  show "touches {n} (fs_write_all None n x)"
    unfolding fs_write_all_def by (rule touches_root) simp_all
  show "touches {n} (fs_remove_file None n)"
    unfolding fs_remove_file_def
    by (rule touches_root(2) [where g = "\<lambda>_ c. c"]) (simp_all add: remove_file_op_def split: option.split node.split)
  show "touches {n} (fs_remove_dir_all None n)"
    unfolding fs_remove_dir_all_def
    by (rule touches_root) (simp_all add: remove_dir_op_def remove_dir_part_def split: option.split node.split)
  show "touches {a, b} (fs_rename None a b)"
    unfolding fs_rename_def
    by (rule touches_root(2) [where g = "\<lambda>_ c. c"]) (auto simp: rename_op_def split: option.split)
qed

lemma write_file_store:
  assumes "write_file pid None name x w = (r, w')" and "\<And>k. n \<noteq> temp_name pid k" and "\<And>k. name \<noteq> temp_name pid k"
  shows "fmlookup (w_dir w') n = (if n = name \<and> r = Inr () then Some (File x) else fmlookup (w_dir w) n)"
proof (cases r)
  case (Inr u)
  obtain c where "get_parent None (w_dir w) = Some c" "w_dir w' = set_parent None (fmupd name (File x) c) (w_dir w)"
    using assms(1) [unfolded Inr] assms(3) by (rule write_file_Inr)
  then show ?thesis using Inr by (simp add: get_parent_def set_parent_def)
next
  case (Inl e)
  from assms(1) [unfolded write_file_eq] show ?thesis
  proof (cases rule: bindIO_cases)
    case (1 e)
    then show ?thesis using temp_create_outcome [OF 1(1)] Inl by simp
  next
    case (2 tmp w1)
    obtain r2 w2 where f: "fill_temp None tmp name x w1 = (r2, w2)" by fastforce
    obtain r3 w3 where g: "fs_remove_file None tmp w2 = (r3, w3)" by fastforce
    have r: "r2 = Inl e" "w3 = w'" using 2(2) f g Inl by auto
    have tmp: "n \<noteq> tmp" using temp_create_outcome [OF 2(1)] assms(2) by auto
    have "fmlookup (w_dir w1) n = fmlookup (w_dir w) n"
      using temp_create_outcome [OF 2(1)] tmp by (auto simp: get_parent_def set_parent_def)
    moreover have "fmlookup (w_dir w2) n = fmlookup (w_dir w1) n"
      using f [unfolded fill_temp_def r(1)]
    proof (cases rule: bindIO_cases)
      case (1 e)
      then show ?thesis using touchesD [OF touches_None(1)] tmp by blast
    next
      case (2 a w4)
      have 4: "fmlookup (w_dir w4) n = fmlookup (w_dir w1) n"
        using touchesD [OF touches_None(1) 2(1)] tmp by blast
      from 2(2) show ?thesis
      proof (cases rule: bindIO_cases)
        case (1 e)
        then show ?thesis using 4 sync_dir by metis
      next
        case (2 b w5)
        then show ?thesis using 4 sync_dir rename_Inl by metis
      qed
    qed
    moreover have "fmlookup (w_dir w3) n = fmlookup (w_dir w2) n"
      using touchesD [OF touches_None(2) g] tmp by blast
    ultimately show ?thesis using r Inl by simp
  qed
qed

section \<open>A directory is emptied and filled: lemmas\<close>

definition subdir :: "string \<Rightarrow> world \<Rightarrow> dir option" where
  "subdir s w = get_parent (Some s) (w_dir w)"

lemma sub_set: "get_parent (Some s) (w_dir w) = Some c \<Longrightarrow> w_dir w' = set_parent (Some s) c' (w_dir w) \<Longrightarrow> subdir s w' = Some c'"
  by (simp add: subdir_def)

lemma remove_Inr:
  assumes "(if is_dir then fs_remove_dir_all (Some s) n else fs_remove_file (Some s) n) w = (Inr u, w')"
    and "subdir s w = Some c"
  shows "subdir s w' = Some (fmdrop n c)"
proof (cases is_dir)
  case True
  then obtain c0 c' where "get_parent (Some s) (w_dir w) = Some c0" "remove_dir_op n c0 = (Inr u, c')"
    "w_dir w' = set_parent (Some s) c' (w_dir w)"
    using assms(1) unfolding fs_remove_dir_all_def by (auto elim: sys_in_parent_Inr)
  then show ?thesis
    using assms(2) by (auto simp: subdir_def remove_dir_op_def split: option.splits node.splits)
next
  case False
  then obtain c0 c' where "get_parent (Some s) (w_dir w) = Some c0" "remove_file_op n c0 = (Inr u, c')"
    "w_dir w' = set_parent (Some s) c' (w_dir w)"
    using assms(1) unfolding fs_remove_file_def by (auto elim: sys_in_parent_Inr)
  then show ?thesis
    using assms(2) by (auto simp: subdir_def remove_file_op_def split: option.splits node.splits)
qed

lemma empty_loop_Inr:
  assumes "empty_loop s entries w = (Inr u, w')" and "subdir s w = Some c"
  shows "subdir s w' = Some (foldl (\<lambda>c n. fmdrop n c) c (map fst entries))"
  using assms
proof (induction entries arbitrary: w c)
  case (Cons entry entries)
  obtain n is_dir where e: "entry = (n, is_dir)" by fastforce
  obtain w1 w2 where 1: "sys (\<lambda>d. (Inr (), d)) atomic w = (Inr (), w1)"
    and 2: "(if is_dir then fs_remove_dir_all (Some s) n else fs_remove_file (Some s) n) w1 = (Inr (), w2)"
    and 3: "empty_loop s entries w2 = (Inr u, w')"
    using Cons.prems(1) by (auto simp: e conv)
  have "subdir s w1 = Some c" using sync_dir [OF 1] Cons.prems(2) by (simp add: subdir_def)
  from remove_Inr [OF 2 this] have "subdir s w2 = Some (fmdrop n c)" .
  from Cons.IH [OF 3 this] show ?case by (simp add: e)
qed simp

lemma drop_names: "foldl (\<lambda>c n. fmdrop n c) c ns = fmdrop_set (set ns) c"
proof (induction ns arbitrary: c)
  case (Cons n ns)
  show ?case unfolding foldl_Cons Cons by (intro fmap_ext) simp
qed simp

lemma empty_dir_Inr:
  assumes "empty_dir s w = (Inr u, w')"
  shows "subdir s w' = Some fmempty"
proof -
  obtain entries w1 where 1: "sys (list_op s) atomic w = (Inr entries, w1)"
    and 2: "empty_loop s entries w1 = (Inr u, w')"
    using assms by (auto simp: empty_dir_def bindIO_Inr_iff)
  from 1 have op: "list_op s (w_dir w) = (Inr entries, w_dir w1)"
    by (elim sys_cases) auto
  then obtain c where c: "fmlookup (w_dir w) s = Some (Dir c)" "map fst entries = names_of c" "w_dir w1 = w_dir w"
    by (auto simp: list_op_def comp_def split: option.splits node.splits)
  then have "subdir s w1 = Some c" by (simp add: subdir_def get_parent_def)
  from empty_loop_Inr [OF 2 this]
  have "subdir s w' = Some (fmdrop_set (set (names_of c)) c)" by (simp only: c drop_names)
  moreover have "fmdrop_set (set (names_of c)) c = fmempty"
    by (intro fmap_ext) (simp add: names_of_def fmdom_notD)
  ultimately show ?thesis by simp
qed

lemma touches_empty [intro]: "touches {s} (empty_dir s)"
proof -
  have loop: "touches {s} (empty_loop s entries)" for entries
  proof (rule touchesI)
    fix w r w' n
    assume "empty_loop s entries w = (r, w')" and n: "n \<notin> {s}"
    then show "fmlookup (w_dir w') n = fmlookup (w_dir w) n"
    proof (induction entries arbitrary: w)
      case (Cons entry entries)
      obtain m is_dir where e: "entry = (m, is_dir)" by fastforce
      have rm: "touches {s} (if is_dir then fs_remove_dir_all (Some s) m else fs_remove_file (Some s) m)"
        by auto
      from Cons.prems(1) [unfolded e empty_loop.simps] show ?case
      proof (cases rule: bindIO_cases)
        case (1 x)
        then show ?thesis using sync_dir by metis
      next
        case (2 a w1)
        have w1: "w_dir w1 = w_dir w" using sync_dir [OF 2(1)] .
        from 2(2) show ?thesis
        proof (cases rule: bindIO_cases)
          case (1 x)
          then show ?thesis using touchesD [OF rm 1(1) n] w1 by simp
        next
          case (2 b w2)
          then show ?thesis using touchesD [OF rm 2(1) n] Cons.IH [OF 2(2) n] w1 by simp
        qed
      qed
    qed simp
  qed
  have "touches {s} (sys (list_op s) atomic)"
    by (rule touches_sys) (simp_all add: list_op_def split: option.split node.split)
  then show ?thesis unfolding empty_dir_def using loop by (rule touches_bind)
qed

text \<open>The names of the hashed files, and the directory a rendering is.\<close>

fun hashed_files :: "(string \<times> nat) list \<Rightarrow> entry list \<Rightarrow> (string \<times> node) list" where
  "hashed_files used [] = []"
| "hashed_files used (e # es) =
     (let (seq, used) = bump (subject_hash_text (e_parsed e)) used
      in (subject_hash_text (e_parsed e) @ ''.'' @ dec_str seq,
          File (as_bytes (to_pem (der (e_parsed e))))) # hashed_files used es)"

definition rendering :: "composed \<Rightarrow> (string \<times> node) list" where
  "rendering composed =
     (let roots = for_purpose (c_roots composed) SERVER_AUTH
      in (''ca-certificates.crt'', File (as_bytes (bundle_for_roots roots))) # hashed_files [] roots)"

definition fill :: "dir \<Rightarrow> (string \<times> node) list \<Rightarrow> dir" where
  "fill c files = foldl (\<lambda>c (n, x). fmupd n x c) c files"

lemma last_digit: "n \<noteq> temp_name pid k" if "n = h @ ''.'' @ dec_str s" for n
proof -
  have ne: "dec_str s \<noteq> []" for s by (subst dec_str.simps) simp
  have "is_ascii_digit (last n)" using that ne dec_str_digits [of "last (dec_str s)" s] by simp
  moreover have "last (temp_name pid k) = CHR ''p''" by (simp add: temp_name_def)
  ultimately show ?thesis by (auto simp: is_ascii_digit_def)
qed

lemma fixed_not_temp:
  "''ca-certificates.crt'' \<noteq> temp_name pid k" "''cert.pem'' \<noteq> temp_name pid k"
  "''certs'' \<noteq> temp_name pid k" "''certs.new'' \<noteq> temp_name pid k"
  "''certs.previous'' \<noteq> temp_name pid k"
  by (simp_all add: temp_name_def)

lemma hashed_loop_Inr:
  assumes "hashed_loop pid root used es w = (Inr u, w')" and "subdir ''certs.new'' w = Some c"
  shows "subdir ''certs.new'' w' = Some (fill c (hashed_files used es))"
  using assms
proof (induction es arbitrary: used w c)
  case Nil
  then show ?case by (simp add: fill_def)
next
  case (Cons e es)
  let ?h = "subject_hash_text (e_parsed e)"
  obtain seq used' where b: "bump ?h used = (seq, used')" by fastforce
  let ?name = "?h @ ''.'' @ dec_str seq" and ?x = "as_bytes (to_pem (der (e_parsed e)))"
  obtain w1 where 1: "write_file pid (Some ''certs.new'') ?name ?x w = (Inr (), w1)"
    and 2: "hashed_loop pid root used' es w1 = (Inr u, w')"
    using Cons.prems(1) by (auto simp: b Let_def conv)
  have "\<And>k. ?name \<noteq> temp_name pid k" by (rule last_digit) simp
  with 1 obtain c1 where c1: "get_parent (Some ''certs.new'') (w_dir w) = Some c1"
    "w_dir w1 = set_parent (Some ''certs.new'') (fmupd ?name (File ?x) c1) (w_dir w)"
    by (rule write_file_Inr)
  have "c1 = c" using c1(1) Cons.prems(2) by (simp add: subdir_def)
  then have "subdir ''certs.new'' w1 = Some (fmupd ?name (File ?x) c)" using sub_set [OF c1] by simp
  from Cons.IH [OF 2 this] show ?case by (simp add: fill_def b)
qed

lemma touches_hashed [intro]: "touches {''certs.new''} (hashed_loop pid root used es)"
proof (induction es arbitrary: used)
  case Nil
  then show ?case by (auto simp: touches_def)
next
  case (Cons e es)
  obtain seq used' where b: "bump (subject_hash_text (e_parsed e)) used = (seq, used')" by fastforce
  have "touches {''certs.new''} (bindIO (map_errIO h (write_file pid (Some ''certs.new'') name x))
      (\<lambda>_. hashed_loop pid root used' es))" for h name x
    using Cons by auto
  then show ?case unfolding touches_def by (simp add: b Let_def)
qed

section \<open>A directory is installed: lemmas\<close>

lemma touches_if_present [intro]: "touches S m \<Longrightarrow> touches S (if_present m)"
  by (rule touchesI) (auto simp: if_present_def dest: touchesD split: prod.splits sum.splits if_splits)

lemma touches_remove_dir [intro]: "touches {n} (remove_dir_if_present n)"
  unfolding remove_dir_if_present_def by (intro touches_if_present touches_None)

lemma touches_remove [intro]: "touches {n} (remove_if_present n)"
  unfolding remove_if_present_def by (intro touches_if_present touches_None)

lemma if_present_Inr: "if_present m w = (Inr u, w') \<Longrightarrow>
    m w = (Inr u, w') \<or> (\<exists>e. m w = (Inl e, w') \<and> io_kind e = NotFound)"
  by (auto simp: if_present_def split: prod.splits sum.splits if_splits)

lemma rename_store:
  assumes "fs_rename None a b w = (Inr u, w')" and "a \<noteq> b"
  shows "fmlookup (w_dir w') b = fmlookup (w_dir w) a \<and> fmlookup (w_dir w) a \<noteq> None \<and>
    fmlookup (w_dir w') a = None"
proof -
  obtain c x where "get_parent None (w_dir w) = Some c" "fmlookup c a = Some x"
    "w_dir w' = set_parent None (fmupd b x (fmdrop a c)) (w_dir w)"
    using assms(1) by (rule rename_Inr)
  then show ?thesis using assms(2) by (simp add: get_parent_def set_parent_def)
qed

text \<open>
  Installing: the live name ends up with the old directory, the staged one, or nothing, and in
  the last case what was there is kept under the name for the previous one.
\<close>

lemma fallback_outcome:
  assumes run: "exchange_fallback staging live w = (r, w')"
    and names: "staging \<noteq> live" "staging \<noteq> live @ ''.previous''"
    and x: "fmlookup (w_dir w) staging = Some x"
  shows "(if r = Inr () then fmlookup (w_dir w') live = Some x \<and> fmlookup (w_dir w') staging = None
     else fmlookup (w_dir w') live \<in> {fmlookup (w_dir w) live, Some x} \<or>
       (fmlookup (w_dir w') live = None \<and>
        fmlookup (w_dir w') (live @ ''.previous'') = fmlookup (w_dir w) live)) \<and>
    (\<forall>n. n \<notin> {staging, live, live @ ''.previous''} \<longrightarrow> fmlookup (w_dir w') n = fmlookup (w_dir w) n)"
proof -
  let ?p = "live @ ''.previous''"
  have p: "live \<noteq> ?p" by simp
  from run [unfolded exchange_fallback_def Let_def] show ?thesis
  proof (cases rule: bindIO_cases)
    case (1 e)
    then show ?thesis using touchesD [OF touches_remove_dir 1(1)] p by auto
  next
    case (2 a w1)
    have w1: "fmlookup (w_dir w1) n = fmlookup (w_dir w) n" if "n \<noteq> ?p" for n
      using touchesD [OF touches_remove_dir 2(1)] that by simp
    from 2(2) show ?thesis
    proof (cases rule: bindIO_cases)
      case (1 e)
      then show ?thesis using w1 rename_Inl [OF 1(1)] p by auto
    next
      case (2 b w2)
      have w2: "fmlookup (w_dir w2) ?p = fmlookup (w_dir w) live" "fmlookup (w_dir w2) live = None"
        using rename_store [OF 2(1) p] w1 p by auto
      have w2': "fmlookup (w_dir w2) n = fmlookup (w_dir w) n" if "n \<notin> {live, ?p}" for n
        using touchesD [OF touches_None(4) 2(1)] w1 that by simp
      obtain r3 w3 where 3: "fs_rename None staging live w2 = (r3, w3)" by fastforce
      show ?thesis
      proof (cases r3)
        case (Inr c)
        have w3: "fmlookup (w_dir w3) live = Some x" "fmlookup (w_dir w3) staging = None"
          using rename_store [OF 3 [unfolded Inr] names(1)] w2' names x by auto
        have w3': "fmlookup (w_dir w3) n = fmlookup (w_dir w2) n" if "n \<notin> {staging, live}" for n
          using touchesD [OF touches_None(4) 3] that by simp
        have "remove_dir_if_present ?p w3 = (r, w')" using 2(2) 3 Inr by simp
        from touchesD [OF touches_remove_dir this] show ?thesis using w3 w3' w2' p names by auto
      next
        case (Inl e)
        have w3: "w_dir w3 = w_dir w2" using rename_Inl 3 Inl by metis
        obtain r4 w4 where 4: "fs_rename None ?p live w3 = (r4, w4)" by fastforce
        have r: "w' = w4" "r \<noteq> Inr ()" using 2(2) 3 4 Inl by (auto split: sum.splits)
        show ?thesis
        proof (cases r4)
          case (Inr d)
          have "fmlookup (w_dir w4) live = fmlookup (w_dir w) live"
            using rename_store [OF 4 [unfolded Inr]] w3 w2 p by auto
          moreover have "fmlookup (w_dir w4) n = fmlookup (w_dir w) n" if "n \<notin> {?p, live}" for n
            using touchesD [OF touches_None(4) 4] w3 w2' that by auto
          ultimately show ?thesis using r by auto
        next
          case (Inl e)
          then have "w_dir w4 = w_dir w2" using rename_Inl 4 w3 by metis
          then show ?thesis using r w2 w2' by auto
        qed
      qed
    qed
  qed
qed

lemma exchange_outcome:
  assumes run: "exchange staging live w = (r, w')"
    and names: "staging \<noteq> live" "staging \<noteq> live @ ''.previous''"
    and x: "fmlookup (w_dir w) staging = Some x"
  shows "(if r = Inr () then fmlookup (w_dir w') live = Some x
     else fmlookup (w_dir w') live \<in> {fmlookup (w_dir w) live, Some x} \<or>
       (fmlookup (w_dir w') live = None \<and>
        fmlookup (w_dir w') (live @ ''.previous'') = fmlookup (w_dir w) live)) \<and>
    (\<forall>n. n \<notin> {staging, live, live @ ''.previous''} \<longrightarrow> fmlookup (w_dir w') n = fmlookup (w_dir w) n)"
proof (cases "exists_in w live")
  case False
  then have ren: "fs_rename None staging live w = (r, w')" using run by (simp add: exchange_def)
  show ?thesis
  proof (cases r)
    case (Inr u)
    then show ?thesis
      using rename_store [OF ren [unfolded Inr] names(1)] touchesD [OF touches_None(4) ren] x by auto
  next
    case (Inl e)
    then show ?thesis using rename_Inl ren by auto
  qed
next
  case True
  obtain r1 w1 where 1: "sys (exchange_op staging live) atomic w = (r1, w1)" by fastforce
  show ?thesis
  proof (cases r1)
    case (Inl e)
    then have same: "w_dir w1 = w_dir w"
      using 1 by (elim sys_cases) (auto simp: exchange_op_def split: option.splits)
    show ?thesis
    proof (cases "unsupported e")
      case True
      then have "exchange_fallback staging live w1 = (r, w')"
        using run \<open>exists_in w live\<close> 1 Inl by (simp add: exchange_def)
      from fallback_outcome [OF this names] show ?thesis using same x by auto
    next
      case False
      then have "w' = w1" "r \<noteq> Inr ()" using run \<open>exists_in w live\<close> 1 Inl by (auto simp: exchange_def)
      then show ?thesis using same by auto
    qed
  next
    case (Inr u)
    have "exchange_op staging live (w_dir w) = (r1, w_dir w1)"
      using 1 Inr by (elim sys_cases) auto
    then obtain y where "w_dir w1 = fmupd live x (fmupd staging y (w_dir w))"
      using x Inr by (auto simp: exchange_op_def intro: that [OF sym] split: option.splits)
    then have w1: "fmlookup (w_dir w1) live = Some x"
      "\<And>n. n \<notin> {staging, live} \<Longrightarrow> fmlookup (w_dir w1) n = fmlookup (w_dir w) n" by auto
    have "remove_dir_if_present staging w1 = (r, w')"
      using run True 1 Inr by (simp add: exchange_def)
    from touchesD [OF touches_remove_dir this] show ?thesis using w1 names by auto
  qed
qed

end
