(* ===== verification/RenderProps.thy ===== *)
theory RenderProps
  imports Render
begin

text \<open>
  What a rendering leaves on disk (\<open>trustd/src/render.rs\<close>): the files of a successful render,
  what every failure leaves in place, and what a reader of the bundle gets.
\<close>

section \<open>The hashed directory: lemmas\<close>

abbreviation hash_of :: "entry \<Rightarrow> string" where
  "hash_of e \<equiv> subject_hash_text (e_parsed e)"

abbreviation pem_node :: "entry \<Rightarrow> node" where
  "pem_node e \<equiv> File (as_bytes (to_pem (der (e_parsed e))))"

text \<open>How many of the first \<open>i\<close> roots share the hash of the one at \<open>i\<close>.\<close>

definition earlier :: "entry list \<Rightarrow> nat \<Rightarrow> nat" where
  "earlier roots i = length (filter (\<lambda>e. hash_of e = hash_of (roots ! i)) (take i roots))"

definition hashed_name :: "entry list \<Rightarrow> nat \<Rightarrow> string" where
  "hashed_name roots i = hash_of (roots ! i) @ ''.'' @ dec_str (earlier roots i)"

text \<open>The table \<open>used\<close> of the loop: the last number given to each hash met.\<close>

definition tallies :: "(string \<times> nat) list \<Rightarrow> entry list \<Rightarrow> bool" where
  "tallies used seen \<longleftrightarrow>
     (\<forall>h. map_of used h =
        (let k = length (filter (\<lambda>e. hash_of e = h) seen) in if k = 0 then None else Some (k - 1)))"

lemma bump_fst: "fst (bump h used) = (case map_of used h of None \<Rightarrow> 0 | Some n \<Rightarrow> n + 1)"
  by (induction h used rule: bump.induct) (auto split: prod.splits)

lemma bump_snd: "map_of (snd (bump h used)) = (map_of used)(h \<mapsto> fst (bump h used))"
  by (induction h used rule: bump.induct) (auto split: prod.splits simp: fun_eq_iff)

lemma tallies_bump:
  assumes "tallies used seen" and "bump (hash_of e) used = (seq, used')"
  shows "seq = length (filter (\<lambda>e'. hash_of e' = hash_of e) seen) \<and> tallies used' (seen @ [e])"
proof -
  have seq: "seq = length (filter (\<lambda>e'. hash_of e' = hash_of e) seen)"
    using assms bump_fst [of "hash_of e" used] by (auto simp: tallies_def Let_def split: if_splits)
  have "map_of used' = (map_of used)(hash_of e \<mapsto> seq)"
    using assms(2) bump_snd [of "hash_of e" used] by simp
  then show ?thesis using assms(1) seq by (auto simp: tallies_def Let_def)
qed

lemma hashed_files_from:
  assumes "tallies used seen"
  shows "hashed_files used es =
    map (\<lambda>i. (hashed_name (seen @ es) i, pem_node ((seen @ es) ! i))) [length seen..<length (seen @ es)]"
  using assms
proof (induction es arbitrary: used seen)
  case (Cons e es)
  obtain seq used' where b: "bump (hash_of e) used = (seq, used')" by fastforce
  note t = tallies_bump [OF Cons.prems b]
  have "[length seen..<length (seen @ e # es)] = length seen # [length (seen @ [e])..<length ((seen @ [e]) @ es)]"
    by (subst upt_conv_Cons) simp_all
  then show ?case
    using Cons.IH [of used' "seen @ [e]"] t
    by (simp add: b hashed_name_def earlier_def del: upt_Suc)
qed simp

lemma hashed_files_map:
  "hashed_files [] roots = map (\<lambda>i. (hashed_name roots i, pem_node (roots ! i))) [0..<length roots]"
  using hashed_files_from [of "[]" "[]" roots] by (simp add: tallies_def)

text \<open>No two roots get the same name.\<close>

lemma earlier_mono:
  assumes "i < j" and "j < length roots" and "hash_of (roots ! i) = hash_of (roots ! j)"
  shows "earlier roots i < earlier roots j"
proof -
  have "take j roots = take i roots @ roots ! i # drop (Suc i) (take j roots)"
    using assms id_take_nth_drop [of i "take j roots"] by (simp add: min_def)
  then have "earlier roots j = length (filter (\<lambda>e. hash_of e = hash_of (roots ! j))
      (take i roots @ roots ! i # drop (Suc i) (take j roots)))"
    unfolding earlier_def by (rule arg_cong)
  then show ?thesis using assms(3) by (simp add: earlier_def)
qed

lemma hashed_name_inj:
  assumes "i < length roots" and "j < length roots" and "hashed_name roots i = hashed_name roots j"
  shows "i = j"
proof -
  have "hash_of (roots ! i) = hash_of (roots ! j) \<and> dec_str (earlier roots i) = dec_str (earlier roots j)"
    using assms(3) by (intro append_dot_inj) (simp_all add: hashed_name_def)
  then show ?thesis using assms earlier_mono [of i j roots] earlier_mono [of j i roots]
    by (cases i j rule: linorder_cases) auto
qed

lemma hashed_name_not_bundle: "hashed_name roots i \<noteq> ''ca-certificates.crt''"
proof
  assume "hashed_name roots i = ''ca-certificates.crt''"
  then have "last (hashed_name roots i) = CHR ''t''" by simp
  then have "CHR ''t'' \<in> set (dec_str (earlier roots i))"
    using last_in_set [of "dec_str (earlier roots i)"] by (simp add: hashed_name_def)
  from dec_str_digits [OF this] show False by (simp add: is_ascii_digit_def)
qed

lemma fill_lookup:
  assumes "distinct (map fst files)"
  shows "fmlookup (fill c files) n = (case map_of files n of None \<Rightarrow> fmlookup c n | Some x \<Rightarrow> Some x)"
  using assms
proof (induction files arbitrary: c)
  case (Cons f files)
  obtain m x where f: "f = (m, x)" by fastforce
  have "fill c (f # files) = fill (fmupd m x c) files" by (simp add: fill_def f)
  then show ?case
    using Cons by (auto simp: f split: option.split dest: map_of_SomeD intro: rev_image_eqI)
qed (simp add: fill_def)

lemma rendering_distinct: "distinct (map fst (rendering composed))"
proof -
  let ?roots = "for_purpose (c_roots composed) SERVER_AUTH"
  have "inj_on (hashed_name ?roots) (set [0..<length ?roots])"
    by (auto intro!: inj_onI hashed_name_inj)
  then show ?thesis
    using hashed_name_not_bundle [of ?roots, symmetric]
    by (auto simp: rendering_def Let_def hashed_files_map comp_def distinct_map)
qed

text \<open>What the directory holds: the bundle, and one file per root.\<close>

lemma rendering_lookup:
  fixes composed n
  defines "roots \<equiv> for_purpose (c_roots composed) SERVER_AUTH"
  shows "fmlookup (fill fmempty (rendering composed)) n =
    (if n = ''ca-certificates.crt'' then Some (File (as_bytes (bundle_of composed)))
     else map_of (map (\<lambda>i. (hashed_name roots i, pem_node (roots ! i))) [0..<length roots]) n)"
  unfolding fill_lookup [OF rendering_distinct]
  by (simp add: rendering_def Let_def hashed_files_map bundle_of_def roots_def split: option.split)

lemma rendering_root:
  fixes composed n
  defines "roots \<equiv> for_purpose (c_roots composed) SERVER_AUTH"
  shows "(n, x) \<in> set (map (\<lambda>i. (hashed_name roots i, pem_node (roots ! i))) [0..<length roots]) \<longleftrightarrow>
    n \<noteq> ''ca-certificates.crt'' \<and> fmlookup (fill fmempty (rendering composed)) n = Some x"
proof -
  have "distinct (map fst (map (\<lambda>i. (hashed_name roots i, pem_node (roots ! i))) [0..<length roots]))"
    using rendering_distinct [of composed] by (simp add: rendering_def Let_def hashed_files_map roots_def)
  from map_of_eq_Some_iff [OF this, of n x] show ?thesis
    unfolding rendering_lookup using hashed_name_not_bundle [of roots]
    by (auto simp: roots_def)
qed

lemma rendering_roots:
  fixes composed
  defines "roots \<equiv> for_purpose (c_roots composed) SERVER_AUTH"
  shows "n \<noteq> ''ca-certificates.crt'' \<and> fmlookup (fill fmempty (rendering composed)) n = Some x \<longleftrightarrow>
    (\<exists>i < length roots. n = hashed_name roots i \<and> x = pem_node (roots ! i))"
  unfolding rendering_root [of n x composed, symmetric] by (force simp: roots_def)

section \<open>The stages of a rendering: lemmas\<close>

lemma bindIO_assoc: "bindIO (bindIO m f) g = bindIO m (\<lambda>a. bindIO (f a) g)"
  by (rule ext) (simp add: bindIO_def split: prod.split sum.split)

text \<open>The staging directory is built, \<open>certs\<close> is replaced, \<open>cert.pem\<close> is written.\<close>

definition stage_dir :: "string \<Rightarrow> unit io" where
  "stage_dir root w =
     (if exists_in w ''certs.new''
      then map_errIO (at_path ''empty'' (root @ ''/certs.new'')) (empty_dir ''certs.new'') w
      else map_errIO (at_path ''create'' (root @ ''/certs.new'')) (create_dir ''certs.new'') w)"

definition build_staging :: "nat \<Rightarrow> string \<Rightarrow> entry list \<Rightarrow> unit io" where
  "build_staging pid root roots =
     bindIO (map_errIO (at_path ''create'' root) create_root) (\<lambda>_.
     bindIO (stage_dir root) (\<lambda>_.
     bindIO (map_errIO (at_path ''write'' (root @ ''/certs.new/ca-certificates.crt''))
       (write_file pid (Some ''certs.new'') ''ca-certificates.crt'' (as_bytes (bundle_for_roots roots)))) (\<lambda>_.
     hashed_loop pid root [] roots)))"

definition served_paths :: "string \<Rightarrow> string list" where
  "served_paths root = [root @ ''/certs/ca-certificates.crt'', root @ ''/cert.pem'', root @ ''/certs'']"

lemma render_stages:
  assumes "mode \<noteq> CompatNone"
  shows "render pid root composed mode =
    bindIO (build_staging pid root (for_purpose (c_roots composed) SERVER_AUTH)) (\<lambda>_.
    bindIO (map_errIO (at_path ''install'' (root @ ''/certs'')) (exchange ''certs.new'' ''certs'')) (\<lambda>_.
    bindIO (map_errIO (at_path ''write'' (root @ ''/cert.pem''))
       (write_file pid None ''cert.pem'' (as_bytes (bundle_of composed)))) (\<lambda>_.
    returnIO (served_paths root))))"
  using assms
  by (intro ext) (simp add: render_def build_staging_def stage_dir_def [abs_def] bindIO_assoc Let_def
      bundle_of_def served_paths_def)

lemma touches_create_root [intro]: "touches S create_root"
  by (rule touchesI) (auto simp: create_root_def dest: sync_dir split: prod.splits sum.splits)

lemma touches_stage_dir [intro]: "touches {''certs.new''} (stage_dir root)"
proof -
  have c: "touches {''certs.new''} (create_dir ''certs.new'')"
    unfolding create_dir_def by (rule touches_sys) (auto split: option.split)
  show ?thesis
    by (rule touchesI)
      (auto simp: stage_dir_def dest: touchesD [OF touches_map_err [OF c]]
        touchesD [OF touches_map_err [OF touches_empty]] split: if_splits)
qed

lemma touches_build: "touches {''certs.new''} (build_staging pid root roots)"
  unfolding build_staging_def
  by (intro touches_bind touches_map_err touches_create_root touches_stage_dir touches_write_file touches_hashed)

lemma create_root_Inr: "create_root w = (Inr u, w') \<Longrightarrow> w_dir w' = w_dir w"
  by (auto simp: create_root_def dest: sync_dir split: prod.splits sum.splits)

lemma stage_dir_Inr:
  assumes "stage_dir root w = (Inr u, w')"
  shows "subdir ''certs.new'' w' = Some fmempty"
proof (cases "exists_in w ''certs.new''")
  case True
  then show ?thesis using assms empty_dir_Inr by (simp add: stage_dir_def conv)
next
  case False
  then have "create_dir ''certs.new'' w = (Inr u, w')" "fmlookup (w_dir w) ''certs.new'' = None"
    using assms by (simp_all add: stage_dir_def conv exists_in_def)
  then have "w_dir w' = fmupd ''certs.new'' (Dir fmempty) (w_dir w)"
    by (auto simp: create_dir_def elim!: sys_cases)
  then show ?thesis by (simp add: subdir_def get_parent_def)
qed

lemma build_Inr:
  assumes "build_staging pid root (for_purpose (c_roots composed) SERVER_AUTH) w = (Inr u, w')"
  shows "fmlookup (w_dir w') ''certs.new'' = Some (Dir (fill fmempty (rendering composed)))"
proof -
  let ?roots = "for_purpose (c_roots composed) SERVER_AUTH"
  let ?x = "as_bytes (bundle_for_roots ?roots)"
  obtain w1 w2 w3 where 1: "stage_dir root w1 = (Inr (), w2)"
    and 3: "write_file pid (Some ''certs.new'') ''ca-certificates.crt'' ?x w2 = (Inr (), w3)"
    and 4: "hashed_loop pid root [] ?roots w3 = (Inr u, w')"
    using assms by (auto simp: build_staging_def conv)
  note 2 = stage_dir_Inr [OF 1]
  obtain c where c: "get_parent (Some ''certs.new'') (w_dir w2) = Some c"
    "w_dir w3 = set_parent (Some ''certs.new'') (fmupd ''ca-certificates.crt'' (File ?x) c) (w_dir w2)"
    using 3 fixed_not_temp(1) by (rule write_file_Inr)
  have "subdir ''certs.new'' w3 = Some (fmupd ''ca-certificates.crt'' (File ?x) fmempty)"
    using sub_set [OF c] c(1) 2 by (simp add: subdir_def)
  from hashed_loop_Inr [OF 4 this]
  have "subdir ''certs.new'' w' = Some (fill fmempty (rendering composed))"
    by (simp add: rendering_def fill_def Let_def)
  then show ?thesis by (auto simp: subdir_def get_parent_def split: option.splits node.splits)
qed

text \<open>Every way a rendering can end, for the two names that are read.\<close>

lemma render_outcome:
  fixes composed
  defines "certs \<equiv> Some (Dir (fill fmempty (rendering composed)))"
    and "pem \<equiv> Some (File (as_bytes (bundle_of composed)))"
  assumes run: "render pid root composed mode w = (r, w')" and mode: "mode \<noteq> CompatNone"
  shows "case r of
      Inr paths \<Rightarrow> paths = served_paths root \<and>
        fmlookup (w_dir w') ''certs'' = certs \<and> fmlookup (w_dir w') ''cert.pem'' = pem
    | Inl e \<Rightarrow> fmlookup (w_dir w') ''cert.pem'' = fmlookup (w_dir w) ''cert.pem'' \<and>
        (fmlookup (w_dir w') ''certs'' \<in> {fmlookup (w_dir w) ''certs'', certs} \<or>
         fmlookup (w_dir w') ''certs'' = None \<and>
           fmlookup (w_dir w') ''certs.previous'' = fmlookup (w_dir w) ''certs'')"
proof -
  let ?roots = "for_purpose (c_roots composed) SERVER_AUTH"
  from run [unfolded render_stages [OF mode]] show ?thesis
  proof (cases rule: bindIO_cases)
    case (1 e)
    then show ?thesis using touchesD [OF touches_build 1(1)] by simp
  next
    case (2 a w1)
    have w1: "fmlookup (w_dir w1) n = fmlookup (w_dir w) n" if "n \<noteq> ''certs.new''" for n
      using touchesD [OF touches_build 2(1)] that by simp
    note staged = build_Inr [OF 2(1)]
    obtain ri w2 where i: "exchange ''certs.new'' ''certs'' w1 = (ri, w2)" by fastforce
    have out: "(if ri = Inr () then fmlookup (w_dir w2) ''certs'' = certs
        else fmlookup (w_dir w2) ''certs'' \<in> {fmlookup (w_dir w) ''certs'', certs} \<or>
          (fmlookup (w_dir w2) ''certs'' = None \<and>
           fmlookup (w_dir w2) ''certs.previous'' = fmlookup (w_dir w) ''certs''))"
      "fmlookup (w_dir w2) ''cert.pem'' = fmlookup (w_dir w) ''cert.pem''"
      using exchange_outcome [OF i _ _ staged] w1 by (auto simp: certs_def split: if_splits)
    from 2(2) show ?thesis
    proof (cases rule: bindIO_cases)
      case (1 e)
      then have "ri \<noteq> Inr ()" "w' = w2" using i by (auto elim: map_errIO_cases)
      then show ?thesis using out 1(2) by simp
    next
      case (2 b w3)
      then have ri: "ri = Inr ()" "w3 = w2" using i by (auto simp: conv)
      from 2(2) show ?thesis
      proof (cases rule: bindIO_cases)
        case (1 e)
        then obtain r4 where "write_file pid None ''cert.pem'' (as_bytes (bundle_of composed)) w3 = (r4, w')"
          and "Inl e = map_err (at_path ''write'' (root @ ''/cert.pem'')) r4" by (elim map_errIO_cases)
        moreover from this have "r4 \<noteq> Inr ()" by auto
        ultimately show ?thesis
          using write_file_store [of pid "''cert.pem''", OF _ fixed_not_temp(2) fixed_not_temp(2)]
            write_file_store [of pid "''cert.pem''", OF _ fixed_not_temp(3) fixed_not_temp(2)] out ri 1(2) by simp
      next
        case (2 d w4)
        then have 4: "write_file pid None ''cert.pem'' (as_bytes (bundle_of composed)) w3 = (Inr (), w')"
          and "r = Inr (served_paths root)" by (auto simp: conv returnIO_def)
        then show ?thesis
          using write_file_store [OF 4 fixed_not_temp(2) fixed_not_temp(2)]
            write_file_store [OF 4 fixed_not_temp(3) fixed_not_temp(2)] out ri
          by (simp add: pem_def)
      qed
    qed
  qed
qed

section \<open>A rendering reads back: lemmas\<close>

lemma drop_any_suffix: "\<exists>k. drop_any ps s = drop k s"
proof (induction ps s rule: drop_any.induct)
  case (1 ps s)
  show ?case
  proof (cases "find (\<lambda>p. p \<noteq> [] \<and> take (length p) s = p) ps")
    case None
    then have "drop_any ps s = drop 0 s" by (simp add: drop_any.simps)
    then show ?thesis by blast
  next
    case (Some p)
    then obtain k where "drop_any ps (drop (length p) s) = drop k (drop (length p) s)"
      using 1 by blast
    then have "drop_any ps s = drop (k + length p) s" using Some by (simp add: drop_any.simps [of ps s])
    then show ?thesis by blast
  qed
qed

lemma trim_solid_head:
  assumes "solid (hd s)"
  shows "\<exists>k. trim s = take k s"
proof -
  have "drop_any white_space s = s"
    using white_space_ends assms by (intro drop_any_id) (auto simp: list_all_iff)
  moreover obtain k where "drop_any (map rev white_space) (rev s) = drop k (rev s)"
    using drop_any_suffix by blast
  ultimately have "trim s = take (length s - k) s" by (simp add: trim_def rev_drop)
  then show ?thesis by blast
qed

text \<open>A comment line \<open># ...\<close> is no marker when what follows it holds no newline.\<close>

lemma comment_line:
  assumes "newline \<notin> set s"
  shows "commentary (CHR ''#'' # s @ [newline])"
proof -
  obtain s' where cr: "strip_cr (CHR ''#'' # s) = CHR ''#'' # s'"
    by (rule that [of "if s \<noteq> [] \<and> last s = CHR 0x0D then butlast s else s"]) (simp add: strip_cr_def)
  obtain k where "trim (CHR ''#'' # s') = take k (CHR ''#'' # s')"
    using trim_solid_head [of "CHR ''#'' # s'"] by (auto simp: solid_def)
  then have "trim (strip_cr (CHR ''#'' # s)) = [] \<or> hd (trim (strip_cr (CHR ''#'' # s))) = CHR ''#''"
    using cr by (cases k) simp_all
  then have "trim (strip_cr (CHR ''#'' # s)) \<noteq> PEM_BEGIN" "trim (strip_cr (CHR ''#'' # s)) \<noteq> PEM_END"
    using marker_facts by auto
  then show ?thesis using commentary_line [of "CHR ''#'' # s"] assms by simp
qed

lemma blank_line: "commentary [newline]"
proof -
  have "trim [] = []" by (rule trim_solid) simp
  then show ?thesis
    using commentary_line [of "[]"] by (simp add: strip_cr_def PEM_BEGIN_def PEM_END_def)
qed

lemma comment_lines:
  assumes "list_all (\<lambda>l. newline \<notin> set l) ls"
  shows "commentary (concat (map (\<lambda>l. CHR ''#'' # l @ [newline]) ls))"
  using assms by (induction ls) (auto intro: commentary_append [where s = "_ # _ @ [newline]", simplified] comment_line)

lemma dec_str_no_newline [simp]: "newline \<notin> set (dec_str n)"
  using dec_str_digits [of newline n] by (auto simp: is_ascii_digit_def)

lemma header_commentary: "commentary (bundle_header roots)"
proof -
  let ?lines =
    "['' Peios trust store '' @ [CHR 0xE2, CHR 0x80, CHR 0x94] @ '' generated by trustd; edits are overwritten.'',
      [],
      '' This file is a compatibility rendering of the machine'' @ [CHR 0x27] @ ''s trust store.'',
      '' It is composed from the roots the ca-certificates package ships and'',
      '' the additions and distrusts under Machine'' @ [backslash] @ ''System'' @ [backslash] @ ''Trust'' @
        [backslash] @ ''Certificates.'',
      '' To change what this machine trusts, use '' @ backquote # ''trust add'' @ backquote # '' / '' @
        backquote # ''trust distrust'' @ [backquote],
      '' or write the registry directly '' @ [CHR 0xE2, CHR 0x80, CHR 0x94] @ '' never this file.'',
      [],
      '' '' @ dec_str (length roots) @ '' root(s): '' @
        dec_str (length (filter (\<lambda>r. e_source r = Shipped) roots)) @ '' shipped, '' @
        dec_str (length (filter (\<lambda>r. e_source r = Added) roots)) @ '' added.'']"
  have "bundle_header roots = concat (map (\<lambda>l. CHR ''#'' # l @ [newline]) ?lines) @ [newline]"
    by (simp add: bundle_header_def)
  moreover have "list_all (\<lambda>l. newline \<notin> set l) ?lines" by simp
  ultimately show ?thesis
    using commentary_append [OF comment_lines blank_line] by presburger
qed

definition single_line :: "entry \<Rightarrow> bool" where
  "single_line e \<longleftrightarrow> newline \<notin> set (subject (e_parsed e)) \<and> newline \<notin> set (fingerprint (e_parsed e)) \<and>
     (\<forall>name. e_name e = Some name \<longrightarrow> newline \<notin> set name)"

definition root_comment :: "entry \<Rightarrow> string" where
  "root_comment e =
     ''# '' @ subject (e_parsed e) @ [newline] @
     (case e_name e of Some name \<Rightarrow> ''# added as '' @ name @ [newline] | None \<Rightarrow> []) @
     ''# SHA-256 '' @ fingerprint (e_parsed e) @ [newline]"

lemma root_block_comment: "root_block e = root_comment e @ to_pem (der (e_parsed e)) @ [newline]"
  by (simp add: root_block_def root_comment_def)

lemma root_comment_commentary:
  assumes "single_line e"
  shows "commentary (root_comment e)"
proof -
  let ?lines = "('' '' @ subject (e_parsed e)) #
    (case e_name e of Some name \<Rightarrow> ['' added as '' @ name] | None \<Rightarrow> []) @ ['' SHA-256 '' @ fingerprint (e_parsed e)]"
  have "root_comment e = concat (map (\<lambda>l. CHR ''#'' # l @ [newline]) ?lines)"
    by (simp add: root_comment_def split: option.split)
  moreover have "list_all (\<lambda>l. newline \<notin> set l) ?lines"
    using assms by (simp add: single_line_def split: option.split)
  ultimately show ?thesis using comment_lines by presburger
qed

lemma bundle_blocks: "bundle_for_roots roots = bundle_header roots @ concat (map root_block roots)"
proof -
  have "foldl (\<lambda>out root. out @ root_block root) s roots = s @ concat (map root_block roots)" for s
    by (induction roots arbitrary: s) simp_all
  then show ?thesis by (simp add: bundle_for_roots_def)
qed

lemma scan_block:
  assumes "commentary (root_comment e)"
  shows "pem_scan (out, None) (root_block e @ t) = pem_scan (out @ [der (e_parsed e)], None) t"
  using pem_scan_commentary [OF assms] pem_scan_to_pem_append pem_scan_commentary [OF blank_line]
  by (simp add: root_block_comment)

lemma scan_blocks:
  assumes "list_all single_line roots"
  shows "pem_scan (out, None) (concat (map root_block roots)) = (out @ map (der \<circ> e_parsed) roots, None)"
  using assms
  by (induction roots arbitrary: out) (simp_all add: scan_block root_comment_commentary)

lemma bundle_reads_back:
  assumes "list_all single_line roots"
  shows "from_pem (bundle_for_roots roots) = map (der \<circ> e_parsed) roots"
  using scan_blocks [OF assms] pem_scan_commentary [OF header_commentary]
  by (simp add: from_pem_scan bundle_blocks)

text \<open>A name with a newline in it can end the comment it is written into.\<close>

lemma injecting_name:
  assumes "newline \<notin> set (subject (e_parsed e))" and "newline \<notin> set (fingerprint (e_parsed e))"
    and "e_name e = Some (''x'' @ [newline] @ to_pem evil)"
  shows "from_pem (bundle_for_roots [e]) = [evil, der (e_parsed e)]"
proof -
  have 1: "commentary (''# '' @ subject (e_parsed e) @ [newline])"
    "commentary (''# SHA-256 '' @ fingerprint (e_parsed e) @ [newline])"
    "commentary (''# added as x'' @ [newline])"
    using comment_line [of "'' '' @ subject (e_parsed e)"] comment_line [of "'' SHA-256 '' @ fingerprint (e_parsed e)"]
      comment_line [of "'' added as x''"] assms by simp_all
  have "root_block e = (''# '' @ subject (e_parsed e) @ [newline]) @ (''# added as x'' @ [newline]) @
      to_pem evil @ [newline] @ (''# SHA-256 '' @ fingerprint (e_parsed e) @ [newline]) @
      to_pem (der (e_parsed e)) @ [newline] @ []"
    using assms(3) by (simp add: root_block_def)
  then have "pem_scan ([], None) (root_block e) = ([evil, der (e_parsed e)], None)"
    by (simp only: pem_scan_commentary [OF 1(1)] pem_scan_commentary [OF 1(2)] pem_scan_commentary [OF 1(3)]
        pem_scan_to_pem_append pem_scan_commentary [OF blank_line] pem_scan_Nil) simp
  then show ?thesis
    using pem_scan_commentary [OF header_commentary] by (simp add: from_pem_scan bundle_blocks)
qed

section \<open>When every call works: lemmas\<close>

text \<open>Nothing is left to fail.\<close>

abbreviation working :: "world \<Rightarrow> bool" where
  "working w \<equiv> w_outcomes w = []"

definition succeeds :: "'a io \<Rightarrow> world \<Rightarrow> bool" where
  "succeeds m w \<longleftrightarrow> (\<exists>a w'. m w = (Inr a, w') \<and> working w')"

lemma sys_works: "working w \<Longrightarrow> op (w_dir w) = (Inr a, d) \<Longrightarrow>
    sys op partial w = (Inr a, w\<lparr>w_dir := d, w_outcomes := []\<rparr>)"
  by (simp add: sys_def)

lemma succeeds_bind:
  assumes "succeeds m w" and "\<And>a w1. m w = (Inr a, w1) \<Longrightarrow> working w1 \<Longrightarrow> succeeds (f a) w1"
  shows "succeeds (bindIO m f) w"
  using assms unfolding succeeds_def bindIO_def by fastforce

lemma succeeds_map_err: "succeeds m w \<Longrightarrow> succeeds (map_errIO h m) w"
  unfolding succeeds_def map_errIO_def by fastforce

lemma succeeds_sys: "working w \<Longrightarrow> op (w_dir w) = (Inr a, d) \<Longrightarrow> succeeds (sys op partial) w"
  by (simp add: succeeds_def sys_works)

lemma working_call:
  assumes "working w" and "m w = (r, w')" and "m = sys op partial"
  shows "working w'"
  using assms by (auto simp: sys_def split: prod.splits)

lemma succeeds_temp_create:
  assumes "working w" and "get_parent p (w_dir w) = Some c" and "\<And>k. fmlookup c (temp_name pid k) = None"
  shows "succeeds (temp_create pid p (Suc tries)) w"
  using assms by (simp add: succeeds_def sys_def Let_def in_parent_def create_new_op_def)

lemma succeeds_fill_temp:
  assumes "working w" and "get_parent p (w_dir w) = Some c" and "tmp \<noteq> name"
    and "\<And>e. fmlookup c name \<noteq> Some (Dir e)"
  shows "succeeds (fill_temp p tmp name x) w"
  using assms
  by (auto simp: succeeds_def fill_temp_def fs_write_all_def fs_rename_def bindIO_def sys_def in_parent_def
      rename_op_def split: prod.splits option.splits node.splits)

lemma succeeds_write_file:
  assumes w: "working w" and c: "get_parent p (w_dir w) = Some c"
    and tmp: "\<And>k. fmlookup c (temp_name pid k) = None" and name: "\<And>k. name \<noteq> temp_name pid k"
    and node: "\<And>e. fmlookup c name \<noteq> Some (Dir e)"
  shows "succeeds (write_file pid p name x) w"
  unfolding write_file_eq
proof (rule succeeds_bind)
  show "succeeds (temp_create pid p 64) w"
    using succeeds_temp_create [OF w c tmp, of 63] by simp
  fix path w1
  assume 1: "temp_create pid p 64 w = (Inr path, w1)" and w1: "working w1"
  obtain k where k: "path = temp_name pid k"
    "w_dir w1 = set_parent p (fmupd path (File []) c) (w_dir w)"
    using temp_create_outcome [OF 1] c by auto
  then have "get_parent p (w_dir w1) = Some (fmupd path (File []) c)" using c by simp
  from succeeds_fill_temp [OF w1 this, where name = name and x = x and tmp = path] have "succeeds (fill_temp p path name x) w1"
    using k(1) name node by auto
  then obtain u w2 where 2: "fill_temp p path name x w1 = (Inr u, w2)" and w2: "working w2"
    by (auto simp: succeeds_def)
  obtain r w3 where 3: "fs_remove_file p path w2 = (r, w3)" by fastforce
  have "working w3" using w2 3 fs_remove_file_def by (rule working_call)
  then show "succeeds (\<lambda>w. case fill_temp p path name x w of
      (r, w) \<Rightarrow> (case fs_remove_file p path w of (_, w) \<Rightarrow> (r, w))) w1"
    using 2 3 by (simp add: succeeds_def)
qed

lemma succeeds_remove_entry:
  assumes "working w" and "subdir s w = Some c" and "fmlookup c n = Some x" and "is_dir = (\<exists>e. x = Dir e)"
  shows "succeeds (if is_dir then fs_remove_dir_all (Some s) n else fs_remove_file (Some s) n) w"
  using assms
  by (cases x) (auto simp: succeeds_def subdir_def fs_remove_dir_all_def fs_remove_file_def sys_def in_parent_def
      remove_dir_op_def remove_file_op_def)

lemma succeeds_empty_loop:
  assumes "working w" and "subdir s w = Some c" and "distinct (map fst entries)"
    and "\<forall>(n, is_dir) \<in> set entries. \<exists>x. fmlookup c n = Some x \<and> is_dir = (\<exists>e. x = Dir e)"
  shows "succeeds (empty_loop s entries) w"
  using assms
proof (induction entries arbitrary: w c)
  case Nil
  then show ?case by (simp add: succeeds_def)
next
  case (Cons entry entries)
  obtain n is_dir where e: "entry = (n, is_dir)" by fastforce
  let ?rm = "if is_dir then fs_remove_dir_all (Some s) n else fs_remove_file (Some s) n"
  have "succeeds (bindIO (sys (\<lambda>d. (Inr (), d)) atomic) (\<lambda>_. bindIO ?rm (\<lambda>_. empty_loop s entries))) w"
  proof (intro succeeds_bind)
    show "succeeds (sys (\<lambda>d. (Inr (), d)) atomic) w" using Cons.prems(1) by (intro succeeds_sys) auto
    fix u w1
    assume 1: "sys (\<lambda>d. (Inr (), d)) atomic w = (Inr u, w1)" and w1: "working w1"
    have s1: "subdir s w1 = Some c" using sync_dir [of w "Inr ()" w1] 1 Cons.prems(2) by (simp add: subdir_def)
    obtain y where y: "fmlookup c n = Some y" "is_dir = (\<exists>e. y = Dir e)"
      using Cons.prems(4) by (auto simp: e)
    show "succeeds ?rm w1" using w1 s1 y by (rule succeeds_remove_entry)
    fix v w2
    assume 2: "?rm w1 = (Inr v, w2)" and w2: "working w2"
    have "subdir s w2 = Some (fmdrop n c)" using remove_Inr [OF 2 s1] .
    then show "succeeds (empty_loop s entries) w2"
      using Cons.prems(3,4) w2 by (intro Cons.IH) (force simp: e)+
  qed
  then show ?case by (simp add: e succeeds_def)
qed

lemma succeeds_empty_dir:
  assumes "working w" and "subdir s w = Some c"
  shows "succeeds (empty_dir s) w"
  unfolding empty_dir_def
proof (rule succeeds_bind)
  have c: "fmlookup (w_dir w) s = Some (Dir c)"
    using assms(2) by (auto simp: subdir_def get_parent_def split: option.splits node.splits)
  let ?entries = "map (\<lambda>n. (n, case fmlookup c n of Some (Dir _) \<Rightarrow> True | _ \<Rightarrow> False)) (names_of c)"
  have op: "list_op s (w_dir w) = (Inr ?entries, w_dir w)" by (simp add: list_op_def c)
  then show "succeeds (sys (list_op s) atomic) w" using assms(1) by (intro succeeds_sys) auto
  fix entries w1
  assume 1: "sys (list_op s) atomic w = (Inr entries, w1)" and w1: "working w1"
  have "entries = ?entries" "w_dir w1 = w_dir w"
    using 1 op assms(1) by (auto simp: sys_def)
  then show "succeeds (empty_loop s entries) w1"
    using w1 assms(2)
    by (intro succeeds_empty_loop)
      (auto simp: subdir_def names_of_def comp_def sorted_list_of_fset.rep_eq split: option.splits node.splits)
qed

text \<open>A directory with files only, and no temporary one.\<close>

definition clean :: "nat \<Rightarrow> dir \<Rightarrow> bool" where
  "clean pid c \<longleftrightarrow> (\<forall>k. fmlookup c (temp_name pid k) = None) \<and> (\<forall>n e. fmlookup c n \<noteq> Some (Dir e))"

lemma write_file_clean:
  assumes "working w" and "subdir s w = Some c" and "clean pid c" and "\<And>k. name \<noteq> temp_name pid k"
  shows "succeeds (write_file pid (Some s) name x) w" (is ?ok)
    and "write_file pid (Some s) name x w = (Inr u, w') \<Longrightarrow>
      subdir s w' = Some (fmupd name (File x) c) \<and> clean pid (fmupd name (File x) c)"
proof -
  have c: "get_parent (Some s) (w_dir w) = Some c" using assms(2) by (simp add: subdir_def)
  then show ?ok using assms by (intro succeeds_write_file) (auto simp: clean_def)
  assume "write_file pid (Some s) name x w = (Inr u, w')"
  then obtain c1 where c1: "get_parent (Some s) (w_dir w) = Some c1"
    "w_dir w' = set_parent (Some s) (fmupd name (File x) c1) (w_dir w)"
    using assms(4) by (rule write_file_Inr)
  from sub_set [OF this] show "subdir s w' = Some (fmupd name (File x) c) \<and> clean pid (fmupd name (File x) c)"
    using c c1(1) assms(3,4) by (auto simp: clean_def)
qed

lemma succeeds_hashed:
  assumes "working w" and "subdir ''certs.new'' w = Some c" and "clean pid c"
  shows "succeeds (hashed_loop pid root used es) w"
  using assms
proof (induction es arbitrary: used w c)
  case Nil
  then show ?case by (simp add: succeeds_def)
next
  case (Cons e es)
  obtain seq used' where b: "bump (hash_of e) used = (seq, used')" by fastforce
  let ?name = "hash_of e @ ''.'' @ dec_str seq" and ?x = "as_bytes (to_pem (der (e_parsed e)))"
  have n: "\<And>k. ?name \<noteq> temp_name pid k" by (rule last_digit) simp
  note wf = write_file_clean [OF Cons.prems n, where x = ?x]
  have "succeeds (bindIO (map_errIO (at_path ''write'' (root @ ''/certs.new/'' @ ?name))
      (write_file pid (Some ''certs.new'') ?name ?x)) (\<lambda>_. hashed_loop pid root used' es)) w"
  proof (rule succeeds_bind)
    show "succeeds (map_errIO (at_path ''write'' (root @ ''/certs.new/'' @ ?name))
        (write_file pid (Some ''certs.new'') ?name ?x)) w" using wf(1) by (rule succeeds_map_err)
    fix u w1
    assume 1: "map_errIO (at_path ''write'' (root @ ''/certs.new/'' @ ?name))
        (write_file pid (Some ''certs.new'') ?name ?x) w = (Inr u, w1)" and w1: "working w1"
    then show "succeeds (hashed_loop pid root used' es) w1"
      using wf(2) Cons.IH [OF w1] by (auto simp: map_errIO_Inr_iff)
  qed
  then show ?case by (simp add: b succeeds_def Let_def)
qed

lemma succeeds_create_root: "working w \<Longrightarrow> succeeds create_root w"
  by (simp add: succeeds_def create_root_def sys_def)

definition dir_or_absent :: "dir \<Rightarrow> string \<Rightarrow> bool" where
  "dir_or_absent d n \<longleftrightarrow> (\<forall>x. fmlookup d n \<noteq> Some (File x))"

lemma succeeds_stage_dir:
  assumes "working w" and "dir_or_absent (w_dir w) ''certs.new''"
  shows "succeeds (stage_dir root) w"
proof (cases "fmlookup (w_dir w) ''certs.new''")
  case None
  then have "succeeds (create_dir ''certs.new'') w"
    unfolding create_dir_def using assms(1) by (intro succeeds_sys) auto
  then show ?thesis
    using None succeeds_map_err by (fastforce simp: stage_dir_def exists_in_def succeeds_def)
next
  case (Some x)
  then obtain c where "x = Dir c" using assms(2) by (cases x) (auto simp: dir_or_absent_def)
  then have "succeeds (empty_dir ''certs.new'') w"
    using Some assms(1) by (intro succeeds_empty_dir) (auto simp: subdir_def get_parent_def)
  from succeeds_map_err [OF this] show ?thesis
    using Some by (simp add: stage_dir_def exists_in_def succeeds_def)
qed

lemma succeeds_build:
  assumes "working w" and "dir_or_absent (w_dir w) ''certs.new''"
  shows "succeeds (build_staging pid root roots) w"
  unfolding build_staging_def
proof (intro succeeds_bind succeeds_map_err, unfold map_errIO_Inr_iff)
  show "succeeds create_root w" using assms(1) by (rule succeeds_create_root)
  fix u w1
  assume 1: "create_root w = (Inr u, w1)" "working w1"
  then show "succeeds (stage_dir root) w1"
    using assms(2) create_root_Inr [OF 1(1)] by (intro succeeds_stage_dir) simp_all
  fix v w2
  assume 2: "stage_dir root w1 = (Inr v, w2)" "working w2"
  have c: "clean pid fmempty" by (simp add: clean_def)
  note wf = write_file_clean [OF 2(2) stage_dir_Inr [OF 2(1)] c fixed_not_temp(1)]
  show "succeeds (write_file pid (Some ''certs.new'') ''ca-certificates.crt''
      (as_bytes (bundle_for_roots roots))) w2" by (rule wf(1))
  fix y w3
  assume 3: "write_file pid (Some ''certs.new'') ''ca-certificates.crt''
      (as_bytes (bundle_for_roots roots)) w2 = (Inr y, w3)" "working w3"
  from wf(2) [OF 3(1)] 3(2) show "succeeds (hashed_loop pid root [] roots) w3"
    by (auto intro: succeeds_hashed)
qed

lemma succeeds_exchange:
  assumes "working w" and "fmlookup (w_dir w) ''certs.new'' = Some (Dir c)" and "dir_or_absent (w_dir w) ''certs''"
  shows "succeeds (exchange ''certs.new'' ''certs'') w"
proof (cases "fmlookup (w_dir w) ''certs''")
  case None
  then show ?thesis
    using assms by (simp add: succeeds_def exchange_def exists_in_def fs_rename_def sys_def in_parent_def
        get_parent_def set_parent_def rename_op_def)
next
  case (Some x)
  then obtain c' where "x = Dir c'" using assms(3) by (cases x) (auto simp: dir_or_absent_def)
  then show ?thesis
    using assms Some by (simp add: succeeds_def exchange_def exists_in_def exchange_op_def sys_def
        remove_dir_if_present_def if_present_def fs_remove_dir_all_def in_parent_def get_parent_def
        set_parent_def remove_dir_op_def)
qed

text \<open>A store directory as the hook makes it.\<close>

definition orderly :: "nat \<Rightarrow> dir \<Rightarrow> bool" where
  "orderly pid d \<longleftrightarrow> dir_or_absent d ''certs.new'' \<and> dir_or_absent d ''certs'' \<and>
     (\<forall>e. fmlookup d ''cert.pem'' \<noteq> Some (Dir e)) \<and> (\<forall>k. fmlookup d (temp_name pid k) = None)"

lemma succeeds_render:
  assumes "working w" and d: "orderly pid (w_dir w)" and mode: "mode \<noteq> CompatNone"
  shows "succeeds (render pid root composed mode) w"
  unfolding render_stages [OF mode]
proof (intro succeeds_bind succeeds_map_err, unfold map_errIO_Inr_iff)
  let ?roots = "for_purpose (c_roots composed) SERVER_AUTH"
  show "succeeds (build_staging pid root ?roots) w"
    using assms by (intro succeeds_build) (auto simp: orderly_def)
  fix u w1
  assume 1: "build_staging pid root ?roots w = (Inr u, w1)" "working w1"
  have w1: "fmlookup (w_dir w1) n = fmlookup (w_dir w) n" if "n \<noteq> ''certs.new''" for n
    using touchesD [OF touches_build 1(1)] that by simp
  show "succeeds (exchange ''certs.new'' ''certs'') w1"
    using 1(2) build_Inr [OF 1(1)] w1 d by (intro succeeds_exchange) (auto simp: orderly_def dir_or_absent_def)
  fix v w2
  assume 2: "exchange ''certs.new'' ''certs'' w1 = (Inr v, w2)" "working w2"
  have w2: "fmlookup (w_dir w2) n = fmlookup (w_dir w) n"
    if "n \<notin> {''certs.new'', ''certs'', ''certs.previous''}" for n
    using exchange_outcome [OF 2(1) _ _ build_Inr [OF 1(1)]] w1 that by auto
  show "succeeds (write_file pid None ''cert.pem'' (as_bytes (bundle_of composed))) w2"
  proof (rule succeeds_write_file [OF 2(2) _ _ fixed_not_temp(2)])
    show "get_parent None (w_dir w2) = Some (w_dir w2)" by (simp add: get_parent_def)
    show "fmlookup (w_dir w2) (temp_name pid k) = None" for k
      using w2 [of "temp_name pid k"] d fixed_not_temp [of pid k] by (auto simp: orderly_def)
    show "fmlookup (w_dir w2) ''cert.pem'' \<noteq> Some (Dir e)" for e
      using w2 d by (auto simp: orderly_def)
  qed
  fix y w3
  assume "working w3"
  then show "succeeds (returnIO (served_paths root)) w3" by (simp add: succeeds_def returnIO_def)
qed

text \<open>Once the swap has worked, the staging directory is gone.\<close>

lemma exchange_drops_staging:
  assumes "working w" and "fmlookup (w_dir w) ''certs.new'' = Some (Dir c)"
    and "dir_or_absent (w_dir w) ''certs''" and "exchange ''certs.new'' ''certs'' w = (Inr u, w')"
  shows "fmlookup (w_dir w') ''certs.new'' = None"
proof (cases "fmlookup (w_dir w) ''certs''")
  case None
  then show ?thesis
    using assms by (auto simp: exchange_def exists_in_def dest: rename_store)
next
  case (Some x)
  then obtain c' where "x = Dir c'" using assms(3) by (cases x) (auto simp: dir_or_absent_def)
  then show ?thesis
    using assms Some by (auto simp: exchange_def exists_in_def exchange_op_def sys_def
        remove_dir_if_present_def if_present_def fs_remove_dir_all_def in_parent_def get_parent_def
        set_parent_def remove_dir_op_def)
qed

lemma render_drops_staging:
  assumes "working w" and d: "orderly pid (w_dir w)" and mode: "mode \<noteq> CompatNone"
    and run: "render pid root composed mode w = (Inr paths, w')"
  shows "fmlookup (w_dir w') ''certs.new'' = None"
proof -
  let ?roots = "for_purpose (c_roots composed) SERVER_AUTH"
  obtain u w1 w2 where 1: "build_staging pid root ?roots w = (Inr u, w1)"
    and 2: "exchange ''certs.new'' ''certs'' w1 = (Inr (), w2)"
    and 3: "write_file pid None ''cert.pem'' (as_bytes (bundle_of composed)) w2 = (Inr (), w')"
    using run unfolding render_stages [OF mode] by (auto simp: conv returnIO_def)
  have "succeeds (build_staging pid root ?roots) w"
    using assms(1) d by (intro succeeds_build) (auto simp: orderly_def)
  then have "working w1" using 1 by (simp add: succeeds_def)
  moreover have "dir_or_absent (w_dir w1) ''certs''"
    using touchesD [OF touches_build 1] d by (simp add: orderly_def dir_or_absent_def)
  ultimately have "fmlookup (w_dir w2) ''certs.new'' = None"
    using exchange_drops_staging build_Inr [OF 1] 2 by blast
  then show ?thesis
    using write_file_store [OF 3 fixed_not_temp(4) fixed_not_temp(2)] by simp
qed

section \<open>A store directory to render into\<close>

definition sample_entry :: entry where
  "sample_entry =
     \<lparr>e_parsed = \<lparr>der = [1, 2, 3], fingerprint = ''ab'', subject = ''CN=R'', not_after = 1000,
        subject_hash_text = ''0a0b0c0d''\<rparr>,
      e_source = Shipped, e_name = None, e_purposes = [''ServerAuth'']\<rparr>"

definition sample_composed :: composed where
  "sample_composed = composed_default\<lparr>c_roots := [sample_entry]\<rparr>"

definition fresh_world :: world where
  "fresh_world = \<lparr>w_dir = fmempty, w_present = True, w_next = 0, w_outcomes = []\<rparr>"

lemma sample_for_purpose: "for_purpose (c_roots sample_composed) SERVER_AUTH = [sample_entry]"
  by (simp add: for_purpose_def sample_composed_def sample_entry_def SERVER_AUTH_def)

lemma fresh_orderly: "orderly pid (w_dir fresh_world)" "working fresh_world"
  by (simp_all add: orderly_def dir_or_absent_def fresh_world_def)

lemma fresh_render:
  obtains paths w' where "render 1 ''/s'' sample_composed CompatFiles fresh_world = (Inr paths, w')"
  using succeeds_render [OF fresh_orderly(2) fresh_orderly(1), of CompatFiles 1 "''/s''" sample_composed]
  by (auto simp: succeeds_def)

section \<open>Properties\<close>

text \<open>
  C8. A rendering that succeeds, in a mode that renders files, leaves exactly the store on disk: \<open>cert.pem\<close> and
  \<open>certs/ca-certificates.crt\<close> are the bundle, and every other file of \<open>certs\<close> is one root in
  force for server authentication, named by its subject hash and the number of earlier roots
  with that hash. Nothing of an earlier rendering is left in the directory.
\<close>

theorem render_files:
  assumes "render pid root composed mode w = (Inr paths, w')" and "mode \<noteq> CompatNone"
  shows "fmlookup (w_dir w') ''cert.pem'' = Some (File (as_bytes (bundle_of composed))) \<and>
    (\<exists>d. fmlookup (w_dir w') ''certs'' = Some (Dir d) \<and>
      fmlookup d ''ca-certificates.crt'' = Some (File (as_bytes (bundle_of composed))) \<and>
      (let roots = for_purpose (c_roots composed) SERVER_AUTH in
        \<forall>n x. n \<noteq> ''ca-certificates.crt'' \<and> fmlookup d n = Some x \<longleftrightarrow>
          (\<exists>i < length roots. n = hashed_name roots i \<and>
             x = File (as_bytes (to_pem (der (e_parsed (roots ! i))))))))"
  using render_outcome [OF assms] rendering_lookup [of composed "''ca-certificates.crt''"]
  unfolding Let_def rendering_roots [symmetric] by simp

definition stale_world :: world where
  "stale_world = fresh_world\<lparr>w_dir := fmupd ''certs'' (Dir (fmupd ''old.0'' (File [7]) fmempty)) fmempty\<rparr>"

theorem render_files_witness:
  "\<exists>paths w' d. render 1 ''/s'' sample_composed CompatFiles stale_world = (Inr paths, w') \<and>
    fmlookup (w_dir w') ''cert.pem'' = Some (File (as_bytes (bundle_of sample_composed))) \<and>
    fmlookup (w_dir w') ''certs'' = Some (Dir d) \<and> fmlookup d ''old.0'' = None \<and>
    fmlookup d (hashed_name [sample_entry] 0) = Some (File (as_bytes (to_pem (der (e_parsed sample_entry)))))"
proof -
  have "orderly 1 (w_dir stale_world)" "working stale_world"
    by (simp_all add: orderly_def dir_or_absent_def stale_world_def fresh_world_def temp_name_def)
  then obtain paths w' where r: "render 1 ''/s'' sample_composed CompatFiles stale_world = (Inr paths, w')"
    using succeeds_render [of stale_world 1 CompatFiles "''/s''" sample_composed] by (auto simp: succeeds_def)
  from render_files [OF this] obtain d where d: "fmlookup (w_dir w') ''cert.pem'' = Some (File (as_bytes (bundle_of sample_composed)))"
    "fmlookup (w_dir w') ''certs'' = Some (Dir d)"
    "n \<noteq> ''ca-certificates.crt'' \<and> fmlookup d n = Some x \<longleftrightarrow>
      (\<exists>i < 1. n = hashed_name [sample_entry] i \<and> x = File (as_bytes (to_pem (der (e_parsed ([sample_entry] ! i))))))" for n x
    by (auto simp: sample_for_purpose Let_def)
  have "CHR ''o'' \<notin> set (hashed_name [sample_entry] 0)" by code_simp
  then have "hashed_name [sample_entry] 0 \<noteq> ''old.0''" by auto
  then have "fmlookup d ''old.0'' = None" using d(3) [of "''old.0''"] by (cases "fmlookup d ''old.0''") auto
  moreover have "fmlookup d (hashed_name [sample_entry] 0) = Some (File (as_bytes (to_pem (der (e_parsed sample_entry)))))"
    using d(3) [of "hashed_name [sample_entry] 0"] by auto
  ultimately show ?thesis using r d(1,2) by blast
qed

text \<open>
  C12. Whatever fails, and wherever, a rendering of files that ends with an error leaves \<open>cert.pem\<close> as it
  was. At \<open>certs\<close> is the old directory, or the whole new one, or, in the window of the fallback without
  an exchange, nothing, with the old directory kept whole under \<open>certs.previous\<close>; never a mixture.
\<close>

theorem render_failure:
  assumes "render pid root composed mode w = (Inl e, w')" and "mode \<noteq> CompatNone"
  shows "fmlookup (w_dir w') ''cert.pem'' = fmlookup (w_dir w) ''cert.pem'' \<and>
    (fmlookup (w_dir w') ''certs'' = fmlookup (w_dir w) ''certs'' \<or>
     fmlookup (w_dir w') ''certs'' = Some (Dir (fill fmempty (rendering composed))) \<or>
     fmlookup (w_dir w') ''certs'' = None \<and>
       fmlookup (w_dir w') ''certs.previous'' = fmlookup (w_dir w) ''certs'')"
  using render_outcome [OF assms] by auto

theorem render_failure_witness:
  "\<exists>e w'. render 1 ''/s'' sample_composed CompatFiles
      (fresh_world\<lparr>w_dir := fmupd ''cert.pem'' (File [7]) fmempty,
        w_outcomes := [Works, Works, Fails (os_error OtherKind) 0]\<rparr>) = (Inl e, w') \<and>
    fmlookup (w_dir w') ''cert.pem'' = Some (File [7])"
proof -
  let ?w = "fresh_world\<lparr>w_dir := fmupd ''cert.pem'' (File [7]) fmempty,
    w_outcomes := [Works, Works, Fails (os_error OtherKind) 0]\<rparr>"
  have "\<exists>e w'. render 1 ''/s'' sample_composed CompatFiles ?w = (Inl e, w')"
    by (simp add: render_def bindIO_def map_errIO_def create_root_def sys_def exists_in_def fresh_world_def
        create_dir_def write_file_def Let_def os_error_def numeral_eq_Suc)
  then obtain e w' where run: "render 1 ''/s'' sample_composed CompatFiles ?w = (Inl e, w')" by blast
  have "fmlookup (w_dir w') ''cert.pem'' = Some (File [7])"
    using render_failure [OF run] by simp
  then show ?thesis using run by blast
qed

text \<open>
  With \<open>GenerateLinuxTrustFiles\<close> off, a rendering that succeeds reports no paths and leaves no
  trust on disk: no \<open>cert.pem\<close>, and no \<open>certs\<close> or an empty one.
\<close>

theorem render_none:
  assumes "render pid root composed CompatNone w = (Inr paths, w')"
    and "\<forall>e n. Fails e n \<in> set (w_outcomes w) \<longrightarrow> io_kind e \<noteq> NotFound"
  shows "paths = [] \<and> fmlookup (w_dir w') ''cert.pem'' = None \<and>
    (fmlookup (w_dir w') ''certs'' = None \<or> fmlookup (w_dir w') ''certs'' = Some (Dir fmempty))"
proof -
  have rem: "fmlookup (w_dir w1) ''cert.pem'' = None" if "remove_if_present ''cert.pem'' w = (Inr u, w1)" for u w1
    using if_present_Inr [OF that [unfolded remove_if_present_def]] assms(2)
    by (auto simp: fs_remove_file_def sys_def in_parent_def get_parent_def set_parent_def remove_file_op_def
        os_error_def split: list.splits outcome.splits option.splits node.splits)
  obtain u w1 where 1: "remove_if_present ''cert.pem'' w = (Inr u, w1)"
    and 2: "(if exists_in w1 ''certs'' then bindIO (map_errIO (at_path ''empty'' (root @ ''/certs'')) (empty_dir ''certs''))
        (\<lambda>_. returnIO []) w1 else (Inr [], w1)) = (Inr paths, w')"
    using assms(1) by (auto simp: render_def bindIO_Inr_iff map_errIO_Inr_iff)
  show ?thesis
  proof (cases "exists_in w1 ''certs''")
    case True
    then have 3: "empty_dir ''certs'' w1 = (Inr (), w')" "paths = []"
      using 2 by (auto simp: conv returnIO_def)
    then show ?thesis
      using empty_dir_Inr [OF 3(1)] rem [OF 1] touchesD [OF touches_empty 3(1), of "''cert.pem''"]
      by (auto simp: subdir_def get_parent_def split: option.splits node.splits)
  next
    case False
    then show ?thesis using 2 rem [OF 1] by (simp add: exists_in_def)
  qed
qed

theorem render_none_witness:
  "\<exists>w'. render 1 ''/s'' sample_composed CompatNone
      (fresh_world\<lparr>w_dir := fmupd ''cert.pem'' (File [7]) fmempty\<rparr>) = (Inr [], w') \<and>
    fmlookup (w_dir w') ''cert.pem'' = None"
proof -
  let ?w = "fresh_world\<lparr>w_dir := fmupd ''cert.pem'' (File [7]) fmempty\<rparr>"
  have "\<exists>paths w'. render 1 ''/s'' sample_composed CompatNone ?w = (Inr paths, w')"
    by (simp add: render_def bindIO_def map_errIO_def remove_if_present_def if_present_def fs_remove_file_def
        sys_def in_parent_def get_parent_def set_parent_def remove_file_op_def fresh_world_def exists_in_def)
  then obtain paths w' where "render 1 ''/s'' sample_composed CompatNone ?w = (Inr paths, w')" by blast
  moreover from this have "paths = [] \<and> fmlookup (w_dir w') ''cert.pem'' = None"
    using render_none by (fastforce simp: fresh_world_def)
  ultimately show ?thesis by blast
qed

text \<open>
  C33. When the calls work and the names it owns are not taken by something else, a rendering
  succeeds.
\<close>

theorem render_succeeds:
  assumes "w_outcomes w = []" and "orderly pid (w_dir w)" and "mode \<noteq> CompatNone"
  shows "\<exists>w'. render pid root composed mode w =
    (Inr [root @ ''/certs/ca-certificates.crt'', root @ ''/cert.pem'', root @ ''/certs''], w')"
proof -
  obtain paths w' where run: "render pid root composed mode w = (Inr paths, w')"
    using succeeds_render [OF assms, where root = root and composed = composed]
    by (auto simp: succeeds_def)
  then show ?thesis using render_outcome [OF run assms(3)] by (simp add: served_paths_def)
qed

theorem render_succeeds_witness:
  "\<exists>w'. render 1 ''/s'' sample_composed CompatLive fresh_world =
    (Inr [''/s/certs/ca-certificates.crt'', ''/s/cert.pem'', ''/s/certs''], w')"
  using render_succeeds [OF fresh_orderly(2) fresh_orderly(1), of CompatLive 1 "''/s''" sample_composed] by simp

text \<open>
  C34. The bundle reads back: when no subject, name or fingerprint holds a newline, \<open>from_pem\<close> of the
  rendered bundle is exactly the roots in force for server authentication, in order.
\<close>

theorem bundle_roundtrip:
  assumes "list_all single_line (for_purpose (c_roots composed) SERVER_AUTH)"
  shows "from_pem (bundle_of composed) = map (der \<circ> e_parsed) (for_purpose (c_roots composed) SERVER_AUTH)"
  unfolding bundle_of_def using assms by (rule bundle_reads_back)

theorem bundle_roundtrip_witness: "from_pem (bundle_of sample_composed) = [[1, 2, 3]]"
  using bundle_roundtrip [of sample_composed]
  by (simp add: sample_for_purpose sample_entry_def single_line_def)

text \<open>
  C35. The name of an addition goes into the bundle as it is: a name that holds a newline and a PEM
  block puts a certificate into the bundle that was never vetted and is no root of the store.
\<close>

theorem bundle_injection:
  assumes "for_purpose (c_roots composed) SERVER_AUTH = [e]"
    and "e_name e = Some (''x'' @ [newline] @ to_pem evil)"
    and "newline \<notin> set (subject (e_parsed e))" and "newline \<notin> set (fingerprint (e_parsed e))"
  shows "from_pem (bundle_of composed) = [evil, der (e_parsed e)]"
  unfolding bundle_of_def using assms by (simp add: injecting_name)

theorem bundle_injection_witness:
  "\<exists>composed. map (der \<circ> e_parsed) (c_roots composed) = [[1, 2, 3]] \<and>
    from_pem (bundle_of composed) = [[9], [1, 2, 3]]"
proof -
  let ?e = "sample_entry\<lparr>e_source := Added, e_name := Some (''x'' @ [newline] @ to_pem [9])\<rparr>"
  let ?c = "sample_composed\<lparr>c_roots := [?e]\<rparr>"
  have "for_purpose (c_roots ?c) SERVER_AUTH = [?e]"
    by (simp add: for_purpose_def sample_entry_def SERVER_AUTH_def)
  then have "from_pem (bundle_of ?c) = [[9], [1, 2, 3]]"
    using bundle_injection [of ?c ?e "[9]"] by (simp add: sample_entry_def)
  moreover have "map (der \<circ> e_parsed) (c_roots ?c) = [[1, 2, 3]]" by (simp add: sample_entry_def)
  ultimately show ?thesis by (intro exI [of _ ?c] conjI)
qed

text \<open>
  After a rendering in which every call worked there is no staging directory: the next one
  creates it anew.
\<close>

theorem staging_destroyed:
  assumes "w_outcomes w = []" and "orderly pid (w_dir w)" and "mode \<noteq> CompatNone"
    and "render pid root composed mode w = (Inr paths, w')"
  shows "fmlookup (w_dir w') ''certs.new'' = None"
  using assms by (rule render_drops_staging)

theorem staging_destroyed_witness:
  "\<exists>paths w'. render 1 ''/s'' sample_composed CompatFiles
      (fresh_world\<lparr>w_dir := fmupd ''certs'' (Dir fmempty) (fmupd ''certs.new'' (Dir fmempty) fmempty)\<rparr>) =
        (Inr paths, w') \<and> fmlookup (w_dir w') ''certs.new'' = None"
proof -
  let ?w = "fresh_world\<lparr>w_dir := fmupd ''certs'' (Dir fmempty) (fmupd ''certs.new'' (Dir fmempty) fmempty)\<rparr>"
  have w: "w_outcomes ?w = []" "orderly 1 (w_dir ?w)"
    using fixed_not_temp by (auto simp: fresh_world_def orderly_def dir_or_absent_def)
  obtain paths w' where run: "render 1 ''/s'' sample_composed CompatFiles ?w = (Inr paths, w')"
    using succeeds_render [OF w, where mode = CompatFiles and root = "''/s''" and composed = sample_composed]
    by (auto simp: succeeds_def)
  then show ?thesis using staging_destroyed [OF w _ run] by auto
qed

end
