(* ===== verification/Daemon.thy ===== *)
theory Daemon
  imports Control RenderProps RootEvents "HOL-Library.AList"
begin

text \<open>
  The daemon (\<open>trustd/src/main.rs\<close>): its state, \<open>refresh\<close>, \<open>publish\<close>, \<open>handle\<close>, one turn of the poll
  loop, and the start. It calls the models of composition, configuration, rendering, root
  events and the control socket.

  What the daemon learns of the world is an argument: \<open>readings\<close> are what one \<open>refresh\<close> reads,
  \<open>turn_input\<close> is what one turn of the loop finds. What it does to the world is the record
  \<open>outside\<close> and the bytes sent to each stream. \<open>None\<close> is a panic. Logging is not modelled.
\<close>

section \<open>State\<close>

definition STORE_DIR :: string where
  "STORE_DIR = ''/system/retc/ssl''"

definition SHARE_BUNDLE :: string where
  "SHARE_BUNDLE = ''/usr/share/ca-certificates/mozilla.crt''"

text \<open>Times are in nanoseconds.\<close>

definition CLIENT_TIMEOUT :: nat where
  "CLIENT_TIMEOUT = 5000000000"

definition WRITE_TIMEOUT :: nat where
  "WRITE_TIMEOUT = 5000000000"

definition MAX_CLIENTS :: nat where
  "MAX_CLIENTS = 128"

text \<open>A stream: its peer, and the time at the start of each send to it.\<close>

record 'conn stream =
  st_conn :: 'conn
  st_peer :: peer
  st_clock :: "nat list"

record 'conn client =
  cl_stream :: "'conn stream"
  cl_buf :: bytes
  cl_since :: nat

text \<open>
  \<open>t_events\<close> says whether the event policy could be opened. The table of clients is a list of
  pairs; the order of a \<open>HashMap\<close> shows only in the order of polling, which is given.
\<close>

record ('sd, 'conn) trustd =
  t_config :: config
  t_control :: 'sd
  t_composed :: composed
  t_generation :: u64
  t_health :: Health
  t_message :: "string option"
  t_rendered :: "string list"
  t_bundle_stamp :: "(u64 \<times> int) option"
  t_clients :: "(u64 \<times> 'conn client) list"
  t_subscribers :: "('conn stream \<times> bool) list"
  t_next_id :: u64
  t_composed_once :: bool
  t_events :: bool

record outside =
  o_files :: world
  o_events :: "(string \<times> bytes) list"

text \<open>The crates the daemon calls, and the text of a wire error.\<close>

record ('r, 'e, 'sd, 'tok, 'conn) platform =
  p_msgpack :: "('r, 'e) msgpack"
  p_describe :: "'e wire_error \<Rightarrow> string"
  p_lib :: lib
  p_security :: "('sd, 'tok, 'conn) security"
  p_pid :: nat

text \<open>
  What one refresh reads: the registry, the metadata and the text of the shipped bundle, the
  clock in seconds, and the answers of the event crate.
\<close>

record ('k, 'e) readings =
  rd_registry :: "'k registry"
  rd_meta :: "io_error + u64 \<times> (io_error + int)"
  rd_bundle :: "io_error + string"
  rd_now :: "int option"
  rd_policy :: "string \<Rightarrow> 'e + bool"
  rd_emit :: "string \<Rightarrow> bytes \<Rightarrow> 'e + unit"

section \<open>Sending to a stream\<close>

definition send_with ::
  "(nat \<Rightarrow> peer \<Rightarrow> (bool \<times> peer) option) \<Rightarrow> 'conn stream \<Rightarrow> (bool \<times> 'conn stream) option" where
  "send_with f stream =
     map_option (\<lambda>(ok, peer). (ok, stream\<lparr>st_peer := peer, st_clock := tl (st_clock stream)\<rparr>))
       (f ((case st_clock stream of [] \<Rightarrow> 0 | now # _ \<Rightarrow> now) + WRITE_TIMEOUT) (st_peer stream))"

definition respond_to where
  "respond_to P reply = send_with (\<lambda>deadline. respond (p_msgpack P) deadline reply)"

definition send_roots_to where
  "send_roots_to P generation roots =
     send_with (\<lambda>deadline. send_roots (p_msgpack P) deadline generation roots)"

section \<open>Operations of \<open>Trustd\<close>\<close>

definition fresh_id :: "('sd, 'conn) trustd \<Rightarrow> u64 \<times> ('sd, 'conn) trustd" where
  "fresh_id t = (let t = t\<lparr>t_next_id := t_next_id t + 1\<rparr> in (t_next_id t, t))"

definition wire_root :: "bool \<Rightarrow> entry \<Rightarrow> root" where
  "wire_root with_der e =
     \<lparr>r_fingerprint = fingerprint (e_parsed e), r_subject = subject (e_parsed e),
      r_purposes = e_purposes e, r_source = e_source e, r_name = e_name e,
      r_not_after = not_after (e_parsed e), r_der = (if with_der then der (e_parsed e) else [])\<rparr>"

definition trustd_roots :: "('sd, 'conn) trustd \<Rightarrow> bool \<Rightarrow> string option \<Rightarrow> root list" where
  "trustd_roots t with_der purpose =
     map (wire_root with_der)
       (filter (\<lambda>e. case purpose of
            Some p \<Rightarrow> \<exists>own \<in> set (e_purposes e). eq_ignore_ascii_case own p
          | None \<Rightarrow> True) (c_roots (t_composed t)))"

definition trustd_status :: "('sd, 'conn) trustd \<Rightarrow> status" where
  "trustd_status t =
     \<lparr>s_generation = t_generation t, s_health = t_health t, s_message = t_message t,
      s_shipped = c_shipped (t_composed t), s_added = c_added (t_composed t),
      s_distrusted = c_distrusted (t_composed t), s_skipped = c_skipped (t_composed t),
      s_effective = word_of_nat (length (c_roots (t_composed t))),
      s_compat_mode = as_dword (g_compat (t_config t)), s_rendered = t_rendered t\<rparr>"

definition degrade :: "string \<Rightarrow> ('sd, 'conn) trustd \<Rightarrow> ('sd, 'conn) trustd" where
  "degrade why t = t\<lparr>t_health := Degraded, t_message := Some why\<rparr>"

definition render_store where
  "render_store P d =
     (case d of (t, out) \<Rightarrow>
        (case render (p_pid P) STORE_DIR (t_composed t) (g_compat (t_config t)) (o_files out) of
           (Inr paths, w) \<Rightarrow> (t\<lparr>t_rendered := rendered_paths STORE_DIR w\<rparr>, out\<lparr>o_files := w\<rparr>)
         | (Inl e, w) \<Rightarrow>
             (t\<lparr>t_health := Degraded, t_message := Some (''render failed: '' @ io_text e)\<rparr>,
              out\<lparr>o_files := w\<rparr>)))"

text \<open>The loop of \<open>publish\<close>: the subscribers kept, in order.\<close>

fun publish_loop where
  "publish_loop P generation full bare kept [] = Some kept"
| "publish_loop P generation full bare kept ((stream, wants_der) # subs) =
     (case send_roots_to P generation (if wants_der then full else bare) stream of
        None \<Rightarrow> None
      | Some (ok, stream) \<Rightarrow>
          publish_loop P generation full bare (if ok then kept @ [(stream, wants_der)] else kept) subs)"

definition publish where
  "publish P t =
     (if t_subscribers t = [] then Some t
      else map_option (\<lambda>kept. t\<lparr>t_subscribers := kept\<rparr>)
        (publish_loop P (t_generation t) (trustd_roots t True None) (trustd_roots t False None) []
           (t_subscribers t)))"

text \<open>\<open>refresh\<close> from a composition on.\<close>

definition adopt where
  "adopt P rd config_changed composed d =
     (case d of (t, out) \<Rightarrow>
        let unchanged = (c_roots composed = c_roots (t_composed t) \<and> t_health t = HealthOk);
            out = (if t_composed_once t
              then out\<lparr>o_events := o_events out @ fst (record_changes (p_msgpack P) (p_lib P)
                (if t_events t then Some (rd_policy rd) else None) (rd_emit rd)
                (changes (c_roots (t_composed t)) (c_roots composed) (g_distrust (t_config t))))\<rparr>
              else out);
            t = t\<lparr>t_composed_once := True, t_composed := composed, t_health := HealthOk, t_message := None\<rparr>
        in if unchanged \<and> \<not> config_changed then Some (t, out)
           else case render_store P (t\<lparr>t_generation := t_generation t + 1\<rparr>, out) of
             (t, out) \<Rightarrow> map_option (\<lambda>t. (t, out)) (publish P t))"

definition refresh where
  "refresh P rd d =
     (case d of (t, out) \<Rightarrow>
        (case load (rd_registry rd) of
           Inl error \<Rightarrow> Some (degrade (''keeping previous configuration: '' @ io_text error) t, out)
         | Inr fresh \<Rightarrow>
             let config_changed = (fresh \<noteq> t_config t)
             in case (if config_changed then control_new (p_security P) (g_control_security fresh)
                      else Some (t_control t)) of
                  None \<Rightarrow> None
                | Some control \<Rightarrow>
                    let t = t\<lparr>t_control := control, t_config := fresh, t_bundle_stamp := stamp (rd_meta rd)\<rparr>
                    in case rd_bundle rd of
                         Inl e \<Rightarrow> Some (degrade (''cannot read '' @ SHARE_BUNDLE @ '': '' @ io_text e) t, out)
                       | Inr shipped \<Rightarrow>
                           (case compose (p_lib P) shipped (g_additions (t_config t)) (g_distrust (t_config t)) (rd_now rd) of
                              Inl e \<Rightarrow> Some (degrade e t, out)
                            | Inr composed \<Rightarrow> adopt P rd config_changed composed (t, out))))"

text \<open>\<open>handle\<close>, with the stream that is dropped at its end unless it became a subscriber.\<close>

definition handle where
  "handle P rd stream request d =
     (case d of (t, out) \<Rightarrow>
        if \<not> permits (p_security P) (t_control t) (st_conn stream) (required_right request)
        then map_option (\<lambda>(_, s). ((t, out), Some s)) (respond_to P (ReplyError ''access denied'') stream)
        else case request of
          ReqStatus \<Rightarrow>
            map_option (\<lambda>(_, s). ((t, out), Some s)) (respond_to P (ReplyStatus (trustd_status t)) stream)
        | ReqRoots with_der purpose \<Rightarrow>
            map_option (\<lambda>(_, s). ((t, out), Some s))
              (send_roots_to P (t_generation t) (trustd_roots t with_der purpose) stream)
        | ReqSubscribe with_der \<Rightarrow>
            map_option (\<lambda>(ok, s).
                if ok then ((t\<lparr>t_subscribers := t_subscribers t @ [(s, with_der)]\<rparr>, out), None)
                else ((t, out), Some s))
              (send_roots_to P (t_generation t) (trustd_roots t with_der None) stream)
        | ReqReload \<Rightarrow>
            (case refresh P rd (t, out) of
               None \<Rightarrow> None
             | Some (t, out) \<Rightarrow>
                 map_option (\<lambda>(_, s). ((t, out), Some s))
                   (respond_to P
                     (if t_health t = Degraded
                      then ReplyError (case t_message t of Some m \<Rightarrow> m | None \<Rightarrow> ''trust store is degraded'')
                      else ReplyOk) stream)))"

section \<open>One turn of the loop\<close>

datatype poll = PollInterrupted | PollFailed | PollReady

text \<open>A connection (and whether it can be made non-blocking), or the end of \<open>accept\<close>.\<close>

datatype 'conn accept = Accepted "'conn stream" bool | AcceptWouldBlock | AcceptErr

text \<open>\<open>Ok\<close> of some events or none; an error, and whether re-arming worked.\<close>

datatype watch_read = WatchEvents bool | WatchErr bool

text \<open>
  What a turn finds: for every client with an event, in the order of polling, its id, what its
  reads give and what a reload would read; the slots of the subscribers with an event; the
  reads of the signal and the watch if they had one; the bundle's metadata; what the refresh
  at the end reads.
\<close>

record ('k, 'e, 'conn) turn_input =
  i_poll :: poll
  i_now :: nat
  i_accepts :: "'conn accept list option"
  i_ready :: "(u64 \<times> read_result list \<times> ('k, 'e) readings) list"
  i_closed :: "nat list"
  i_signal :: "read_result list option"
  i_watch :: "watch_read option"
  i_meta :: "io_error + u64 \<times> (io_error + int)"
  i_readings :: "('k, 'e) readings"

fun accept_loop :: "nat \<Rightarrow> 'conn accept list \<Rightarrow> ('sd, 'conn) trustd \<Rightarrow> ('sd, 'conn) trustd" where
  "accept_loop now [] t = t"
| "accept_loop now (Accepted stream nonblocking # results) t =
     (if MAX_CLIENTS \<le> length (t_clients t) then accept_loop now results t
      else if \<not> nonblocking then accept_loop now results t
      else case fresh_id t of (ident, t) \<Rightarrow>
        accept_loop now results
          (t\<lparr>t_clients := AList.update ident \<lparr>cl_stream = stream, cl_buf = [], cl_since = now\<rparr> (t_clients t)\<rparr>))"
| "accept_loop now (AcceptWouldBlock # results) t = t"
| "accept_loop now (AcceptErr # results) t = t"

definition client_step where
  "client_step P ready d =
     (case (ready, d) of ((ident, results, rd), (t, out)) \<Rightarrow>
        (case map_of (t_clients t) ident of
           None \<Rightarrow> Some (t, out)
         | Some client \<Rightarrow>
             (case client_read (p_msgpack P) (p_describe P) (cl_buf client) results of
                (progress, buf, reply) \<Rightarrow>
                  (case (case reply of
                           None \<Rightarrow> Some (cl_stream client)
                         | Some r \<Rightarrow> map_option snd (respond_to P r (cl_stream client))) of
                     None \<Rightarrow> None
                   | Some stream \<Rightarrow>
                       (case progress of
                          Incomplete \<Rightarrow>
                            Some (t\<lparr>t_clients := AList.update ident
                              (client\<lparr>cl_stream := stream, cl_buf := buf\<rparr>) (t_clients t)\<rparr>, out)
                        | Closed \<Rightarrow> Some (t\<lparr>t_clients := AList.delete ident (t_clients t)\<rparr>, out)
                        | ProgressRequest request \<Rightarrow>
                            map_option fst (handle P rd stream request
                              (t\<lparr>t_clients := AList.delete ident (t_clients t)\<rparr>, out)))))))"

fun client_steps where
  "client_steps P [] d = Some d"
| "client_steps P (ready # more_ready) d =
     (case client_step P ready d of None \<Rightarrow> None | Some d \<Rightarrow> client_steps P more_ready d)"

text \<open>\<open>Vec::remove\<close> panics out of range.\<close>

fun remove_slots :: "nat list \<Rightarrow> 'a list \<Rightarrow> 'a list option" where
  "remove_slots [] xs = Some xs"
| "remove_slots (i # slots) xs =
     (if i < length xs then remove_slots slots (take i xs @ drop (Suc i) xs) else None)"

text \<open>\<open>reload_signal::drain\<close>: a record is 128 bytes.\<close>

fun drain :: "bool \<Rightarrow> read_result list \<Rightarrow> io_error + bool" where
  "drain pending [] = Inr pending"
| "drain pending (Got record # results) =
     (if length record = 128 then drain True results
      else Inl (IoError UnexpectedEof None ''short signalfd record''))"
| "drain pending (ReadErr kind # results) =
     (if kind = WouldBlock then Inr pending
      else if kind = Interrupted then drain pending results
      else Inl (IoError kind None []))"

datatype 'm after = Running 'm | Exited | Panicked

record ('sd, 'conn) daemon =
  d_trustd :: "('sd, 'conn) trustd"
  d_outside :: outside
  d_watch :: bool

text \<open>The watch: whether it asks for a refresh, and whether it is armed afterwards.\<close>

definition watch_step :: "bool \<Rightarrow> watch_read option \<Rightarrow> bool \<times> bool" where
  "watch_step armed event =
     (if armed then
        (case event of
           None \<Rightarrow> (False, True)
         | Some (WatchEvents some) \<Rightarrow> (some, True)
         | Some (WatchErr rearmed) \<Rightarrow> (False, rearmed))
      else (False, False))"

definition expire :: "nat \<Rightarrow> ('sd, 'conn) trustd \<Rightarrow> ('sd, 'conn) trustd" where
  "expire now t =
     t\<lparr>t_clients := filter (\<lambda>(_, c). now - cl_since c < CLIENT_TIMEOUT) (t_clients t)\<rparr>"

definition turn where
  "turn P i m =
     (case i_poll i of
        PollInterrupted \<Rightarrow> Running m
      | PollFailed \<Rightarrow> Exited
      | PollReady \<Rightarrow>
          let t = (case i_accepts i of
                None \<Rightarrow> d_trustd m | Some results \<Rightarrow> accept_loop (i_now i) results (d_trustd m))
          in case client_steps P (i_ready i) (t, d_outside m) of
               None \<Rightarrow> Panicked
             | Some (t, out) \<Rightarrow>
                 (case remove_slots (rev (i_closed i)) (t_subscribers t) of
                    None \<Rightarrow> Panicked
                  | Some subs \<Rightarrow>
                      let t = t\<lparr>t_subscribers := subs\<rparr>
                      in case (case i_signal i of None \<Rightarrow> Inr False | Some results \<Rightarrow> drain False results) of
                           Inl e \<Rightarrow> Exited
                         | Inr hangup \<Rightarrow>
                             (case watch_step (d_watch m) (i_watch i) of
                                (changed, armed) \<Rightarrow>
                                  if hangup \<or> changed \<or> stamp (i_meta i) \<noteq> t_bundle_stamp t
                                  then (case refresh P (i_readings i) (t, out) of
                                          None \<Rightarrow> Panicked
                                        | Some (t, out) \<Rightarrow>
                                            Running \<lparr>d_trustd = expire (i_now i) t, d_outside = out, d_watch = armed\<rparr>)
                                  else Running \<lparr>d_trustd = expire (i_now i) t, d_outside = out, d_watch = armed\<rparr>)))"

text \<open>The loop as a step on what is left of the process.\<close>

fun daemon_step where
  "daemon_step P (Running m) i = turn P i m"
| "daemon_step P Exited i = Exited"
| "daemon_step P Panicked i = Panicked"

section \<open>The start\<close>

definition trustd_new :: "'sd \<Rightarrow> config \<Rightarrow> bool \<Rightarrow> ('sd, 'conn) trustd" where
  "trustd_new control config events =
     \<lparr>t_config = config, t_control = control,
      t_composed = composed_default, t_generation = 0, t_health = HealthOk, t_message = None,
      t_rendered = [], t_bundle_stamp = None, t_clients = [], t_subscribers = [], t_next_id = 0,
      t_composed_once = False, t_events = events\<rparr>"

text \<open>
  From \<open>main\<close>'s first line after the arguments to the loop: whether the signal, the socket, the
  watch and the event policy could be opened, the registry of the first load, and what the
  first refresh reads.
\<close>

definition daemon_start where
  "daemon_start (P :: ('r, 'e, 'sd, 'tok, 'conn) platform) signal listening watching policy R rd files =
     (if \<not> signal \<or> \<not> listening then Exited
      else case load R of
        Inl e \<Rightarrow> Exited
      | Inr config \<Rightarrow>
          (case control_new (p_security P) (g_control_security config) of
             None \<Rightarrow> Panicked
           | Some control \<Rightarrow>
               (case refresh P rd (trustd_new control config policy :: ('sd, 'conn) trustd, \<lparr>o_files = files, o_events = []\<rparr>) of
                  None \<Rightarrow> Panicked
                | Some (t, out) \<Rightarrow> Running \<lparr>d_trustd = t, d_outside = out, d_watch = watching\<rparr>)))"

end
