(* ===== verification/DaemonInv.thy ===== *)
theory DaemonInv
  imports Daemon "HOL-Library.Sublist"
begin

text \<open>
  What every turn of the daemon (\<open>trustd/src/main.rs\<close>) keeps: the invariant \<open>well\<close> and the order
  \<open>later\<close>, as lemmas on \<open>refresh\<close>, \<open>publish\<close>, \<open>handle\<close> and the loop, and the \<open>machine\<close> they make.
\<close>

section \<open>The invariant\<close>

text \<open>A subscriber is current: the last of what it was sent is the whole present snapshot.\<close>

definition current where
  "current P t sub \<longleftrightarrow> (\<exists>old. sent (st_peer (fst sub)) = old @
     wire (p_msgpack P) (snapshot_replies (t_generation t) (trustd_roots t (snd sub) None)))"

text \<open>What is served was composed, or is the empty set the daemon starts with.\<close>

definition composed_ok where
  "composed_ok P t \<longleftrightarrow>
     (if t_composed_once t
      then \<exists>shipped additions distrust now. compose (p_lib P) shipped additions distrust now = Inr (t_composed t)
      else t_composed t = composed_default)"

text \<open>A healthy daemon has the store on disk.\<close>

definition on_disk where
  "on_disk t out \<longleftrightarrow>
     (t_composed_once t \<and> t_health t = HealthOk \<longrightarrow>
        t_rendered t = rendered_paths STORE_DIR (o_files out) \<and>
        (g_compat (t_config t) \<noteq> CompatNone \<longrightarrow>
           fmlookup (w_dir (o_files out)) ''certs'' = Some (Dir (fill fmempty (rendering (t_composed t)))) \<and>
           fmlookup (w_dir (o_files out)) ''cert.pem'' = Some (File (as_bytes (bundle_of (t_composed t))))))"

definition message_ok where
  "message_ok t \<longleftrightarrow> (t_health t = Degraded) = (t_message t \<noteq> None)"

definition clients_ok where
  "clients_ok t \<longleftrightarrow> length (t_clients t) \<le> MAX_CLIENTS \<and>
     (\<forall>c \<in> snd ` set (t_clients t). length (cl_buf c) \<le> 4 + MAX_MESSAGE_BYTES)"

definition well where
  "well P d \<longleftrightarrow>
     (case d of (t, out) \<Rightarrow>
        list_all (current P t) (t_subscribers t) \<and> composed_ok P t \<and> on_disk t out \<and> message_ok t \<and> clients_ok t)"

text \<open>
  The order: with at most \<open>n\<close> snapshots published the generation goes up by their number, and
  while there is none the set of roots is the same; events are only appended.
\<close>

definition later where
  "later n d d' \<longleftrightarrow>
     (case (d, d') of ((t, out), (t', out')) \<Rightarrow>
        (\<exists>k \<le> n. t_generation t' = t_generation t + word_of_nat k \<and>
           (k = 0 \<longrightarrow> c_roots (t_composed t') = c_roots (t_composed t))) \<and>
        (t_composed_once t \<longrightarrow> t_composed_once t') \<and>
        prefix (o_events out) (o_events out'))"

lemma later_refl [simp]: "later 0 d d"
proof -
  have "\<exists>k \<le> 0 :: nat. t_generation t = t_generation t + word_of_nat k \<and> (k = 0 \<longrightarrow> c_roots (t_composed t) = c_roots (t_composed t))"
    for t :: "('a, 'b) trustd" by (rule exI [of _ 0]) simp
  then show ?thesis by (simp add: later_def split: prod.split)
qed

lemma later_mono: "later m d d' \<Longrightarrow> m \<le> n \<Longrightarrow> later n d d'"
  by (cases d; cases d') (auto simp: later_def intro: le_trans)

lemma later_trans: "later m d d' \<Longrightarrow> later n d' d'' \<Longrightarrow> later (m + n) d d''"
proof -
  assume a: "later m d d'" "later n d' d''"
  obtain t out t' out' t'' out'' where d: "d = (t, out)" "d' = (t', out')" "d'' = (t'', out'')"
    by (metis prod.exhaust)
  from a d obtain k k' :: nat where
    k: "k \<le> m" "t_generation t' = t_generation t + word_of_nat k" "k = 0 \<longrightarrow> c_roots (t_composed t') = c_roots (t_composed t)"
    and k': "k' \<le> n" "t_generation t'' = t_generation t' + word_of_nat k'" "k' = 0 \<longrightarrow> c_roots (t_composed t'') = c_roots (t_composed t')"
    by (auto simp: later_def)
  have "k + k' \<le> m + n" "t_generation t'' = t_generation t + word_of_nat (k + k')" "k + k' = 0 \<longrightarrow> c_roots (t_composed t'') = c_roots (t_composed t)"
    using k k' by simp_all
  then have "\<exists>k \<le> m + n. t_generation t'' = t_generation t + word_of_nat k \<and>
      (k = 0 \<longrightarrow> c_roots (t_composed t'') = c_roots (t_composed t))" by blast
  then show "later (m + n) d d''" using a d by (auto simp: later_def dest: prefix_order.trans)
qed

text \<open>Changes that neither publish nor compose.\<close>

lemma later_same:
  assumes "t_generation t' = t_generation t" and "c_roots (t_composed t') = c_roots (t_composed t)"
    and "t_composed_once t \<longrightarrow> t_composed_once t'" and "prefix (o_events out) (o_events out')"
  shows "later 0 (t, out) (t', out')"
proof -
  have "\<exists>k \<le> 0 :: nat. t_generation t' = t_generation t + word_of_nat k \<and>
      (k = 0 \<longrightarrow> c_roots (t_composed t') = c_roots (t_composed t))"
    by (rule exI [of _ 0]) (simp add: assms)
  then show ?thesis using assms by (simp add: later_def)
qed

lemma later_next:
  assumes "t_generation t' = t_generation t + 1"
    and "t_composed_once t'" and "prefix (o_events out) (o_events out')"
  shows "later 1 (t, out) (t', out')"
proof -
  have "\<exists>k \<le> 1 :: nat. t_generation t' = t_generation t + word_of_nat k \<and>
      (k = 0 \<longrightarrow> c_roots (t_composed t') = c_roots (t_composed t))"
    by (rule exI [of _ 1]) (simp add: assms)
  then show ?thesis using assms by (simp add: later_def)
qed

lemma roots_same: "c_roots (t_composed t') = c_roots (t_composed t) \<Longrightarrow> trustd_roots t' = trustd_roots t"
  by (intro ext) (simp add: trustd_roots_def)

text \<open>Fewer snapshots than there are generations: the same generation is the same set.\<close>

lemma later_generation:
  assumes "later n (t, out) (t', out')" and "n < 2 ^ 64"
  shows "(t_generation t' = t_generation t \<longrightarrow> trustd_roots t' = trustd_roots t) \<and>
    unat (t_generation t' - t_generation t) \<le> n \<and> prefix (o_events out) (o_events out')"
proof -
  obtain k where k: "k \<le> n" "t_generation t' = t_generation t + word_of_nat k"
    "k = 0 \<longrightarrow> c_roots (t_composed t') = c_roots (t_composed t)" "prefix (o_events out) (o_events out')"
    using assms(1) by (auto simp: later_def)
  have "unat (t_generation t' - t_generation t) = k"
    using k(1,2) assms(2) by (simp add: unat_of_nat)
  moreover from this have "t_generation t' = t_generation t \<longrightarrow> k = 0" by auto
  ultimately show ?thesis using k roots_same by blast
qed

section \<open>Sending\<close>

lemma respond_True:
  assumes "respond M deadline r peer = Some (True, peer')"
  shows "sent peer' = sent peer @ wire M [r]"
proof -
  obtain payload where p: "encode_reply M r = Some payload" "write_message deadline payload peer = (True, peer')"
    using assms by (auto simp: respond_def)
  then show ?thesis
    using write_message_outcome [of payload deadline peer] by (auto simp: wire_def)
qed

lemma send_chunks_True:
  "send_chunks M deadline g batches peer = Some (True, peer') \<Longrightarrow>
     sent peer' = sent peer @ wire M (chunk_replies g batches)"
proof (induction batches arbitrary: peer)
  case Nil
  then show ?case by (simp add: wire_def)
next
  case (Cons b batches)
  let ?r = "ReplyRoots g b (batches \<noteq> [])"
  obtain peer1 where 1: "respond M deadline ?r peer = Some (True, peer1)"
    and 2: "send_chunks M deadline g batches peer1 = Some (True, peer')"
    using Cons.prems by (auto split: option.splits if_splits)
  show ?case using Cons.IH [OF 2] respond_True [OF 1] by (simp add: wire_def)
qed

lemma send_roots_True:
  "send_roots M deadline g roots peer = Some (True, peer') \<Longrightarrow>
     sent peer' = sent peer @ wire M (snapshot_replies g roots)"
  by (auto simp: send_roots_def snapshot_replies_def dest: respond_True send_chunks_True split: if_splits)

lemma send_roots_to_True:
  "send_roots_to P g roots s = Some (True, s') \<Longrightarrow>
     sent (st_peer s') = sent (st_peer s) @ wire (p_msgpack P) (snapshot_replies g roots)"
  by (auto simp: send_roots_to_def send_with_def dest!: send_roots_True)

text \<open>What is published to.\<close>

lemma publish_loop_sent:
  assumes "publish_loop P g full bare kept subs = Some kept'"
    and "\<forall>(s, der) \<in> set kept. \<exists>old. sent (st_peer s) =
      old @ wire (p_msgpack P) (snapshot_replies g (if der then full else bare))"
  shows "\<forall>(s, der) \<in> set kept'. \<exists>old. sent (st_peer s) =
      old @ wire (p_msgpack P) (snapshot_replies g (if der then full else bare))"
  using assms
proof (induction subs arbitrary: kept)
  case (Cons sub subs)
  obtain s der where sub: "sub = (s, der)" by fastforce
  obtain ok s' where s': "send_roots_to P g (if der then full else bare) s = Some (ok, s')"
    and rest: "publish_loop P g full bare (if ok then kept @ [(s', der)] else kept) subs = Some kept'"
    using Cons.prems(1) by (auto simp: sub split: option.splits)
  have "\<forall>(s, der) \<in> set (if ok then kept @ [(s', der)] else kept). \<exists>old. sent (st_peer s) =
      old @ wire (p_msgpack P) (snapshot_replies g (if der then full else bare))"
    using Cons.prems(2) s' by (auto dest!: send_roots_to_True)
  from Cons.IH [OF rest this] show ?case .
qed simp

lemma publish_frame:
  assumes "publish P t = Some t'"
  shows "\<exists>subs. t' = t\<lparr>t_subscribers := subs\<rparr>"
proof (cases "t_subscribers t = []")
  case True
  then have "t' = t\<lparr>t_subscribers := t_subscribers t\<rparr>" using assms by (simp add: publish_def)
  then show ?thesis by blast
next
  case False
  then show ?thesis using assms by (auto simp: publish_def)
qed

lemma current_cong:
  "t_generation t' = t_generation t \<Longrightarrow> c_roots (t_composed t') = c_roots (t_composed t) \<Longrightarrow>
     current P t' = current P t"
  using roots_same [of t' t] by (intro ext) (simp add: current_def)

lemma publish_current:
  assumes "publish P t = Some t'"
  shows "list_all (current P t') (t_subscribers t')"
proof (cases "t_subscribers t = []")
  case True
  then show ?thesis using assms by (simp add: publish_def)
next
  case False
  then obtain kept where kept: "publish_loop P (t_generation t) (trustd_roots t True None)
      (trustd_roots t False None) [] (t_subscribers t) = Some kept" and t': "t' = t\<lparr>t_subscribers := kept\<rparr>"
    using assms by (auto simp: publish_def)
  have c: "current P t' = current P t" by (rule current_cong) (simp_all add: t')
  have "current P t sub" if "sub \<in> set kept" for sub
    using publish_loop_sent [OF kept] that by (cases sub; cases "snd sub") (auto simp: current_def)
  then have "list_all (current P t') kept" by (simp add: c list_all_iff)
  then show ?thesis by (simp add: t')
qed

section \<open>\<open>refresh\<close> keeps the invariant\<close>

lemma compose_nonempty: "compose L pem additions distrust now = Inr out \<Longrightarrow> c_roots out \<noteq> []"
  using compose_outcome [where L = L and pem = pem and additions = additions and distrust = distrust and now = now]
  by auto

lemma rendering_cong:
  "c_roots c = c_roots c' \<Longrightarrow> rendering c = rendering c' \<and> bundle_of c = bundle_of c'"
  by (simp add: rendering_def bundle_of_def)

text \<open>The last steps of a refresh: what they leave alone, and what they make true.\<close>

lemma render_store_frame:
  assumes "render_store P (t, out) = (t', out')"
  shows "(\<exists>rendered health message. t' = t\<lparr>t_rendered := rendered, t_health := health, t_message := message\<rparr>) \<and>
    o_events out' = o_events out"
proof (cases "render (p_pid P) STORE_DIR (t_composed t) (g_compat (t_config t)) (o_files out)")
  case (Pair r w)
  show ?thesis
  proof (cases r)
    case (Inl e)
    then have "t' = t\<lparr>t_rendered := t_rendered t, t_health := Degraded,
        t_message := Some (''render failed: '' @ io_text e)\<rparr>" "o_events out' = o_events out"
      using assms Pair by (auto simp: render_store_def)
    then show ?thesis by blast
  next
    case (Inr paths)
    then have "t' = t\<lparr>t_rendered := rendered_paths STORE_DIR w, t_health := t_health t, t_message := t_message t\<rparr>"
      "o_events out' = o_events out"
      using assms Pair by (auto simp: render_store_def)
    then show ?thesis by blast
  qed
qed

lemma render_store_disk:
  assumes "render_store P (t, out) = (t', out')" and "message_ok t"
  shows "on_disk t' out' \<and> message_ok t'"
proof (cases "render (p_pid P) STORE_DIR (t_composed t) (g_compat (t_config t)) (o_files out)")
  case (Pair r w)
  show ?thesis
  proof (cases r)
    case (Inl e)
    then show ?thesis using assms Pair by (auto simp: render_store_def on_disk_def message_ok_def)
  next
    case (Inr paths)
    then show ?thesis
      using assms Pair render_outcome [OF Pair] by (auto simp: render_store_def on_disk_def message_ok_def)
  qed
qed

text \<open>A refresh: the clients are untouched, the invariant is kept, the state is a later one.\<close>

definition kept_by where
  "kept_by P t out t' out' \<longleftrightarrow>
     t_clients t' = t_clients t \<and> well P (t', out') \<and> later 1 (t, out) (t', out')"

lemma degrade_kept:
  assumes "well P (t, out)" and "t_composed t' = t_composed t" and "t_generation t' = t_generation t"
    and "t_subscribers t' = t_subscribers t" and "t_clients t' = t_clients t"
    and "t_composed_once t' = t_composed_once t"
  shows "kept_by P t out (degrade why t') out"
proof -
  let ?d = "degrade why t'"
  have c: "current P ?d = current P t" by (rule current_cong) (simp_all add: degrade_def assms)
  have "list_all (current P ?d) (t_subscribers t)" using assms(1) by (simp add: c well_def)
  moreover have "composed_ok P ?d" using assms by (simp add: well_def composed_ok_def degrade_def)
  moreover have "on_disk ?d out" by (simp add: on_disk_def degrade_def)
  moreover have "message_ok ?d" by (simp add: message_ok_def degrade_def)
  moreover have "clients_ok ?d" using assms by (simp add: well_def clients_ok_def degrade_def)
  moreover have "later 1 (t, out) (?d, out)"
    by (rule later_mono, rule later_same) (simp_all add: degrade_def assms)
  ultimately show ?thesis using assms by (simp add: kept_by_def well_def degrade_def)
qed

text \<open>From a composition on; the state is as \<open>refresh\<close> passes it, with the configuration set.\<close>

lemma adopt_kept:
  assumes well: "well P (t, out)" and comp: "compose (p_lib P) shipped additions distrust now = Inr composed"
    and t: "t_composed t1 = t_composed t" "t_generation t1 = t_generation t" "t_health t1 = t_health t"
      "t_subscribers t1 = t_subscribers t" "t_clients t1 = t_clients t" "t_rendered t1 = t_rendered t"
      "t_composed_once t1 = t_composed_once t"
    and config: "\<not> changed \<longrightarrow> t_config t1 = t_config t"
    and run: "adopt P rd changed composed (t1, out) = Some (t', out')"
  shows "kept_by P t out t' out'"
proof -
  define unchanged where "unchanged \<longleftrightarrow> c_roots composed = c_roots (t_composed t1) \<and> t_health t1 = HealthOk"
  define out1 where "out1 = (if t_composed_once t1
    then out\<lparr>o_events := o_events out @ fst (record_changes (p_msgpack P) (p_lib P)
      (if t_events t1 then Some (rd_policy rd) else None) (rd_emit rd)
      (changes (c_roots (t_composed t1)) (c_roots composed) (g_distrust (t_config t1))))\<rparr> else out)"
  define t2 where "t2 = t1\<lparr>t_composed_once := True, t_composed := composed, t_health := HealthOk, t_message := None\<rparr>"
  have events: "prefix (o_events out) (o_events out1)" and files: "o_files out1 = o_files out"
    by (simp_all add: out1_def)
  have ok2: "composed_ok P t2" using comp by (auto simp: composed_ok_def t2_def)
  have cl: "clients_ok t1" using well t by (simp add: well_def clients_ok_def)
  have run': "(if unchanged \<and> \<not> changed then Some (t2, out1)
      else case render_store P (t2\<lparr>t_generation := t_generation t2 + 1\<rparr>, out1) of
        (t, out) \<Rightarrow> map_option (\<lambda>t. (t, out)) (publish P t)) = Some (t', out')"
    using run by (simp only: adopt_def prod.case Let_def unchanged_def out1_def t2_def)
  show ?thesis
  proof (cases "unchanged \<and> \<not> changed")
    case True
    then have t': "t' = t2" "out' = out1" using run' by simp_all
    have roots: "c_roots composed = c_roots (t_composed t)" "t_health t = HealthOk" "t_config t1 = t_config t"
      using True t config by (simp_all add: unchanged_def)
    have once: "t_composed_once t"
      using well compose_nonempty [OF comp] roots(1)
      by (auto simp: well_def composed_ok_def composed_default_def split: if_splits)
    have c: "current P t2 = current P t" by (rule current_cong) (simp_all add: t2_def t roots)
    have "list_all (current P t2) (t_subscribers t2)"
      using well by (simp add: c well_def t) (simp add: t2_def t)
    moreover have "on_disk t2 out1"
      using well once roots rendering_cong [OF roots(1)] files
      by (simp add: well_def on_disk_def t2_def t)
    moreover have "message_ok t2" by (simp add: message_ok_def t2_def)
    moreover have "clients_ok t2" using cl by (simp add: clients_ok_def t2_def)
    moreover have "later 1 (t, out) (t2, out1)"
      by (rule later_mono, rule later_same) (simp_all add: t2_def t roots events)
    ultimately show ?thesis using ok2 by (simp add: kept_by_def well_def t') (simp add: t2_def t)
  next
    case False
    obtain t3 out3 where r: "render_store P (t2\<lparr>t_generation := t_generation t2 + 1\<rparr>, out1) = (t3, out3)"
      by fastforce
    then have p: "publish P t3 = Some t'" "out' = out3" using False run' by auto
    obtain rendered health message where t3:
      "t3 = t2\<lparr>t_generation := t_generation t2 + 1, t_rendered := rendered, t_health := health, t_message := message\<rparr>"
      using render_store_frame [OF r] by auto
    have disk: "on_disk t3 out3 \<and> message_ok t3"
      by (rule render_store_disk [OF r]) (simp add: message_ok_def t2_def)
    obtain subs where t': "t' = t3\<lparr>t_subscribers := subs\<rparr>" using publish_frame [OF p(1)] by blast
    have "list_all (current P t') (t_subscribers t')" using p(1) by (rule publish_current)
    moreover have "composed_ok P t'" using ok2 by (simp add: composed_ok_def t' t3)
    moreover have "on_disk t' out'" "message_ok t'"
      using disk by (simp_all add: on_disk_def message_ok_def t' p(2))
    moreover have "clients_ok t'" using cl by (simp add: clients_ok_def t' t3 t2_def)
    moreover have "later 1 (t, out) (t', out')"
      using render_store_frame [OF r] events
      by (intro later_next) (simp_all add: t' t3 t2_def t p(2))
    ultimately show ?thesis by (simp add: kept_by_def well_def) (simp add: t' t3 t2_def t)
  qed
qed

lemma refresh_kept:
  assumes well: "well P (t, out)" and run: "refresh P rd (t, out) = Some (t', out')"
  shows "kept_by P t out t' out'"
proof (cases "load (rd_registry rd)")
  case (Inl e)
  then have "t' = degrade (''keeping previous configuration: '' @ io_text e) t" "out' = out"
    using run by (simp_all add: refresh_def)
  then show ?thesis using degrade_kept [OF well refl refl refl refl refl] by simp
next
  case (Inr fresh)
  obtain control where control: "(if fresh \<noteq> t_config t then control_new (p_security P) (g_control_security fresh)
      else Some (t_control t)) = Some control"
    using run Inr by (auto simp: refresh_def Let_def split: option.splits)
  define t1 where "t1 = t\<lparr>t_control := control, t_config := fresh, t_bundle_stamp := stamp (rd_meta rd)\<rparr>"
  have t: "t_composed t1 = t_composed t" "t_generation t1 = t_generation t" "t_health t1 = t_health t"
    "t_subscribers t1 = t_subscribers t" "t_clients t1 = t_clients t" "t_rendered t1 = t_rendered t"
    "t_composed_once t1 = t_composed_once t" "t_config t1 = fresh"
    by (simp_all add: t1_def)
  have run': "(case rd_bundle rd of
      Inl e \<Rightarrow> Some (degrade (''cannot read '' @ SHARE_BUNDLE @ '': '' @ io_text e) t1, out)
    | Inr shipped \<Rightarrow>
        (case compose (p_lib P) shipped (g_additions (t_config t1)) (g_distrust (t_config t1)) (rd_now rd) of
           Inl e \<Rightarrow> Some (degrade e t1, out)
         | Inr composed \<Rightarrow> adopt P rd (fresh \<noteq> t_config t) composed (t1, out))) = Some (t', out')"
    using run Inr control unfolding refresh_def t1_def Let_def by simp
  note degraded = degrade_kept [OF well t(1,2,4,5,7)]
  show ?thesis
  proof (cases "rd_bundle rd")
    case (Inl e)
    then show ?thesis using run' degraded by auto
  next
    case (Inr shipped)
    note shipped_text = this
    show ?thesis
    proof (cases "compose (p_lib P) shipped (g_additions (t_config t1)) (g_distrust (t_config t1)) (rd_now rd)")
      case (Inl e)
      then show ?thesis using run' shipped_text degraded by auto
    next
      case (Inr composed)
      then have "adopt P rd (fresh \<noteq> t_config t) composed (t1, out) = Some (t', out')"
        using run' shipped_text by simp
      then show ?thesis by (intro adopt_kept [OF well Inr t(1-7)]) (simp_all add: t(8))
    qed
  qed
qed

section \<open>A turn keeps the invariant\<close>

text \<open>Changing the clients only.\<close>

lemma well_clients:
  assumes "well P (t, out)" and "clients_ok (t\<lparr>t_clients := cs\<rparr>)"
  shows "well P (t\<lparr>t_clients := cs\<rparr>, out) \<and> later 0 (t, out) (t\<lparr>t_clients := cs\<rparr>, out)"
proof -
  have c: "current P (t\<lparr>t_clients := cs\<rparr>) = current P t" by (rule current_cong) simp_all
  show ?thesis
    using assms by (auto simp: well_def c composed_ok_def on_disk_def message_ok_def intro: later_same)
qed

lemma handle_kept:
  assumes well: "well P (t, out)" and run: "handle P rd s request (t, out) = Some ((t', out'), left)"
  shows "well P (t', out') \<and> later 1 (t, out) (t', out')"
proof (cases "permits (p_security P) (t_control t) (st_conn s) (required_right request)")
  case False
  then show ?thesis using run well later_mono [OF later_refl] by (auto simp: handle_def)
next
  case True
  show ?thesis
  proof (cases request)
    case (ReqSubscribe der)
    then obtain ok s' where s': "send_roots_to P (t_generation t) (trustd_roots t der None) s = Some (ok, s')"
      and left: "(if ok then ((t\<lparr>t_subscribers := t_subscribers t @ [(s', der)]\<rparr>, out), None) else ((t, out), Some s'))
        = ((t', out'), left)"
      using run True by (auto simp: handle_def)
    show ?thesis
    proof (cases ok)
      case True
      let ?t = "t\<lparr>t_subscribers := t_subscribers t @ [(s', der)]\<rparr>"
      have c: "current P ?t = current P t" by (rule current_cong) simp_all
      have "current P t (s', der)"
        using send_roots_to_True s' True by (fastforce simp: current_def)
      then have "well P (?t, out)"
        using well by (auto simp: well_def c composed_ok_def on_disk_def message_ok_def clients_ok_def)
      moreover have "later 1 (t, out) (?t, out)" by (rule later_mono, rule later_same) simp_all
      ultimately show ?thesis using left True by auto
    qed (use left well later_mono [OF later_refl] in auto)
  next
    case ReqReload
    then obtain t1 out1 where r: "refresh P rd (t, out) = Some (t1, out1)"
      using run True by (auto simp: handle_def split: option.splits)
    then have "t' = t1" "out' = out1" using run True ReqReload by (auto simp: handle_def)
    then show ?thesis using refresh_kept [OF well r] by (simp add: kept_by_def)
  qed (use run True well later_mono [OF later_refl] in \<open>auto simp: handle_def\<close>)
qed

lemma delete_clients:
  assumes "clients_ok t"
  shows "clients_ok (t\<lparr>t_clients := AList.delete ident (t_clients t)\<rparr>)"
proof -
  have "set (AList.delete ident (t_clients t)) \<subseteq> set (t_clients t)"
    by (simp add: AList.delete_eq)
  moreover have "length (AList.delete ident (t_clients t)) \<le> length (t_clients t)"
    by (simp add: AList.delete_eq)
  ultimately show ?thesis using assms by (auto simp: clients_ok_def)
qed

lemma update_set: "set (AList.update k v al) \<subseteq> insert (k, v) (set al)"
  by (induction al) auto

lemma update_length: "length (AList.update k v al) = (if k \<in> fst ` set al then length al else Suc (length al))"
  by (induction al) auto

lemma update_clients:
  assumes "clients_ok t" and "map_of (t_clients t) ident \<noteq> None \<or> length (t_clients t) < MAX_CLIENTS"
    and "length (cl_buf c) \<le> 4 + MAX_MESSAGE_BYTES"
  shows "clients_ok (t\<lparr>t_clients := AList.update ident c (t_clients t)\<rparr>)"
proof -
  have "length (AList.update ident c (t_clients t)) \<le> MAX_CLIENTS"
    using assms(1,2) by (auto simp: update_length clients_ok_def map_of_eq_None_iff)
  moreover have "length (cl_buf c') \<le> 4 + MAX_MESSAGE_BYTES"
    if "c' \<in> snd ` set (AList.update ident c (t_clients t))" for c'
    using that update_set [of ident c "t_clients t"] assms(1,3) by (auto simp: clients_ok_def)
  ultimately show ?thesis by (simp add: clients_ok_def)
qed

lemma client_step_kept:
  assumes well: "well P (t, out)" and run: "client_step P ready (t, out) = Some (t', out')"
  shows "well P (t', out') \<and> later 1 (t, out) (t', out')"
proof -
  obtain ident results rd where ready: "ready = (ident, results, rd)" by (metis prod_cases3)
  show ?thesis
  proof (cases "map_of (t_clients t) ident")
    case None
    then show ?thesis using run well later_mono [OF later_refl] by (simp add: client_step_def ready)
  next
    case (Some c)
    obtain progress buf reply where cr:
      "client_read (p_msgpack P) (p_describe P) (cl_buf c) results = (progress, buf, reply)"
      by (metis prod_cases3)
    obtain s where s: "(case progress of
        Incomplete \<Rightarrow> Some (t\<lparr>t_clients := AList.update ident (c\<lparr>cl_stream := s, cl_buf := buf\<rparr>) (t_clients t)\<rparr>, out)
      | Closed \<Rightarrow> Some (t\<lparr>t_clients := AList.delete ident (t_clients t)\<rparr>, out)
      | ProgressRequest request \<Rightarrow>
          map_option fst (handle P rd s request (t\<lparr>t_clients := AList.delete ident (t_clients t)\<rparr>, out)))
      = Some (t', out')"
      using run by (simp add: client_step_def ready Some cr split: option.splits)
    have cl: "clients_ok t" using well by (simp add: well_def)
    note deleted = well_clients [OF well delete_clients [OF cl, of ident]]
    show ?thesis
    proof (cases progress)
      case Incomplete
      have "c \<in> snd ` set (t_clients t)" using Some by (force dest: map_of_SomeD)
      then have "length (cl_buf c) \<le> 4 + MAX_MESSAGE_BYTES" using cl unfolding clients_ok_def by blast
      with cr [unfolded Incomplete] have "length buf \<le> 4 + MAX_MESSAGE_BYTES" by (simp add: client_read_within)
      then have "clients_ok (t\<lparr>t_clients := AList.update ident (c\<lparr>cl_stream := s, cl_buf := buf\<rparr>) (t_clients t)\<rparr>)"
        using Some by (intro update_clients [OF cl]) simp_all
      from well_clients [OF well this] show ?thesis using s Incomplete later_mono [of 0] by auto
    next
      case Closed
      then show ?thesis using s deleted later_mono [of 0] by auto
    next
      case (ProgressRequest request)
      then obtain left where "handle P rd s request (t\<lparr>t_clients := AList.delete ident (t_clients t)\<rparr>, out)
          = Some ((t', out'), left)"
        using s by auto
      from handle_kept [OF conjunct1 [OF deleted] this] show ?thesis
        using deleted later_trans [of 0 _ _ 1] by auto
    qed
  qed
qed

lemma client_steps_kept:
  assumes "well P d" and "client_steps P ready d = Some d'"
  shows "well P d' \<and> later (length ready) d d'"
  using assms
proof (induction ready arbitrary: d)
  case (Cons r ready)
  obtain d1 where d1: "client_step P r d = Some d1" "client_steps P ready d1 = Some d'"
    using Cons.prems(2) by (auto split: option.splits)
  have "well P d1 \<and> later 1 d d1"
    using client_step_kept Cons.prems(1) d1(1) by (cases d; cases d1) blast
  moreover from this have "well P d' \<and> later (length ready) d1 d'" using Cons.IH [OF _ d1(2)] by blast
  ultimately have "well P d' \<and> later (1 + length ready) d d'" using later_trans by blast
  then show ?case by simp
qed simp

lemma accept_one_kept:
  assumes "well P (t, out)" and "length (t_clients t) < MAX_CLIENTS"
    and t2: "t2 = t\<lparr>t_next_id := ident, t_clients := AList.update ident
      \<lparr>cl_stream = stream, cl_buf = [], cl_since = now\<rparr> (t_clients t)\<rparr>"
  shows "well P (t2, out) \<and> later 0 (t, out) (t2, out)"
proof -
  let ?t1 = "t\<lparr>t_next_id := ident\<rparr>"
  have c: "current P ?t1 = current P t" by (rule current_cong) simp_all
  have w1: "well P (?t1, out)"
    using assms(1) by (auto simp: well_def c composed_ok_def on_disk_def message_ok_def clients_ok_def)
  have l1: "later 0 (t, out) (?t1, out)" by (rule later_same) simp_all
  have "clients_ok ?t1" using w1 by (simp add: well_def)
  from update_clients [OF this, of ident "\<lparr>cl_stream = stream, cl_buf = [], cl_since = now\<rparr>"]
  have "clients_ok (?t1\<lparr>t_clients := AList.update ident
      \<lparr>cl_stream = stream, cl_buf = [], cl_since = now\<rparr> (t_clients t)\<rparr>)"
    using assms(2) by simp
  from well_clients [OF w1 this] show ?thesis using l1 later_trans [of 0 _ _ 0] by (auto simp: t2)
qed

lemma accept_loop_kept:
  assumes "well P (t, out)"
  shows "well P (accept_loop now results t, out) \<and> later 0 (t, out) (accept_loop now results t, out)"
  using assms
proof (induction results arbitrary: t)
  case Nil
  then show ?case by simp
next
  case (Cons result results)
  show ?case
  proof (cases result)
    case (Accepted stream nonblocking)
    show ?thesis
    proof (cases "MAX_CLIENTS \<le> length (t_clients t) \<or> \<not> nonblocking")
      case True
      then show ?thesis using Cons.IH [OF Cons.prems] Accepted by auto
    next
      case False
      define t2 where "t2 = t\<lparr>t_next_id := t_next_id t + 1, t_clients := AList.update (t_next_id t + 1)
        \<lparr>cl_stream = stream, cl_buf = [], cl_since = now\<rparr> (t_clients t)\<rparr>"
      have step: "accept_loop now (result # results) t = accept_loop now results t2"
        using False by (simp add: Accepted fresh_id_def Let_def t2_def)
      have kept: "well P (t2, out) \<and> later 0 (t, out) (t2, out)"
        using Cons.prems False by (intro accept_one_kept [OF _ _ t2_def]) auto
      have "well P (accept_loop now results t2, out) \<and> later 0 (t2, out) (accept_loop now results t2, out)"
        using kept by (intro Cons.IH) simp
      then show ?thesis unfolding step using kept later_trans [of 0 _ _ 0] by auto
    qed
  qed (use Cons.prems in simp_all)
qed

lemma remove_slots_subset: "remove_slots slots xs = Some ys \<Longrightarrow> set ys \<subseteq> set xs"
proof (induction slots xs rule: remove_slots.induct)
  case (2 i slots xs)
  have "set (take i xs @ drop (Suc i) xs) \<subseteq> set xs" by (auto dest: in_set_takeD in_set_dropD)
  then show ?case using 2 by (auto split: if_splits)
qed simp

lemma subscribers_kept:
  assumes "well P (t, out)" and "set subs \<subseteq> set (t_subscribers t)"
  shows "well P (t\<lparr>t_subscribers := subs\<rparr>, out) \<and> later 0 (t, out) (t\<lparr>t_subscribers := subs\<rparr>, out)"
proof -
  have c: "current P (t\<lparr>t_subscribers := subs\<rparr>) = current P t" by (rule current_cong) simp_all
  have "list_all (current P t) subs" using assms by (auto simp: well_def list_all_iff)
  then show ?thesis
    using assms(1) by (auto simp: well_def c composed_ok_def on_disk_def message_ok_def clients_ok_def intro: later_same)
qed

lemma expire_kept:
  assumes "well P (t, out)"
  shows "well P (expire now t, out) \<and> later 0 (t, out) (expire now t, out)"
proof -
  have "clients_ok (t\<lparr>t_clients := filter (\<lambda>(_, c). now - cl_since c < CLIENT_TIMEOUT) (t_clients t)\<rparr>)"
    using assms by (auto simp: well_def clients_ok_def intro: order.trans [OF length_filter_le])
  from well_clients [OF assms this] show ?thesis by (simp add: expire_def)
qed

text \<open>A turn refreshes at most once for each client and once at its end.\<close>

definition refreshes where
  "refreshes i = length (i_ready i) + 1"

lemma turn_kept:
  assumes well: "well P (d_trustd m, d_outside m)" and run: "turn P i m = Running m'"
  shows "well P (d_trustd m', d_outside m') \<and>
    later (refreshes i) (d_trustd m, d_outside m) (d_trustd m', d_outside m')"
proof (cases "i_poll i")
  case PollInterrupted
  then show ?thesis using run well later_mono [OF later_refl] by (simp add: turn_def)
next
  case PollFailed
  then show ?thesis using run by (simp add: turn_def)
next
  case PollReady
  define t1 where "t1 = (case i_accepts i of
    None \<Rightarrow> d_trustd m | Some results \<Rightarrow> accept_loop (i_now i) results (d_trustd m))"
  have 1: "well P (t1, d_outside m) \<and> later 0 (d_trustd m, d_outside m) (t1, d_outside m)"
    using well accept_loop_kept [OF well] by (simp add: t1_def split: option.split)
  obtain t2 out2 where 2: "client_steps P (i_ready i) (t1, d_outside m) = Some (t2, out2)"
    using run by (auto simp: turn_def PollReady t1_def [symmetric] Let_def split: option.splits)
  obtain subs where 3: "remove_slots (rev (i_closed i)) (t_subscribers t2) = Some subs"
    using run 2 by (auto simp: turn_def PollReady t1_def [symmetric] Let_def split: option.splits)
  define t3 where "t3 = t2\<lparr>t_subscribers := subs\<rparr>"
  have w2: "well P (t2, out2) \<and> later (length (i_ready i)) (t1, d_outside m) (t2, out2)" using client_steps_kept 1 2 by blast
  then have w3: "well P (t3, out2) \<and> later 0 (t2, out2) (t3, out2)"
    using subscribers_kept [OF conjunct1 [OF w2] remove_slots_subset [OF 3]] by (simp add: t3_def)
  obtain t4 out4 where m': "d_trustd m' = expire (i_now i) t4" "d_outside m' = out4"
    and 4: "(t4, out4) = (t3, out2) \<or> refresh P (i_readings i) (t3, out2) = Some (t4, out4)"
    using run 2 3 by (auto simp: turn_def PollReady t1_def [symmetric] t3_def [symmetric] Let_def
        split: sum.splits prod.splits if_splits option.splits)
  have w4: "well P (t4, out4) \<and> later 1 (t3, out2) (t4, out4)"
    using 4 w3 refresh_kept [of P t3 out2] later_mono [OF later_refl] by (auto simp: kept_by_def)
  then have w5: "well P (expire (i_now i) t4, out4) \<and> later 0 (t4, out4) (expire (i_now i) t4, out4)"
    using expire_kept by blast
  have "later (0 + (length (i_ready i) + (0 + (1 + 0)))) (d_trustd m, d_outside m) (expire (i_now i) t4, out4)"
    using 1 w2 w3 w4 w5 by (blast intro: later_trans)
  then show ?thesis unfolding m' using w5 by (simp add: refreshes_def)
qed

text \<open>The daemon as a machine: the invariant of a running one, and the order of two running ones.\<close>

definition sound where
  "sound P a \<longleftrightarrow> (case a of Running m \<Rightarrow> well P (d_trustd m, d_outside m) | _ \<Rightarrow> True)"

definition proceeds where
  "proceeds n a b \<longleftrightarrow>
     (case (a, b) of
        (Running m, Running m') \<Rightarrow> later n (d_trustd m, d_outside m) (d_trustd m', d_outside m')
      | (Running _, _) \<Rightarrow> True
      | _ \<Rightarrow> b = a)"

lemma sound_step: "sound P a \<Longrightarrow> sound P (daemon_step P a i)"
  using turn_kept by (cases a) (auto simp: sound_def split: after.split)

lemma proceeds_step: "sound P a \<Longrightarrow> proceeds (refreshes i) a (daemon_step P a i)"
  using turn_kept by (cases a) (auto simp: sound_def proceeds_def split: after.split)

interpretation daemon: machine "daemon_step P" "sound P" refreshes proceeds for P
proof
  show "sound P a \<Longrightarrow> sound P (daemon_step P a i)" for a i by (rule sound_step)
  show "sound P a \<Longrightarrow> proceeds 0 a a" for a by (simp add: proceeds_def split: after.split)
  show "proceeds m a b \<Longrightarrow> proceeds n b c \<Longrightarrow> proceeds (m + n) a c" for m n a b c
    by (auto simp: proceeds_def intro: later_trans split: after.splits)
  show "sound P a \<Longrightarrow> proceeds (refreshes i) a (daemon_step P a i)" for a i by (rule proceeds_step)
qed

lemma start_sound:
  fixes P :: "('r, 'e, 'sd, 'tok, 'conn) platform"
  shows "sound P (daemon_start P signal listening watching policy R rd files)"
proof -
  have "sound P (case refresh P rd (trustd_new control config policy :: ('sd, 'conn) trustd, \<lparr>o_files = files, o_events = []\<rparr>) of
      None \<Rightarrow> Panicked | Some (t, out) \<Rightarrow> Running \<lparr>d_trustd = t, d_outside = out, d_watch = watching\<rparr>)" for control config
  proof -
    have "well P (trustd_new control config policy :: ('sd, 'conn) trustd, \<lparr>o_files = files, o_events = []\<rparr>)"
      by (simp add: well_def trustd_new_def composed_ok_def on_disk_def message_ok_def clients_ok_def)
    from refresh_kept [OF this] show ?thesis by (auto simp: sound_def kept_by_def split: option.split)
  qed
  then show ?thesis by (auto simp: daemon_start_def sound_def split: sum.split option.split)
qed

text \<open>Every state a run of the daemon gets to.\<close>

lemma run_well:
  assumes "run (daemon_step P) (daemon_start P signal listening watching policy R rd files) inputs = Running m"
  shows "well P (d_trustd m, d_outside m)"
proof -
  have "sound P (run (daemon_step P) (daemon_start P signal listening watching policy R rd files) inputs)"
    by (rule daemon.inv_run [OF start_sound])
  then show ?thesis by (simp add: assms sound_def)
qed

end
