(* ===== verification/DaemonProps.thy ===== *)
theory DaemonProps
  imports DaemonInv
begin

text \<open>
  The properties of the daemon (\<open>trustd/src/main.rs\<close>) over its runs, and a small world to run it
  in.
\<close>

section \<open>A world to run in\<close>

text \<open>An encoder that takes every sequence of tokens.\<close>

definition lax :: "(bytes, string) msgpack" where
  "lax = wide\<lparr>to_bytes := (\<lambda>ts. Inr (concat (map put_tok ts)))\<rparr>"

lemma lax_encodes: "encode_reply lax reply = Some (concat (map put_tok (reply_tokens reply)))"
  "encode_request lax request = Some (concat (map put_tok (request_tokens request)))"
  by (simp_all add: encode_reply_def encode_request_def lax_def expect_def)

lemma lax_stands: "stands lax r ts = stands wide r ts"
proof (induction ts arbitrary: r)
  case (Cons t ts)
  have "reads_tok lax r t r' = reads_tok wide r t r'" for r'
    by (cases t) (simp_all add: lax_def)
  then show ?case using Cons by (simp add: lax_def)
qed simp

lemma lax_laws: "msgpack_laws lax"
  unfolding msgpack_laws_def
proof (intro allI impI)
  fix ts
  assume ts: "complete_value ts"
  have "to_bytes lax ts = Inr (concat (map put_tok ts))"
    and "reader lax (concat (map put_tok ts)) = concat (map put_tok ts)"
    by (simp_all add: lax_def wide_def)
  then show "\<exists>bytes. to_bytes lax ts = Inr bytes \<and> stands lax (reader lax bytes) ts"
    using ts wide_stands by (simp add: complete_value_def lax_stands)
qed

definition sample_platform :: "(bytes, string, unit, unit, unit) platform" where
  "sample_platform =
     \<lparr>p_msgpack = lax, p_describe = (\<lambda>_. []), p_lib = sample_lib,
      p_security = \<lparr>validated = (\<lambda>_. Some ()), default_sd = Some (), open_peer = Some,
        access_check = (\<lambda>_ _ _. Some True)\<rparr>,
      p_pid = 1\<rparr>"

text \<open>A registry without the key, and a shipped bundle with one certificate over and over.\<close>

definition empty_registry :: "unit registry" where
  "empty_registry =
     \<lparr>query_value = (\<lambda>_ _. no_such), query_values = (\<lambda>_. no_such), subkeys = (\<lambda>_. []),
      open_key = (\<lambda>_ _. no_such)\<rparr>"

definition repeated :: "byte \<Rightarrow> string" where
  "repeated d = concat (map to_pem (replicate 50 [d]))"

definition sample_readings :: "byte \<Rightarrow> (unit, string) readings" where
  "sample_readings d =
     \<lparr>rd_registry = empty_registry, rd_meta = no_such,
      rd_bundle = Inr (repeated d), rd_now = Some 5,
      rd_policy = (\<lambda>_. Inr True), rd_emit = (\<lambda>_ _. Inr ())\<rparr>"

definition root_entry :: "byte \<Rightarrow> entry" where
  "root_entry d =
     \<lparr>e_parsed = \<lparr>der = [d], fingerprint = fingerprint_of sample_lib [d], subject = ''CN=R,C=DE'',
        not_after = 1000, subject_hash_text = ''00000000''\<rparr>,
      e_source = Shipped, e_name = None, e_purposes = [SERVER_AUTH]\<rparr>"

lemma firsts_replicate: "firsts taken (replicate (Suc n) e) = (if entry_fingerprint e \<in> set taken then [] else [e])"
proof -
  have taken: "firsts taken (replicate n e) = []" if "entry_fingerprint e \<in> set taken" for n and taken :: "string list"
    using that by (induction n) simp_all
  show ?thesis using taken by simp
qed

lemma map_filter_replicate: "f x = Some y \<Longrightarrow> List.map_filter f (replicate n x) = replicate n y"
  by (induction n) (simp_all add: map_filter_simps)

lemma sample_composes:
  "\<exists>c. compose sample_lib (repeated d) [] [] now = Inr c \<and> c_roots c = [root_entry d]"
proof -
  have pem: "from_pem (repeated d) = replicate 50 [d]" unfolding repeated_def by (rule from_pem_blocks)
  obtain c where c: "compose sample_lib (repeated d) [] [] now = Inr c"
    using sample_compose_any [of "replicate 50 [d]" now] unfolding repeated_def by auto
  have e: "shipped_entry sample_lib [d] = Some (root_entry d)"
    using sample_parse [of "[d]"] by (simp add: shipped_entry_def root_entry_def)
  have "offered sample_lib (repeated d) [] now = replicate 50 (root_entry d)"
    using map_filter_replicate [where f = "shipped_entry sample_lib", OF e, of 50]
    by (simp add: offered_def pem map_filter_simps)
  then have "effective sample_lib (repeated d) [] [] now = [root_entry d]"
    using firsts_replicate [of "[]" 49 "root_entry d"] by (simp add: effective_def)
  then show ?thesis using c compose_roots [OF c] by auto
qed

lemma sample_loads: "load empty_registry = Inr config_default"
  by (simp add: load_def open_child_def optional_def empty_registry_def no_such_def load_from_def)

lemma sample_reading [simp]:
  "load (rd_registry (sample_readings d)) = Inr config_default"
  "rd_bundle (sample_readings d) = Inr (repeated d)"
  "rd_meta (sample_readings d) = no_such" "rd_now (sample_readings d) = Some 5"
  by (simp_all add: sample_readings_def sample_loads)

lemma sample_platform [simp]:
  "p_msgpack sample_platform = lax" "p_lib sample_platform = sample_lib" "p_pid sample_platform = 1"
  "permits (p_security sample_platform) sd stream right"
  "control_new (p_security sample_platform) configured = Some ()"
  by (simp_all add: sample_platform_def permits_def control_new_def split: option.split)

text \<open>The daemon before its first refresh, and after its start on the bundle of \<open>d\<close>.\<close>

definition sample_new :: "(unit, unit) trustd" where
  "sample_new = trustd_new () config_default True"

definition started :: "byte \<Rightarrow> (unit, unit) daemon \<Rightarrow> bool" where
  "started d m \<longleftrightarrow>
     c_roots (t_composed (d_trustd m)) = [root_entry d] \<and> t_generation (d_trustd m) = 1 \<and>
     t_health (d_trustd m) = HealthOk \<and> t_clients (d_trustd m) = [] \<and> t_subscribers (d_trustd m) = [] \<and>
     t_next_id (d_trustd m) = 0 \<and> t_bundle_stamp (d_trustd m) = None \<and>
     t_config (d_trustd m) = config_default \<and> t_composed_once (d_trustd m)"

lemma sample_starts:
  "\<exists>m. daemon_start sample_platform True True True True empty_registry (sample_readings d) fresh_world = Running m \<and>
     started d m"
proof -
  obtain c where c: "compose sample_lib (repeated d) [] [] (Some 5) = Inr c"
    "c_roots c = [root_entry d]"
    using sample_composes by blast
  obtain paths w where r: "render 1 STORE_DIR c CompatFiles fresh_world = (Inr paths, w)"
    using succeeds_render [OF fresh_orderly(2) fresh_orderly(1), of CompatFiles 1 STORE_DIR c]
    by (auto simp: succeeds_def)
  have roots: "c_roots composed_default = []" by (simp add: composed_default_def)
  have g: "g_compat config_default = CompatFiles" "g_additions config_default = []" "g_distrust config_default = []"
    by (simp_all add: config_default_def)
  show ?thesis
    unfolding daemon_start_def refresh_def adopt_def render_store_def publish_def trustd_new_def Let_def started_def
    by (simp add: sample_loads c roots g r [unfolded One_nat_def] stamp_def no_such_def)
qed

text \<open>A stream that takes one frame, and one that is gone after it.\<close>

lemma send_one:
  assumes "0 < deadline" and "length payload < 2 ^ 32" and "encode_reply M (ReplyRoots g [r] False) = Some payload"
  shows "send_roots M deadline g [r] \<lparr>sent = out, future = (0, Wrote (4 + length payload)) # rest\<rparr> =
    Some (True, \<lparr>sent = out @ frame_of payload, future = rest\<rparr>)"
proof -
  have "chunks ROOTS_PER_CHUNK [r] = [[r]]" by (simp add: ROOTS_PER_CHUNK_def chunks_step)
  moreover have "le_bytes 4 (length payload) \<noteq> []"
    by (metis length_le_bytes list.size(3) zero_neq_numeral)
  ultimately show ?thesis
    using assms
    by (cases rest) (auto simp: send_roots_def respond_def write_message_def write_frame_def frame_of_def)
qed

lemma send_gone:
  assumes "length payload < 2 ^ 32" and "encode_reply M (ReplyRoots g [r] False) = Some payload"
  shows "\<exists>peer'. send_roots M deadline g [r] \<lparr>sent = out, future = [(0, WriteErr OtherKind)]\<rparr> = Some (False, peer')"
proof -
  have "chunks ROOTS_PER_CHUNK [r] = [[r]]" by (simp add: ROOTS_PER_CHUNK_def chunks_step)
  moreover have "le_bytes 4 (length payload) \<noteq> []"
    by (metis length_le_bytes list.size(3) zero_neq_numeral)
  ultimately show ?thesis
    using assms by (simp add: send_roots_def respond_def write_message_def write_frame_def)
qed

text \<open>The one chunk of a daemon with one root.\<close>

definition snapshot_payload :: "u64 \<Rightarrow> byte \<Rightarrow> bytes" where
  "snapshot_payload g d = concat (map put_tok (reply_tokens (ReplyRoots g [wire_root True (root_entry d)] False)))"

lemma snapshot_payload_length: "length (snapshot_payload g d) < 2 ^ 32"
proof -
  have "length (fingerprint_of sample_lib [d]) = 64" by (simp add: length_fingerprint_of sample_lib_def)
  then show ?thesis
    by (simp add: snapshot_payload_def root_tokens_def wire_root_def root_entry_def write_str_list_def
        write_opt_str_def SERVER_AUTH_def)
qed

lemma snapshot_encodes:
  "encode_reply lax (ReplyRoots g [wire_root True (root_entry d)] False) = Some (snapshot_payload g d)"
  by (simp add: lax_encodes(1) snapshot_payload_def)

definition subscribe_frame :: bytes where
  "subscribe_frame = frame_of (concat (map put_tok (request_tokens (ReqSubscribe True))))"

definition reload_frame :: bytes where
  "reload_frame = frame_of (concat (map put_tok (request_tokens ReqReload)))"

lemma lax_reads:
  assumes "request_ok request" and "length (concat (map put_tok (request_tokens request))) \<le> MAX_MESSAGE_BYTES"
  shows "client_read lax show_error [] [Got (frame_of (concat (map put_tok (request_tokens request))))] =
    (ProgressRequest request, frame_of (concat (map put_tok (request_tokens request))), None)"
proof -
  let ?payload = "concat (map put_tok (request_tokens request))"
  have "decode_request lax ?payload = Inr request"
    using request_codec [OF lax_laws assms(1)] by (simp add: lax_encodes(2))
  moreover have "frame_of ?payload \<noteq> []"
    by (metis append_is_Nil_conv frame_of_def length_le_bytes list.size(3) zero_neq_numeral)
  ultimately show ?thesis
    using client_read_pieces [of lax ?payload request "[frame_of ?payload]" "length (frame_of ?payload)"] assms(2)
    by simp
qed

lemma sample_requests:
  "client_read lax show_error [] [Got subscribe_frame] = (ProgressRequest (ReqSubscribe True), subscribe_frame, None)"
  "client_read lax show_error [] [Got reload_frame] = (ProgressRequest ReqReload, reload_frame, None)"
proof -
  have "length (concat (map put_tok (request_tokens (ReqSubscribe True)))) \<le> MAX_MESSAGE_BYTES"
    "length (concat (map put_tok (request_tokens ReqReload))) \<le> MAX_MESSAGE_BYTES"
    by (simp_all add: MAX_MESSAGE_BYTES_def)
  then show "client_read lax show_error [] [Got subscribe_frame] = (ProgressRequest (ReqSubscribe True), subscribe_frame, None)"
    "client_read lax show_error [] [Got reload_frame] = (ProgressRequest ReqReload, reload_frame, None)"
    using lax_reads [of "ReqSubscribe True"] lax_reads [of ReqReload]
    by (simp_all add: subscribe_frame_def reload_frame_def)
qed

text \<open>Two connections: the first takes one snapshot and is then gone.\<close>

definition leaving :: "unit stream" where
  "leaving = \<lparr>st_conn = (), st_peer = \<lparr>sent = [], future =
     [(0, Wrote (4 + length (snapshot_payload 1 1))), (0, WriteErr OtherKind)]\<rparr>, st_clock = []\<rparr>"

definition asking :: "unit stream" where
  "asking = \<lparr>st_conn = (), st_peer = \<lparr>sent = [], future = []\<rparr>, st_clock = []\<rparr>"

definition subscribed :: "unit stream" where
  "subscribed = \<lparr>st_conn = (), st_peer = \<lparr>sent = frame_of (snapshot_payload 1 1), future = [(0, WriteErr OtherKind)]\<rparr>,
     st_clock = []\<rparr>"

definition quiet_turn :: "(unit, string, unit) turn_input" where
  "quiet_turn = \<lparr>i_poll = PollReady, i_now = 0, i_accepts = None, i_ready = [], i_closed = [], i_signal = None,
     i_watch = None, i_meta = no_such, i_readings = sample_readings 1\<rparr>"

lemma subscribe_sends: "send_roots_to sample_platform 1 [wire_root True (root_entry 1)] leaving = Some (True, subscribed)"
  using send_one [OF _ snapshot_payload_length snapshot_encodes, of WRITE_TIMEOUT 1 1 "[]" "[(0, WriteErr OtherKind)]"]
  by (simp add: send_roots_to_def send_with_def leaving_def subscribed_def WRITE_TIMEOUT_def)

lemma publish_drops: "\<exists>s. send_roots_to sample_platform 2 [wire_root True (root_entry 2)] subscribed = Some (False, s)"
proof -
  obtain peer' where "send_roots lax WRITE_TIMEOUT 2 [wire_root True (root_entry 2)]
      \<lparr>sent = frame_of (snapshot_payload 1 1), future = [(0, WriteErr OtherKind)]\<rparr> = Some (False, peer')"
    using send_gone [OF snapshot_payload_length snapshot_encodes] by blast
  then show ?thesis by (simp add: send_roots_to_def send_with_def subscribed_def)
qed

text \<open>A reload that publishes to the subscriber that is gone.\<close>

lemma root_entry_inj: "root_entry 1 \<noteq> root_entry 2"
  by (simp add: root_entry_def)

lemma adopt_changed:
  assumes "c_roots composed \<noteq> c_roots (t_composed t)"
  shows "\<exists>out1. adopt P rd changed composed (t, out) =
    (case render_store P (t\<lparr>t_composed_once := True, t_composed := composed, t_health := HealthOk,
        t_message := None, t_generation := t_generation t + 1\<rparr>, out1) of
      (t, out) \<Rightarrow> map_option (\<lambda>t. (t, out)) (publish P t))"
  using assms by (auto simp: adopt_def Let_def)

lemma reload_drops:
  assumes t: "c_roots (t_composed t) = [root_entry 1]" "t_generation t = 1" "t_config t = config_default"
    "t_subscribers t = [(subscribed, True)]"
  shows "\<exists>t' out'. refresh sample_platform (sample_readings 2) (t, out) = Some (t', out') \<and> t_subscribers t' = []"
proof -
  obtain c where c: "compose sample_lib (repeated 2) [] [] (Some 5) = Inr c" "c_roots c = [root_entry 2]"
    using sample_composes by blast
  have g: "g_additions config_default = []" "g_distrust config_default = []" by (simp_all add: config_default_def)
  define t1 where "t1 = t\<lparr>t_control := t_control t, t_config := config_default, t_bundle_stamp := stamp no_such\<rparr>"
  have "c_roots c \<noteq> c_roots (t_composed t1)" using c(2) t(1) root_entry_inj by (simp add: t1_def)
  then obtain out1 where a: "adopt sample_platform (sample_readings 2) False c (t1, out) =
      (case render_store sample_platform (t1\<lparr>t_composed_once := True, t_composed := c, t_health := HealthOk,
          t_message := None, t_generation := t_generation t1 + 1\<rparr>, out1) of
        (t, out) \<Rightarrow> map_option (\<lambda>t. (t, out)) (publish sample_platform t))"
    using adopt_changed by blast
  define t2 where "t2 = t1\<lparr>t_composed_once := True, t_composed := c, t_health := HealthOk, t_message := None,
    t_generation := 2\<rparr>"
  obtain t3 out3 where r: "render_store sample_platform (t2, out1) = (t3, out3)" by fastforce
  obtain rendered health message where t3:
    "t3 = t2\<lparr>t_rendered := rendered, t_health := health, t_message := message\<rparr>"
    using render_store_frame [OF r] by auto
  have "trustd_roots t3 True None = [wire_root True (root_entry 2)]"
    by (simp add: trustd_roots_def t3 t2_def c)
  then have p: "publish sample_platform t3 = Some (t3\<lparr>t_subscribers := []\<rparr>)"
    using publish_drops by (auto simp: publish_def t3 t2_def t1_def t)
  have "refresh sample_platform (sample_readings 2) (t, out) =
      adopt sample_platform (sample_readings 2) False c (t1, out)"
    by (simp add: refresh_def t g c t1_def)
  also have "\<dots> = Some (t3\<lparr>t_subscribers := []\<rparr>, out3)"
  proof -
    have "t1\<lparr>t_composed_once := True, t_composed := c, t_health := HealthOk,
        t_message := None, t_generation := t_generation t1 + 1\<rparr> = t2" by (simp add: t2_def t1_def t)
    then show ?thesis unfolding a using r p by simp
  qed
  finally show ?thesis by auto
qed

definition waiting :: "unit stream \<Rightarrow> unit client" where
  "waiting s = \<lparr>cl_stream = s, cl_buf = [], cl_since = 0\<rparr>"

text \<open>The three turns.\<close>

definition turn_accept :: "(unit, string, unit) turn_input" where
  "turn_accept = quiet_turn\<lparr>i_accepts := Some [Accepted leaving True, Accepted asking True]\<rparr>"

definition turn_subscribe :: "(unit, string, unit) turn_input" where
  "turn_subscribe = quiet_turn\<lparr>i_ready := [(1, [Got subscribe_frame], sample_readings 1)]\<rparr>"

definition turn_reload :: "(unit, string, unit) turn_input" where
  "turn_reload = quiet_turn\<lparr>i_ready := [(2, [Got reload_frame], sample_readings 2)], i_closed := [0]\<rparr>"

lemma quiet_watch: "watch_step armed None = (False, armed)"
  by (simp add: watch_step_def)

lemma turn_accept_result:
  assumes "started 1 m"
  shows "daemon_step sample_platform (Running m) turn_accept = Running (m\<lparr>d_trustd := (d_trustd m)\<lparr>t_next_id := 2,
    t_clients := [(1, waiting leaving), (2, waiting asking)]\<rparr>\<rparr>)"
  using assms
  by (simp add: turn_def turn_accept_def quiet_turn_def started_def MAX_CLIENTS_def fresh_id_def Let_def
      quiet_watch stamp_def no_such_def expire_def waiting_def CLIENT_TIMEOUT_def)

lemma turn_subscribe_result:
  assumes "started 1 m"
  shows "daemon_step sample_platform
      (Running (m\<lparr>d_trustd := (d_trustd m)\<lparr>t_next_id := 2,
        t_clients := [(1, waiting leaving), (2, waiting asking)]\<rparr>\<rparr>)) turn_subscribe =
    Running (m\<lparr>d_trustd := (d_trustd m)\<lparr>t_next_id := 2, t_clients := [(2, waiting asking)],
      t_subscribers := [(subscribed, True)]\<rparr>\<rparr>)"
proof -
  have roots: "trustd_roots t True None = [wire_root True (root_entry 1)]"
    if "c_roots (t_composed t) = [root_entry 1]" for t :: "(unit, unit) trustd"
    using that by (simp add: trustd_roots_def)
  show ?thesis
    using assms
    by (simp add: turn_def turn_subscribe_def quiet_turn_def started_def Let_def client_step_def handle_def
        sample_requests(1) roots subscribe_sends waiting_def quiet_watch stamp_def no_such_def expire_def
        CLIENT_TIMEOUT_def)
qed

text \<open>The run of the witnesses: a start, two connections, one subscription.\<close>

definition sample_start :: "(unit, unit) daemon after" where
  "sample_start = daemon_start sample_platform True True True True empty_registry (sample_readings 1) fresh_world"

definition with_subscriber :: "(unit, unit) daemon \<Rightarrow> (unit, unit) daemon" where
  "with_subscriber m = m\<lparr>d_trustd := (d_trustd m)\<lparr>t_next_id := 2, t_clients := [(2, waiting asking)],
     t_subscribers := [(subscribed, True)]\<rparr>\<rparr>"

lemma sample_run:
  obtains m where "sample_start = Running m" and "started 1 m"
    and "run (daemon_step sample_platform) sample_start [turn_accept, turn_subscribe] = Running (with_subscriber m)"
proof -
  obtain m where m: "sample_start = Running m" "started 1 m"
    using sample_starts [of 1] by (auto simp: sample_start_def)
  have two: "run (daemon_step sample_platform) sample_start [turn_accept, turn_subscribe] = Running (with_subscriber m)"
    unfolding m(1) run_Cons turn_accept_result [OF m(2)] turn_subscribe_result [OF m(2)]
    by (simp add: with_subscriber_def)
  then show thesis using that m two by simp
qed

section \<open>A slot past the end\<close>

lemma remove_slots_within: "remove_slots slots xs = Some ys \<Longrightarrow> slot \<in> set slots \<Longrightarrow> slot < length xs"
  by (induction slots xs rule: remove_slots.induct) (fastforce split: if_splits)+

lemma reload_past_end:
  assumes "i_poll i = PollReady" and "i_accepts i = None" and "i_ready i = [(ident, results, rd)]"
    and "map_of (t_clients (d_trustd m)) ident = Some client"
    and "client_read (p_msgpack P) (p_describe P) (cl_buf client) results = (ProgressRequest ReqReload, buf, None)"
    and "permits (p_security P) (t_control (d_trustd m)) (st_conn (cl_stream client)) TRUST_CONTROL"
    and "refresh P rd ((d_trustd m)\<lparr>t_clients := AList.delete ident (t_clients (d_trustd m))\<rparr>, d_outside m) =
      Some (t', out')"
    and "slot \<in> set (i_closed i)" and "length (t_subscribers t') \<le> slot"
  shows "daemon_step P (Running m) i = Panicked"
proof -
  have "client_steps P (i_ready i) (d_trustd m, d_outside m) \<in> {None, Some (t', out')}"
    using assms(4-7) by (auto simp: assms(3) client_step_def handle_def split: option.split)
  moreover have "remove_slots (rev (i_closed i)) (t_subscribers t') = None"
    using remove_slots_within [of "rev (i_closed i)" "t_subscribers t'" _ slot] assms(8,9) by fastforce
  ultimately show ?thesis by (auto simp: turn_def assms(1,2) Let_def)
qed

section \<open>What is served: lemmas\<close>

lemma effective_vetted:
  assumes "e \<in> set (effective L pem additions distrust now)"
  shows "\<exists>now. parse L (der (e_parsed e)) now = Inr (e_parsed e)"
proof -
  have "e \<in> set (offered L pem additions now)"
    using assms firsts_subset unfolding effective_set by blast
  then obtain d now' where "parse L d now' = Inr (e_parsed e)"
    unfolding offered_def set_append map_filter_set
    using shipped_entry_facts addition_entry_facts by blast
  then show ?thesis using parse_fields(1) by metis
qed

lemma roots_fingerprints: "map r_fingerprint (trustd_roots t with_der None) = map entry_fingerprint (c_roots (t_composed t))"
  by (simp add: trustd_roots_def wire_root_def comp_def)

text \<open>The three ways a refresh fails before it has a composition.\<close>

definition cannot_refresh where
  "cannot_refresh P rd \<longleftrightarrow>
     (case load (rd_registry rd) of
        Inl _ \<Rightarrow> True
      | Inr config \<Rightarrow>
          (case rd_bundle rd of
             Inl _ \<Rightarrow> True
           | Inr shipped \<Rightarrow>
               (\<exists>e. compose (p_lib P) shipped (g_additions config) (g_distrust config) (rd_now rd) = Inl e)))"

text \<open>After any refresh the message is there exactly when the health is degraded.\<close>

lemma adopt_message:
  assumes "adopt P rd changed composed (t, out) = Some (t', out')"
  shows "message_ok t'"
proof (cases "c_roots composed = c_roots (t_composed t) \<and> t_health t = HealthOk \<and> \<not> changed")
  case True
  then show ?thesis using assms by (auto simp: adopt_def Let_def message_ok_def split: if_splits)
next
  case False
  define t2 where "t2 = t\<lparr>t_composed_once := True, t_composed := composed, t_health := HealthOk, t_message := None,
    t_generation := t_generation t + 1\<rparr>"
  obtain out1 where a: "(case render_store P (t2, out1) of
      (t, out) \<Rightarrow> map_option (\<lambda>t. (t, out)) (publish P t)) = Some (t', out')"
    using assms False by (auto simp: adopt_def Let_def t2_def)
  obtain t3 out3 where r: "render_store P (t2, out1) = (t3, out3)" by fastforce
  have "message_ok t3"
    using render_store_disk [OF r] by (simp add: message_ok_def t2_def)
  then show ?thesis using a r by (auto simp: message_ok_def dest!: publish_frame)
qed

lemma refresh_message:
  assumes "refresh P rd (t, out) = Some (t', out')"
  shows "message_ok t'"
  using assms
  by (auto simp: refresh_def Let_def degrade_def message_ok_def split: sum.splits option.splits
      dest!: adopt_message [unfolded message_ok_def])

text \<open>What a refresh that composes does to the record of events.\<close>

lemma adopt_events:
  assumes "adopt P rd changed composed (t, out) = Some (t', out')" and "t_composed_once t"
  shows "t_composed t' = composed \<and> o_events out' = o_events out @ fst (record_changes (p_msgpack P) (p_lib P)
    (if t_events t then Some (rd_policy rd) else None) (rd_emit rd)
    (changes (c_roots (t_composed t)) (c_roots composed) (g_distrust (t_config t))))"
  using assms
  by (auto simp: adopt_def Let_def dest!: publish_frame render_store_frame split: if_splits prod.splits)

text \<open>The new configuration needs the compiled default descriptor, and that does not build.\<close>

definition control_fails where
  "control_fails P rd t \<longleftrightarrow> (\<exists>config. load (rd_registry rd) = Inr config \<and> config \<noteq> t_config t \<and>
     control_new (p_security P) (g_control_security config) = None)"

text \<open>With no subscriber there is nothing else to panic on.\<close>

lemma adopt_returns: "t_subscribers t = [] \<Longrightarrow> \<exists>d. adopt P rd changed composed (t, out) = Some d"
  by (auto simp: adopt_def Let_def publish_def render_store_def split: sum.split prod.split)

lemma refresh_returns:
  assumes "t_subscribers t = []"
  shows "(\<exists>t' out'. refresh P rd (t, out) = Some (t', out')) \<longleftrightarrow> \<not> control_fails P rd t"
proof -
  show ?thesis
  proof (cases "load (rd_registry rd)")
    case (Inr config)
    show ?thesis
    proof (cases "if config \<noteq> t_config t then control_new (p_security P) (g_control_security config) else Some (t_control t)")
      case None
      then show ?thesis using Inr by (auto simp: refresh_def control_fails_def Let_def split: if_splits)
    next
      case (Some control)
      then have "\<not> control_fails P rd t" using Inr by (auto simp: control_fails_def split: if_splits)
      moreover have "\<exists>x. refresh P rd (t, out) = Some x"
        using Inr Some assms adopt_returns [of "t\<lparr>t_control := control, t_config := config,
          t_bundle_stamp := stamp (rd_meta rd)\<rparr>" P rd "config \<noteq> t_config t" _ out]
        by (auto simp: refresh_def Let_def split: sum.split)
      ultimately show ?thesis by auto
    qed
  qed (simp add: refresh_def control_fails_def)
qed

text \<open>A refresh that has no composition.\<close>

lemma refresh_refused:
  assumes "cannot_refresh P rd"
  shows "if control_fails P rd t then refresh P rd (t, out) = None
    else \<exists>t' why. refresh P rd (t, out) = Some (t', out) \<and>
      t_health t' = Degraded \<and> t_message t' = Some why \<and> t_composed t' = t_composed t \<and>
      t_generation t' = t_generation t \<and> t_subscribers t' = t_subscribers t \<and> t_rendered t' = t_rendered t"
  using assms
  by (auto simp: cannot_refresh_def control_fails_def refresh_def degrade_def Let_def split: sum.splits option.splits)

lemma refresh_stale:
  assumes "cannot_refresh P rd" and "refresh P rd (t, out) = Some (t', out')"
  shows "t_health t' = Degraded \<and> trustd_roots t' with_der purpose = trustd_roots t with_der purpose"
proof -
  have "t_health t' = Degraded \<and> t_composed t' = t_composed t"
    using refresh_refused [OF assms(1), of t out] assms(2) by (auto split: if_splits)
  then show ?thesis by (simp add: trustd_roots_def)
qed

text \<open>Whatever is composed was parsed.\<close>

lemma composed_vetted:
  assumes "composed_ok P t"
  shows "sorted (map entry_fingerprint (c_roots (t_composed t)))"
    and "distinct (map entry_fingerprint (c_roots (t_composed t)))"
    and "\<forall>e \<in> set (c_roots (t_composed t)). \<exists>now. parse (p_lib P) (der (e_parsed e)) now = Inr (e_parsed e)"
proof -
  let ?c = "t_composed t"
  have "sorted (map entry_fingerprint (c_roots ?c)) \<and> distinct (map entry_fingerprint (c_roots ?c)) \<and>
      (\<forall>e \<in> set (c_roots ?c). \<exists>now. parse (p_lib P) (der (e_parsed e)) now = Inr (e_parsed e))"
  proof (cases "t_composed_once t")
    case True
    then obtain shipped additions distrust now where "compose (p_lib P) shipped additions distrust now = Inr ?c"
      using assms by (auto simp: composed_ok_def)
    from compose_roots [OF this] show ?thesis
      using effective_sorted effective_distinct effective_vetted by simp
  next
    case False
    then show ?thesis using assms by (simp add: composed_ok_def composed_default_def)
  qed
  then show "sorted (map entry_fingerprint (c_roots ?c))" "distinct (map entry_fingerprint (c_roots ?c))"
    "\<forall>e \<in> set (c_roots ?c). \<exists>now. parse (p_lib P) (der (e_parsed e)) now = Inr (e_parsed e)"
    by blast+
qed

section \<open>Properties\<close>

text \<open>
  C2. A subscriber is never behind: at every point of every run, whatever requests, reloads,
  failures and signals came before, the last bytes sent to each subscriber are the whole
  snapshot of the present generation, with the roots being served now.
\<close>

theorem subscribers_current:
  assumes "run (daemon_step P) (daemon_start P signal listening watching policy R rd files) inputs = Running m"
    and "(s, wants_der) \<in> set (t_subscribers (d_trustd m))"
  shows "\<exists>old. sent (st_peer s) = old @ wire (p_msgpack P)
    (snapshot_replies (t_generation (d_trustd m)) (trustd_roots (d_trustd m) wants_der None))"
  using run_well [OF assms(1)] assms(2) by (fastforce simp: well_def current_def list_all_iff)

theorem subscribers_current_witness:
  "\<exists>m s. run (daemon_step sample_platform) sample_start [turn_accept, turn_subscribe] = Running m \<and>
    t_subscribers (d_trustd m) = [(s, True)] \<and>
    (\<exists>old. sent (st_peer s) = old @ wire lax
      (snapshot_replies (t_generation (d_trustd m)) (trustd_roots (d_trustd m) True None)))"
proof -
  obtain m where r: "run (daemon_step sample_platform) sample_start [turn_accept, turn_subscribe]
      = Running (with_subscriber m)" by (rule sample_run)
  have s: "t_subscribers (d_trustd (with_subscriber m)) = [(subscribed, True)]" by (simp add: with_subscriber_def)
  show ?thesis
    using subscribers_current [OF r [unfolded sample_start_def], of subscribed True] r s by auto
qed

text \<open>
  C7. A healthy daemon has its store on disk: whenever the health is \<open>Ok\<close> and files are rendered at
  all, \<open>certs\<close> and \<open>cert.pem\<close> are the rendering of the roots being served, and the status lists the
  files that are there.
\<close>

theorem healthy_on_disk:
  assumes "run (daemon_step P) (daemon_start P signal listening watching policy R rd files) inputs = Running m"
    and "t_health (d_trustd m) = HealthOk" and "t_composed_once (d_trustd m)"
    and "g_compat (t_config (d_trustd m)) \<noteq> CompatNone"
  shows "fmlookup (w_dir (o_files (d_outside m))) ''certs'' =
      Some (Dir (fill fmempty (rendering (t_composed (d_trustd m))))) \<and>
    fmlookup (w_dir (o_files (d_outside m))) ''cert.pem'' =
      Some (File (as_bytes (bundle_of (t_composed (d_trustd m))))) \<and>
    s_rendered (trustd_status (d_trustd m)) = rendered_paths STORE_DIR (o_files (d_outside m))"
  using run_well [OF assms(1)] assms(2-) by (simp add: well_def on_disk_def trustd_status_def)

theorem healthy_on_disk_witness:
  "\<exists>m. run (daemon_step sample_platform) sample_start [turn_accept, turn_subscribe] = Running m \<and>
    fmlookup (w_dir (o_files (d_outside m))) ''cert.pem'' =
      Some (File (as_bytes (bundle_of (t_composed (d_trustd m)))))"
proof -
  obtain m where m: "started 1 m" and r: "run (daemon_step sample_platform) sample_start
      [turn_accept, turn_subscribe] = Running (with_subscriber m)" by (rule sample_run)
  have "t_health (d_trustd (with_subscriber m)) = HealthOk" "t_composed_once (d_trustd (with_subscriber m))"
    "g_compat (t_config (d_trustd (with_subscriber m))) \<noteq> CompatNone"
    using m by (simp_all add: with_subscriber_def started_def config_default_def)
  from healthy_on_disk [OF r [unfolded sample_start_def] this] show ?thesis using r by blast
qed

text \<open>
  C14. What is served was vetted: at every point of every run the roots are in order of their
  fingerprints, without duplicates, and each parsed as an acceptable certificate whose
  fingerprint is the digest of its bytes.
\<close>

theorem served_vetted:
  assumes "run (daemon_step P) (daemon_start P signal listening watching policy R rd files) inputs = Running m"
  shows "sorted (map r_fingerprint (trustd_roots (d_trustd m) with_der None)) \<and>
    distinct (map r_fingerprint (trustd_roots (d_trustd m) with_der None)) \<and>
    (\<forall>e \<in> set (c_roots (t_composed (d_trustd m))).
      (\<exists>now. parse (p_lib P) (der (e_parsed e)) now = Inr (e_parsed e)) \<and>
      entry_fingerprint e = fingerprint_of (p_lib P) (der (e_parsed e)))"
proof -
  have "composed_ok P (d_trustd m)" using run_well [OF assms] by (simp add: well_def)
  from composed_vetted [OF this] show ?thesis unfolding roots_fingerprints using parse_fields(2) by blast
qed

theorem served_vetted_witness:
  "\<exists>m. run (daemon_step sample_platform) sample_start [turn_accept, turn_subscribe] = Running m \<and>
    c_roots (t_composed (d_trustd m)) = [root_entry 1] \<and>
    (\<exists>now. parse sample_lib [1] now = Inr (e_parsed (root_entry 1)))"
proof -
  obtain m where m: "started 1 m" and r: "run (daemon_step sample_platform) sample_start
      [turn_accept, turn_subscribe] = Running (with_subscriber m)" by (rule sample_run)
  have c: "c_roots (t_composed (d_trustd (with_subscriber m))) = [root_entry 1]"
    using m by (simp add: with_subscriber_def started_def)
  moreover have "der (e_parsed (root_entry 1)) = [1]" by (simp add: root_entry_def)
  ultimately show ?thesis
    using served_vetted [OF r [unfolded sample_start_def]] r by auto
qed



text \<open>
  C11. Stale beats absent: a refresh that cannot read the registry, cannot read the bundle or
  cannot compose it leaves the files, the events, the served roots, the generation and the
  subscribers as they were, and says why in a degraded status. It panics only on a compiled
  default descriptor that does not build, when a new configuration needs it.
\<close>

theorem refresh_failure:
  assumes "cannot_refresh P rd"
  shows "if control_fails P rd t then refresh P rd (t, out) = None
    else \<exists>t' why. refresh P rd (t, out) = Some (t', out) \<and>
      t_health t' = Degraded \<and> t_message t' = Some why \<and> t_composed t' = t_composed t \<and>
      t_generation t' = t_generation t \<and> t_subscribers t' = t_subscribers t \<and> t_rendered t' = t_rendered t"
  using assms by (rule refresh_refused)

theorem refresh_failure_witness:
  "\<exists>t'. refresh sample_platform ((sample_readings 1)\<lparr>rd_bundle := no_such\<rparr>)
      (sample_new, \<lparr>o_files = fresh_world, o_events = []\<rparr>) =
    Some (t', \<lparr>o_files = fresh_world, o_events = []\<rparr>) \<and> t_health t' = Degraded \<and> t_message t' \<noteq> None"
proof -
  have "cannot_refresh sample_platform ((sample_readings 1)\<lparr>rd_bundle := no_such\<rparr>)"
    by (simp add: cannot_refresh_def no_such_def sample_readings_def sample_loads)
  moreover have "\<not> control_fails sample_platform ((sample_readings 1)\<lparr>rd_bundle := no_such\<rparr>)
      sample_new"
    by (simp add: control_fails_def)
  ultimately show ?thesis
    using refresh_failure [of sample_platform "(sample_readings 1)\<lparr>rd_bundle := no_such\<rparr>" sample_new
      "\<lparr>o_files = fresh_world, o_events = []\<rparr>"] by auto
qed

text \<open>
  What a reload answers is what it did: the reply is \<open>Ok\<close> when the daemon is healthy after the
  refresh, and otherwise an error with the message its status now shows.
\<close>

theorem reload_reply:
  assumes "permits (p_security P) (t_control t) (st_conn s) TRUST_CONTROL"
    and "handle P rd s ReqReload (t, out) = Some ((t', out'), left)"
  shows "refresh P rd (t, out) = Some (t', out') \<and>
    (\<exists>ok s' reply. left = Some s' \<and> respond_to P reply s = Some (ok, s') \<and>
       (case s_message (trustd_status t') of
          None \<Rightarrow> s_health (trustd_status t') = HealthOk \<and> reply = ReplyOk
        | Some why \<Rightarrow> s_health (trustd_status t') = Degraded \<and> reply = ReplyError why))"
proof -
  obtain t1 out1 ok s' where r: "refresh P rd (t, out) = Some (t1, out1)"
    and s: "respond_to P (if t_health t1 = Degraded
      then ReplyError (case t_message t1 of Some m \<Rightarrow> m | None \<Rightarrow> ''trust store is degraded'') else ReplyOk) s
      = Some (ok, s')" "t' = t1" "out' = out1" "left = Some s'"
    using assms by (auto simp: handle_def split: option.splits)
  have "message_ok t1" using r by (rule refresh_message)
  then show ?thesis
    using r s by (cases "t_health t1") (auto simp: trustd_status_def message_ok_def)
qed

theorem reload_reply_witness:
  "\<exists>t' out' s'. handle sample_platform (sample_readings 1) asking ReqReload
      (sample_new, \<lparr>o_files = fresh_world, o_events = []\<rparr>) =
        Some ((t', out'), Some s') \<and>
    (s_message (trustd_status t') = None \<longrightarrow> s_health (trustd_status t') = HealthOk)"
proof -
  let ?t = sample_new
  let ?out = "\<lparr>o_files = fresh_world, o_events = []\<rparr>"
  obtain t' out' where r: "refresh sample_platform (sample_readings 1) (?t, ?out) = Some (t', out')"
    using sample_starts [of 1] by (auto simp: daemon_start_def sample_loads sample_new_def split: option.splits)
  have "\<exists>x. respond_to sample_platform reply s = Some x" for reply s
    by (simp add: respond_to_def send_with_def respond_def lax_encodes)
  then obtain ok s where "respond_to sample_platform (if t_health t' = Degraded
      then ReplyError (case t_message t' of Some m \<Rightarrow> m | None \<Rightarrow> ''trust store is degraded'') else ReplyOk) asking
      = Some (ok, s)"
    by fastforce
  then have "handle sample_platform (sample_readings 1) asking ReqReload (?t, ?out) = Some ((t', out'), Some s)"
    using r by (simp add: handle_def)
  then show ?thesis
    using reload_reply [of sample_platform ?t asking "sample_readings 1" ?out] by fastforce
qed

text \<open>
  Every change of the store after the first composition is recorded: a refresh that composes
  hands the event writer changes that, replayed on the old fingerprints, give exactly the new
  ones, and appends what it emits.
\<close>

theorem refresh_events:
  assumes "load (rd_registry rd) = Inr config" and "rd_bundle rd = Inr shipped"
    and "compose (p_lib P) shipped (g_additions config) (g_distrust config) (rd_now rd) = Inr composed"
    and "t_composed_once t" and "refresh P rd (t, out) = Some (t', out')"
  shows "\<exists>chs. replay (entry_fingerprint ` set (c_roots (t_composed t))) chs =
      entry_fingerprint ` set (c_roots (t_composed t')) \<and>
    o_events out' = o_events out @ fst (record_changes (p_msgpack P) (p_lib P)
      (if t_events t then Some (rd_policy rd) else None) (rd_emit rd) chs)"
proof -
  obtain control where control: "(if config \<noteq> t_config t then control_new (p_security P) (g_control_security config)
      else Some (t_control t)) = Some control"
    using assms(1,5) by (auto simp: refresh_def Let_def split: option.splits)
  define t1 where "t1 = t\<lparr>t_control := control, t_config := config, t_bundle_stamp := stamp (rd_meta rd)\<rparr>"
  have "adopt P rd (config \<noteq> t_config t) composed (t1, out) = Some (t', out')"
    using assms(1,2,3,5) control unfolding refresh_def t1_def Let_def by simp
  moreover have t1: "t_composed_once t1" "t_composed t1 = t_composed t" "t_events t1 = t_events t"
    using assms(4) by (simp_all add: t1_def)
  ultimately have "t_composed t' = composed \<and> o_events out' = o_events out @
      fst (record_changes (p_msgpack P) (p_lib P) (if t_events t then Some (rd_policy rd) else None) (rd_emit rd)
        (changes (c_roots (t_composed t)) (c_roots composed) (g_distrust (t_config t1))))"
    using adopt_events [of P rd _ composed t1 out t' out'] by simp
  then show ?thesis using replay_changes by metis
qed

theorem refresh_events_witness:
  "\<exists>m t' out' chs. sample_start = Running m \<and>
    refresh sample_platform (sample_readings 2) (d_trustd (with_subscriber m), d_outside m) = Some (t', out') \<and>
    replay (entry_fingerprint ` {root_entry 1}) chs = entry_fingerprint ` set (c_roots (t_composed t'))"
proof -
  obtain m where m: "sample_start = Running m" "started 1 m" by (rule sample_run)
  let ?t = "d_trustd (with_subscriber m)"
  have t: "c_roots (t_composed ?t) = [root_entry 1]" "t_generation ?t = 1" "t_config ?t = config_default"
    "t_subscribers ?t = [(subscribed, True)]" "t_composed_once ?t"
    using m(2) by (simp_all add: with_subscriber_def started_def)
  obtain t' out' where r: "refresh sample_platform (sample_readings 2) (?t, d_outside m) = Some (t', out')"
    using reload_drops [OF t(1-4)] by blast
  obtain c where c: "compose sample_lib (repeated 2) [] [] (Some 5) = Inr c"
    using sample_composes by blast
  have g: "g_additions config_default = []" "g_distrust config_default = []" by (simp_all add: config_default_def)
  obtain chs where "replay (entry_fingerprint ` set (c_roots (t_composed ?t))) chs =
      entry_fingerprint ` set (c_roots (t_composed t'))"
    using refresh_events [of "sample_readings 2" config_default "repeated 2" sample_platform c ?t "d_outside m" t' out']
      c g t(5) r by auto
  then show ?thesis using m r t(1) by auto
qed

text \<open>
  C39. A flood is bounded: at every point of every run there are at most \<open>MAX_CLIENTS\<close> clients, and
  each holds at most one message.
\<close>

theorem clients_bounded:
  assumes "run (daemon_step P) (daemon_start P signal listening watching policy R rd files) inputs = Running m"
  shows "length (t_clients (d_trustd m)) \<le> MAX_CLIENTS \<and>
    list_all (\<lambda>(_, c). length (cl_buf c) \<le> 4 + MAX_MESSAGE_BYTES) (t_clients (d_trustd m))"
  using run_well [OF assms] by (auto simp: well_def clients_ok_def list_all_iff)

theorem clients_bounded_witness:
  "\<exists>m. run (daemon_step sample_platform) sample_start [turn_accept, turn_subscribe] = Running m \<and>
    length (t_clients (d_trustd m)) = 1 \<and> length (t_clients (d_trustd m)) \<le> MAX_CLIENTS"
proof -
  obtain m where r: "run (daemon_step sample_platform) sample_start
      [turn_accept, turn_subscribe] = Running (with_subscriber m)" by (rule sample_run)
  have "length (t_clients (d_trustd (with_subscriber m))) = 1" by (simp add: with_subscriber_def)
  then show ?thesis using clients_bounded [OF r [unfolded sample_start_def]] r by blast
qed

text \<open>
  C13. A reload can stop the daemon. The slots of the subscribers that have closed are taken before
  the requests of the turn are handled; when the reload that a client asks for publishes and
  drops a subscriber, so that one of those slots is past the end of the list that is left, the
  daemon panics. The witness is a run from the start: a subscriber hangs up, and in the same turn
  another client asks for a reload.
\<close>

theorem reload_can_panic:
  assumes "i_poll i = PollReady" and "i_accepts i = None" and "i_ready i = [(ident, results, rd)]"
    and "map_of (t_clients (d_trustd m)) ident = Some client"
    and "client_read (p_msgpack P) (p_describe P) (cl_buf client) results = (ProgressRequest ReqReload, buf, None)"
    and "permits (p_security P) (t_control (d_trustd m)) (st_conn (cl_stream client)) TRUST_CONTROL"
    and "refresh P rd ((d_trustd m)\<lparr>t_clients := AList.delete ident (t_clients (d_trustd m))\<rparr>, d_outside m) =
      Some (t', out')"
    and "slot \<in> set (i_closed i)" and "length (t_subscribers t') \<le> slot"
  shows "daemon_step P (Running m) i = Panicked"
  using assms by (rule reload_past_end)

theorem reload_can_panic_witness:
  "\<exists>m. run (daemon_step sample_platform) sample_start [turn_accept, turn_subscribe] = Running m \<and>
    length (t_subscribers (d_trustd m)) = 1 \<and> i_closed turn_reload = [0] \<and>
    (\<forall>reply. encode_reply (p_msgpack sample_platform) reply \<noteq> None) \<and>
    run (daemon_step sample_platform) sample_start [turn_accept, turn_subscribe, turn_reload] = Panicked"
proof -
  obtain m where m: "started 1 m"
    and r: "run (daemon_step sample_platform) sample_start [turn_accept, turn_subscribe] = Running (with_subscriber m)"
    by (rule sample_run)
  let ?m = "with_subscriber m"
  obtain t' out' where f: "refresh sample_platform (sample_readings 2)
      ((d_trustd ?m)\<lparr>t_clients := AList.delete 2 (t_clients (d_trustd ?m))\<rparr>, d_outside ?m) = Some (t', out')"
    "t_subscribers t' = []"
    using reload_drops [of "(d_trustd ?m)\<lparr>t_clients := AList.delete 2 (t_clients (d_trustd ?m))\<rparr>" "d_outside ?m"] m
    by (auto simp: started_def with_subscriber_def)
  have t: "i_poll turn_reload = PollReady" "i_accepts turn_reload = None" "i_closed turn_reload = [0]"
    "i_ready turn_reload = [(2, [Got reload_frame], sample_readings 2)]"
    by (simp_all add: turn_reload_def quiet_turn_def)
  have c: "map_of (t_clients (d_trustd ?m)) 2 = Some (waiting asking)"
    "client_read (p_msgpack sample_platform) (p_describe sample_platform) (cl_buf (waiting asking)) [Got reload_frame] =
      (ProgressRequest ReqReload, reload_frame, None)"
    using sample_requests(2) by (simp_all add: with_subscriber_def waiting_def)
  have "daemon_step sample_platform (Running ?m) turn_reload = Panicked"
    using reload_can_panic [OF t(1,2,4) c sample_platform(4) f(1), of 0] t(3) f(2) by simp
  then have "run (daemon_step sample_platform) sample_start ([turn_accept, turn_subscribe] @ [turn_reload]) = Panicked"
    unfolding run_append r by simp
  moreover have "length (t_subscribers (d_trustd ?m)) = 1" by (simp add: with_subscriber_def)
  ultimately show ?thesis using r t(3) by (intro exI [of _ ?m]) (simp add: lax_encodes)
qed

end
