(* ===== verification/Channel.thy ===== *)
theory Channel
  imports Control
begin

text \<open>
  The client's side of the socket (\<open>libtrust/src/channel.rs\<close>, of which \<open>trust-client-core\<close> has an
  identical copy): connecting, a deadline over the whole exchange, sending a request, and
  receiving a reply in pieces, keeping a partial frame when the time runs out.

  A channel carries what the kernel will do: the clock as it is read, what \<open>poll\<close>, \<open>read\<close> and
  \<open>write\<close> answer next. No more of the clock is a clock past every deadline; no more of a call is
  \<open>WouldBlock\<close>, and of \<open>poll\<close> a time-out. Times are in milliseconds.
\<close>

section \<open>The model\<close>

text \<open>\<open>poll\<close>: ready (and whether \<open>POLLNVAL\<close>), nothing before its own time-out, or an error.\<close>

datatype wait_result = WaitReady bool | WaitNothing | WaitErr io_error

datatype arrival = Arrived bytes | ArrivalErr io_error

datatype acceptance = Took nat | AcceptanceErr io_error

record channel =
  ch_incoming :: bytes
  ch_sent :: bytes
  ch_clock :: "nat list"
  ch_reads :: "arrival list"
  ch_writes :: "acceptance list"
  ch_waits :: "wait_result list"

type_synonym 'a chan_io = "channel \<Rightarrow> (io_error + 'a) \<times> channel"

text \<open>What one turn of a loop comes to.\<close>

datatype 'a step = Done "(io_error + 'a) \<times> channel" | Again channel

definition invalid_input :: "string \<Rightarrow> io_error" where
  "invalid_input message = IoError InvalidInput None message"

definition timed_out :: io_error where
  "timed_out = IoError TimedOut None ''trust operation timed out''"

text \<open>\<open>Instant::now()\<close>, and the latest instant there is.\<close>

definition deadline :: "nat \<Rightarrow> nat \<Rightarrow> u64 \<Rightarrow> io_error + nat" where
  "deadline latest now timeout_ms =
     (if timeout_ms = 0 then Inl (invalid_input ''timeout_ms must be positive'')
      else if latest < now + unat timeout_ms then Inl (invalid_input ''timeout is too large'')
      else Inr (now + unat timeout_ms))"

definition remaining_time :: "nat \<Rightarrow> nat chan_io" where
  "remaining_time end_time ch =
     (case ch_clock ch of
        [] \<Rightarrow> (Inl timed_out, ch)
      | now # clock \<Rightarrow>
          (if now \<le> end_time then Inr (end_time - now) else Inl timed_out, ch\<lparr>ch_clock := clock\<rparr>))"

definition next_wait :: "channel \<Rightarrow> wait_result \<times> channel" where
  "next_wait ch =
     (case ch_waits ch of [] \<Rightarrow> (WaitNothing, ch) | w # ws \<Rightarrow> (w, ch\<lparr>ch_waits := ws\<rparr>))"

definition wait_turn :: "nat \<Rightarrow> channel \<Rightarrow> unit step" where
  "wait_turn end_time ch =
     (case remaining_time end_time ch of
        (Inl e, ch) \<Rightarrow> Done (Inl e, ch)
      | (Inr _, ch) \<Rightarrow>
          (case next_wait ch of
             (WaitReady nval, ch) \<Rightarrow>
               Done (if nval then Inl (IoError OtherKind (Some 9) ''Bad file descriptor (os error 9)'') else Inr (), ch)
           | (WaitNothing, ch) \<Rightarrow> Again ch
           | (WaitErr e, ch) \<Rightarrow> if io_kind e = Interrupted then Again ch else Done (Inl e, ch)))"

text \<open>What is left alone by waiting: everything but the clock and the answers of \<open>poll\<close>.\<close>

definition same_stream :: "channel \<Rightarrow> channel \<Rightarrow> bool" where
  "same_stream ch ch' \<longleftrightarrow> ch_incoming ch' = ch_incoming ch \<and> ch_reads ch' = ch_reads ch \<and>
     ch_sent ch' = ch_sent ch \<and> ch_writes ch' = ch_writes ch"

lemma same_stream_refl [simp]: "same_stream ch ch"
  by (simp add: same_stream_def)

lemma same_stream_trans [trans]: "same_stream a b \<Longrightarrow> same_stream b c \<Longrightarrow> same_stream a c"
  by (simp add: same_stream_def)

lemma remaining_time_outcome:
  "remaining_time end_time ch = (r, ch') \<Longrightarrow> same_stream ch ch' \<and>
    (\<forall>t. r = Inr t \<longrightarrow> length (ch_clock ch') < length (ch_clock ch)) \<and> (\<forall>e. r = Inl e \<longrightarrow> e = timed_out)"
  by (auto simp: remaining_time_def same_stream_def split: list.splits if_splits)

lemma wait_turn_Again:
  "wait_turn end_time ch = Again ch' \<Longrightarrow>
    length (ch_clock ch') < length (ch_clock ch) \<and> same_stream ch ch'"
  by (auto simp: wait_turn_def remaining_time_def next_wait_def same_stream_def
      split: list.splits if_splits wait_result.splits sum.splits prod.splits)

lemma wait_turn_Done:
  "wait_turn end_time ch = Done (r, ch') \<Longrightarrow>
    length (ch_clock ch') \<le> length (ch_clock ch) \<and> same_stream ch ch'"
  by (auto simp: wait_turn_def remaining_time_def next_wait_def same_stream_def
      split: list.splits if_splits wait_result.splits sum.splits prod.splits)

function wait_for :: "nat \<Rightarrow> unit chan_io" where
  "wait_for end_time ch =
     (case wait_turn end_time ch of Done r \<Rightarrow> r | Again ch' \<Rightarrow> wait_for end_time ch')"
  by pat_completeness auto
termination
  by (relation "measure (\<lambda>(_, ch). length (ch_clock ch))") (auto dest!: wait_turn_Again)

declare wait_for.simps [simp del]

lemma wait_for_same:
  "wait_for end_time ch = (r, ch') \<Longrightarrow>
    length (ch_clock ch') \<le> length (ch_clock ch) \<and> same_stream ch ch'"
proof (induction end_time ch arbitrary: r ch' rule: wait_for.induct)
  case (1 end_time ch)
  show ?case
  proof (cases "wait_turn end_time ch")
    case (Done d)
    then show ?thesis using 1(2) wait_turn_Done by (simp add: wait_for.simps [of end_time ch])
  next
    case (Again ch1)
    then show ?thesis using 1(2) 1(1) [OF Again, of r ch'] wait_turn_Again [OF Again]
      by (auto simp: wait_for.simps [of end_time ch] intro: same_stream_trans)
  qed
qed

section \<open>Connecting\<close>

text \<open>
  What the kernel makes of the connection: the descriptor or why there is none, the errno of
  \<open>connect\<close>, if any, the socket's pending error, and the stream. \<open>EINPROGRESS\<close> is 115.
\<close>

record connection =
  cn_socket :: "io_error + unit"
  cn_connect :: "io_error option"
  cn_pending :: "io_error + io_error option"
  cn_channel :: channel

definition usable_path :: "bytes \<Rightarrow> bool" where
  "usable_path path \<longleftrightarrow> path \<noteq> [] \<and> 0 \<notin> set path \<and> length path < 108"

definition connect :: "bytes \<Rightarrow> nat \<Rightarrow> connection \<Rightarrow> io_error + channel" where
  "connect path end_time cn =
     (if \<not> usable_path path then
        Inl (invalid_input ''expected a nonempty filesystem socket path shorter than 108 bytes'')
      else bindE (cn_socket cn) (\<lambda>_.
        let (waited, ch) =
          (case cn_connect cn of
             None \<Rightarrow> (Inr (), cn_channel cn)
           | Some e \<Rightarrow>
               if raw_os_error e \<noteq> Some 115 then (Inl e, cn_channel cn)
               else wait_for end_time (cn_channel cn))
        in bindE waited (\<lambda>_. bindE (cn_pending cn) (\<lambda>error.
          case error of
            Some e \<Rightarrow> Inl e
          | None \<Rightarrow>
              (case remaining_time end_time ch of
                 (Inl e, ch) \<Rightarrow> Inl e
               | (Inr _, ch) \<Rightarrow> Inr (ch\<lparr>ch_incoming := []\<rparr>))))))"

section \<open>Sending\<close>

definition next_write :: "bytes \<Rightarrow> channel \<Rightarrow> acceptance \<times> channel" where
  "next_write pending ch =
     (case ch_writes ch of
        [] \<Rightarrow> (AcceptanceErr (IoError WouldBlock None []), ch)
      | Took n # ws \<Rightarrow> (Took (min n (length pending)),
          ch\<lparr>ch_writes := ws, ch_sent := ch_sent ch @ take n pending\<rparr>)
      | AcceptanceErr e # ws \<Rightarrow> (AcceptanceErr e, ch\<lparr>ch_writes := ws\<rparr>))"

definition send_turn :: "nat \<Rightarrow> bytes \<Rightarrow> channel \<Rightarrow> unit step \<times> bytes" where
  "send_turn end_time pending ch =
     (case remaining_time end_time ch of
        (Inl e, ch) \<Rightarrow> (Done (Inl e, ch), pending)
      | (Inr _, ch) \<Rightarrow>
          (case next_write pending ch of
             (Took count, ch) \<Rightarrow>
               if count = 0 then (Done (Inl (IoError WriteZero None ''trust closed while writing''), ch), pending)
               else (Again ch, drop count pending)
           | (AcceptanceErr e, ch) \<Rightarrow>
               if io_kind e = Interrupted then (Again ch, pending)
               else if io_kind e = WouldBlock then
                 (case wait_for end_time ch of
                    (Inl e, ch) \<Rightarrow> (Done (Inl e, ch), pending)
                  | (Inr _, ch) \<Rightarrow> (Again ch, pending))
               else (Done (Inl e, ch), pending)))"

lemma send_turn_Again:
  "send_turn end_time pending ch = (Again ch', pending') \<Longrightarrow>
    length (ch_clock ch') < length (ch_clock ch) \<and>
    (\<exists>n. ch_sent ch' = ch_sent ch @ take n pending \<and> pending' = drop n pending)"
  by (auto intro: exI [of _ 0] exI [of _ "length pending"] simp: send_turn_def remaining_time_def next_write_def min_def same_stream_def
      dest!: wait_for_same
      split: list.splits if_splits acceptance.splits sum.splits prod.splits)

function send_loop :: "nat \<Rightarrow> bytes \<Rightarrow> unit chan_io" where
  "send_loop end_time pending ch =
     (if pending = [] then (Inr (), ch)
      else case send_turn end_time pending ch of
        (Done r, _) \<Rightarrow> r
      | (Again ch', pending') \<Rightarrow> send_loop end_time pending' ch')"
  by pat_completeness auto
termination
  by (relation "measure (\<lambda>(_, _, ch). length (ch_clock ch))")
     (auto dest!: send_turn_Again [OF sym])

declare send_loop.simps [simp del]

lemma send_turn_reads:
  "send_turn end_time pending ch = (s, pending') \<Longrightarrow> pending \<noteq> [] \<Longrightarrow>
    (case s of Again ch' \<Rightarrow> ch_incoming ch' = ch_incoming ch \<and> ch_reads ch' = ch_reads ch
     | Done (r, ch') \<Rightarrow> ch_incoming ch' = ch_incoming ch \<and> ch_reads ch' = ch_reads ch \<and>
         ch_sent ch' = ch_sent ch \<and> (\<exists>e. r = Inl e))"
  by (auto simp: send_turn_def remaining_time_def next_write_def same_stream_def min_def dest!: wait_for_same
      split: list.splits if_splits acceptance.splits sum.splits prod.splits)

text \<open>A request is sent whole exactly when sending succeeds, and reading is not touched.\<close>

lemma send_loop_outcome:
  "send_loop end_time pending ch = (r, ch') \<Longrightarrow>
    ch_incoming ch' = ch_incoming ch \<and> ch_reads ch' = ch_reads ch \<and>
    (\<exists>n \<le> length pending. ch_sent ch' = ch_sent ch @ take n pending \<and> (r = Inr () \<longleftrightarrow> n = length pending))"
proof (induction end_time pending ch arbitrary: r ch' rule: send_loop.induct)
  case (1 end_time pending ch)
  show ?case
  proof (cases "pending = []")
    case True
    then show ?thesis using 1(2) by (auto simp: send_loop.simps [of end_time "[]" ch])
  next
    case False
    obtain s pending' where s: "send_turn end_time pending ch = (s, pending')" by fastforce
    note reads = send_turn_reads [OF s False]
    show ?thesis
    proof (cases s)
      case (Done d)
      then have "d = (r, ch')" using 1(2) s False by (simp add: send_loop.simps [of end_time pending ch])
      then show ?thesis using reads Done False by (auto intro!: exI [of _ 0])
    next
      case (Again ch1)
      then have "send_loop end_time pending' ch1 = (r, ch')" using 1(2) s False
        by (simp add: send_loop.simps [of end_time pending ch])
      from 1(1) [OF False s [symmetric] Again this] obtain n where n: "n \<le> length pending'"
        "ch_incoming ch' = ch_incoming ch1" "ch_reads ch' = ch_reads ch1"
        "ch_sent ch' = ch_sent ch1 @ take n pending'" "r = Inr () \<longleftrightarrow> n = length pending'" by blast
      obtain front where f: "ch_sent ch1 = ch_sent ch @ front" "pending = front @ pending'"
        using send_turn_Again s Again by (metis append_take_drop_id)
      show ?thesis using n reads Again f by (auto intro!: exI [of _ "length front + n"])
    qed
  qed
qed

text \<open>\<open>None\<close> is the panic of a request that does not encode.\<close>

definition send_request :: "('r, 'e) msgpack \<Rightarrow> nat \<Rightarrow> Request \<Rightarrow> channel \<Rightarrow> ((io_error + unit) \<times> channel) option" where
  "send_request M end_time request ch =
     map_option (\<lambda>payload.
       if MAX_MESSAGE_BYTES < length payload
       then (Inl (invalid_input ''request exceeds the protocol message limit''), ch)
       else send_loop end_time (le_bytes 4 (length payload) @ payload) ch)
       (encode_request M request)"

section \<open>Receiving\<close>

text \<open>\<open>read\<close> of at most \<open>capacity\<close> bytes: the rest of what has arrived stays.\<close>

definition next_read :: "nat \<Rightarrow> channel \<Rightarrow> arrival \<times> channel" where
  "next_read capacity ch =
     (case ch_reads ch of
        [] \<Rightarrow> (ArrivalErr (IoError WouldBlock None []), ch)
      | Arrived bs # rs \<Rightarrow>
          if length bs \<le> capacity then (Arrived bs, ch\<lparr>ch_reads := rs\<rparr>)
          else (Arrived (take capacity bs), ch\<lparr>ch_reads := Arrived (drop capacity bs) # rs\<rparr>)
      | ArrivalErr e # rs \<Rightarrow> (ArrivalErr e, ch\<lparr>ch_reads := rs\<rparr>))"

text \<open>What the bytes so far ask for: a reply to decode, a refusal, or a number of bytes.\<close>

datatype need = NeedTotal nat | NeedDecode bytes | NeedRefuse

definition needed :: "bytes \<Rightarrow> need" where
  "needed incoming =
     (if length incoming < 4 then NeedTotal 4
      else let len = le_val (take 4 incoming)
           in if MAX_MESSAGE_BYTES < len then NeedRefuse
              else if length incoming = 4 + len then NeedDecode (drop 4 incoming)
              else NeedTotal (4 + len))"

definition receive_turn ::
  "('r, 'e) msgpack \<Rightarrow> ('e wire_error \<Rightarrow> string) \<Rightarrow> nat \<Rightarrow> channel \<Rightarrow> Reply step" where
  "receive_turn M describe_error end_time ch =
     (case remaining_time end_time ch of
        (Inl e, ch) \<Rightarrow> Done (Inl e, ch)
      | (Inr _, ch) \<Rightarrow>
          (case needed (ch_incoming ch) of
             NeedRefuse \<Rightarrow> Done (Inl (invalid_input ''reply exceeds the protocol message limit''), ch)
           | NeedDecode payload \<Rightarrow>
               Done (map_err (\<lambda>e. IoError InvalidData None (describe_error e)) (decode_reply M payload),
                     ch\<lparr>ch_incoming := []\<rparr>)
           | NeedTotal target \<Rightarrow>
               (case next_read (min 4096 (target - length (ch_incoming ch))) ch of
                  (Arrived bs, ch) \<Rightarrow>
                    if bs = [] then Done (Inl (IoError UnexpectedEof None ''trust closed mid-reply''), ch)
                    else Again (ch\<lparr>ch_incoming := ch_incoming ch @ bs\<rparr>)
                | (ArrivalErr e, ch) \<Rightarrow>
                    if io_kind e = Interrupted then Again ch
                    else if io_kind e = WouldBlock then
                      (case wait_for end_time ch of
                         (Inl e, ch) \<Rightarrow> Done (Inl e, ch)
                       | (Inr _, ch) \<Rightarrow> Again ch)
                    else Done (Inl e, ch))))"

text \<open>The bytes on their way, and those of them and of the buffer nobody has taken yet.\<close>

definition arriving :: "channel \<Rightarrow> bytes" where
  "arriving ch = concat (map (\<lambda>a. case a of Arrived bs \<Rightarrow> bs | ArrivalErr _ \<Rightarrow> []) (ch_reads ch))"

definition unread :: "channel \<Rightarrow> bytes" where
  "unread ch = ch_incoming ch @ arriving ch"

text \<open>The buffer never holds more than the frame it began.\<close>

definition well_held :: "bytes \<Rightarrow> bool" where
  "well_held b \<longleftrightarrow> (4 < length b \<longrightarrow> length b \<le> 4 + le_val (take 4 b))"

lemma well_held_Nil [simp]: "well_held []"
  by (simp add: well_held_def)

lemma well_held_grow:
  assumes "needed b = NeedTotal target" and "length bs \<le> target - length b" and "well_held b"
  shows "well_held (b @ bs)"
  using assms by (auto simp: well_held_def needed_def Let_def split: if_splits)

lemma next_read_outcome:
  "next_read capacity ch = (a, ch') \<Longrightarrow> ch_clock ch' = ch_clock ch \<and> ch_incoming ch' = ch_incoming ch \<and>
    arriving ch = (case a of Arrived bs \<Rightarrow> bs | ArrivalErr _ \<Rightarrow> []) @ arriving ch' \<and>
    (\<forall>bs. a = Arrived bs \<longrightarrow> length bs \<le> capacity)"
  by (auto simp: next_read_def arriving_def split: list.splits arrival.splits if_splits)

lemma receive_turn_Again:
  assumes "receive_turn M describe_error end_time ch = Again ch'"
  shows "length (ch_clock ch') < length (ch_clock ch)"
  using assms
  by (auto simp: receive_turn_def split: sum.splits prod.splits need.splits arrival.splits if_splits
      dest!: remaining_time_outcome next_read_outcome wait_for_same)

lemma receive_turn_keeps:
  assumes "receive_turn M describe_error end_time ch = Again ch'" and "well_held (ch_incoming ch)"
  shows "unread ch' = unread ch \<and> well_held (ch_incoming ch')"
  using assms
  by (auto simp: receive_turn_def unread_def same_stream_def arriving_def
      split: sum.splits prod.splits need.splits arrival.splits if_splits
      dest!: remaining_time_outcome next_read_outcome wait_for_same intro!: well_held_grow)

function receive :: "('r, 'e) msgpack \<Rightarrow> ('e wire_error \<Rightarrow> string) \<Rightarrow> nat \<Rightarrow> Reply chan_io" where
  "receive M describe_error end_time ch =
     (case receive_turn M describe_error end_time ch of
        Done r \<Rightarrow> r
      | Again ch' \<Rightarrow> receive M describe_error end_time ch')"
  by pat_completeness auto
termination
  by (relation "measure (\<lambda>(_, _, _, ch). length (ch_clock ch))") (auto dest!: receive_turn_Again)

declare receive.simps [simp del]

section \<open>What receiving comes to\<close>

lemma needed_decode:
  assumes "needed b = NeedDecode payload"
  shows "b = frame_of payload \<and> length payload \<le> MAX_MESSAGE_BYTES"
proof -
  from assms have l: "length b = 4 + le_val (take 4 b)" "le_val (take 4 b) \<le> MAX_MESSAGE_BYTES"
    and p: "payload = drop 4 b"
    by (auto simp: needed_def Let_def split: if_splits)
  from l(1) have "le_bytes 4 (le_val (take 4 b)) = take 4 b"
    using le_bytes_le_val [of "take 4 b"] by simp
  moreover from l p have "length payload = le_val (take 4 b)" by simp
  ultimately have "frame_of payload = take 4 b @ drop 4 b" by (simp add: frame_of_def p)
  then show ?thesis using l p by simp
qed

text \<open>The outcomes of a call: one frame taken, whole, or nothing taken.\<close>

definition receive_result ::
  "('r, 'e) msgpack \<Rightarrow> ('e wire_error \<Rightarrow> string) \<Rightarrow> channel \<Rightarrow> io_error + Reply \<Rightarrow> channel \<Rightarrow> bool" where
  "receive_result M describe_error ch r ch' \<longleftrightarrow>
     (\<exists>payload. length payload \<le> MAX_MESSAGE_BYTES \<and> ch_incoming ch' = [] \<and>
        unread ch = frame_of payload @ unread ch' \<and>
        r = map_err (\<lambda>e. IoError InvalidData None (describe_error e)) (decode_reply M payload)) \<or>
     (\<exists>e. r = Inl e \<and> unread ch' = unread ch)"

lemma receive_turn_Done:
  assumes "receive_turn M describe_error end_time ch = Done (r, ch')" and "well_held (ch_incoming ch)"
  shows "well_held (ch_incoming ch') \<and> receive_result M describe_error ch r ch'"
  using assms
  by (auto simp: receive_turn_def receive_result_def unread_def same_stream_def arriving_def
      split: sum.splits prod.splits need.splits arrival.splits if_splits
      dest!: remaining_time_outcome next_read_outcome wait_for_same needed_decode)

lemma receive_outcome:
  assumes "receive M describe_error end_time ch = (r, ch')" and "well_held (ch_incoming ch)"
  shows "well_held (ch_incoming ch') \<and> receive_result M describe_error ch r ch'"
  using assms
proof (induction M describe_error end_time ch arbitrary: r ch' rule: receive.induct)
  case (1 M describe_error end_time ch)
  show ?case
  proof (cases "receive_turn M describe_error end_time ch")
    case (Done d)
    then show ?thesis using 1(2,3) receive_turn_Done
      by (simp add: receive.simps [of M describe_error end_time ch])
  next
    case (Again ch1)
    note keeps = receive_turn_keeps [OF Again 1(3)]
    have "receive M describe_error end_time ch1 = (r, ch')" using 1(2) Again
      by (simp add: receive.simps [of M describe_error end_time ch])
    from 1(1) [OF Again this] keeps show ?thesis by (simp add: receive_result_def)
  qed
qed

text \<open>Data that has arrived, and a clock that does not reach the deadline for \<open>n\<close> readings.\<close>

definition flowing :: "channel \<Rightarrow> bool" where
  "flowing ch \<longleftrightarrow> list_all (\<lambda>a. \<exists>bs. a = Arrived bs \<and> bs \<noteq> []) (ch_reads ch)"

definition in_time :: "nat \<Rightarrow> nat \<Rightarrow> channel \<Rightarrow> bool" where
  "in_time end_time n ch \<longleftrightarrow> n \<le> length (ch_clock ch) \<and> (\<forall>t \<in> set (take n (ch_clock ch)). t \<le> end_time)"

lemma in_time_step:
  assumes "in_time end_time (Suc n) ch"
  shows "\<exists>t ch'. remaining_time end_time ch = (Inr t, ch') \<and> in_time end_time n ch' \<and> same_stream ch ch' \<and>
    length (ch_clock ch) = Suc (length (ch_clock ch'))"
  using assms by (cases "ch_clock ch") (auto simp: in_time_def remaining_time_def same_stream_def)

lemma in_time_mono: "in_time end_time n ch \<Longrightarrow> m \<le> n \<Longrightarrow> in_time end_time m ch"
  by (auto simp: in_time_def dest: set_take_subset_set_take [THEN subsetD])

lemma needed_of_frame:
  assumes "length payload \<le> MAX_MESSAGE_BYTES" and "b @ c = frame_of payload @ rest" and "well_held b"
  shows "needed b = NeedDecode payload \<and> b = frame_of payload \<and> c = rest \<or>
    (\<exists>target. needed b = NeedTotal target \<and> length b < target \<and> target \<le> length (frame_of payload))"
proof -
  have f: "length (frame_of payload) = 4 + length payload" by (simp add: frame_of_def)
  show ?thesis
  proof (cases "length b < 4")
    case True
    then show ?thesis by (auto simp: needed_def f)
  next
    case False
    have "take 4 (b @ c) = take 4 (frame_of payload @ rest)" using assms(2) by simp
    then have "take 4 b = le_bytes 4 (length payload)" using False by (simp add: frame_of_def)
    then have v: "le_val (take 4 b) = length payload"
      using assms(1) by (simp add: le_val_le_bytes MAX_MESSAGE_BYTES_def)
    then have l: "length b \<le> 4 + length payload" using assms(3) False by (auto simp: well_held_def)
    show ?thesis
    proof (cases "length b = 4 + length payload")
      case True
      then have "b = frame_of payload" "c = rest" using assms(2) f by (metis append_eq_append_conv)+
      then show ?thesis using v assms(1) f by (simp add: needed_def Let_def frame_of_def)
    next
      case False': False
      then show ?thesis using v l False assms(1) f by (simp add: needed_def Let_def)
    qed
  qed
qed

lemma next_read_flowing:
  assumes "flowing ch" and "arriving ch \<noteq> []" and "0 < capacity"
  shows "\<exists>bs ch'. next_read capacity ch = (Arrived bs, ch') \<and> bs \<noteq> [] \<and> flowing ch'"
proof -
  obtain bs rs where "ch_reads ch = Arrived bs # rs" "bs \<noteq> []"
    using assms by (cases "ch_reads ch") (auto simp: flowing_def arriving_def)
  then show ?thesis using assms by (auto simp: next_read_def flowing_def)
qed

lemma receive_delivers:
  assumes "length payload \<le> MAX_MESSAGE_BYTES" and "unread ch = frame_of payload @ rest"
    and "well_held (ch_incoming ch)" and "flowing ch"
    and "in_time end_time (Suc (length (frame_of payload) - length (ch_incoming ch))) ch"
  shows "\<exists>ch'. receive M describe_error end_time ch =
      (map_err (\<lambda>e. IoError InvalidData None (describe_error e)) (decode_reply M payload), ch') \<and>
    ch_incoming ch' = [] \<and> arriving ch' = rest \<and> flowing ch' \<and>
    (\<forall>n. in_time end_time (Suc (length (frame_of payload) - length (ch_incoming ch)) + n) ch \<longrightarrow> in_time end_time n ch')"
  using assms(2-)
proof (induction "length (frame_of payload) - length (ch_incoming ch)" arbitrary: ch rule: less_induct)
  case less
  let ?k = "length (frame_of payload) - length (ch_incoming ch)"
  obtain u ch1 where 1: "remaining_time end_time ch = (Inr u, ch1)" "in_time end_time ?k ch1"
    "same_stream ch ch1" "length (ch_clock ch) = Suc (length (ch_clock ch1))"
    using in_time_step less.prems(4) by blast
  have later: "in_time end_time n ch1" if "in_time end_time (Suc n) ch" for n
    using in_time_step [OF that] 1(1) by auto
  have s: "ch_incoming ch1 = ch_incoming ch" "ch_reads ch1 = ch_reads ch" "arriving ch1 = arriving ch"
    using 1(3) by (simp_all add: same_stream_def arriving_def)
  have whole: "ch_incoming ch @ arriving ch = frame_of payload @ rest"
    using less.prems(1) by (simp add: unread_def)
  from needed_of_frame [OF assms(1) whole less.prems(2)] show ?case
  proof (elim disjE exE conjE)
    assume n: "needed (ch_incoming ch) = NeedDecode payload" "ch_incoming ch = frame_of payload"
      "arriving ch = rest"
    then have "receive_turn M describe_error end_time ch =
        Done (map_err (\<lambda>e. IoError InvalidData None (describe_error e)) (decode_reply M payload),
          ch1\<lparr>ch_incoming := []\<rparr>)"
      by (simp add: receive_turn_def 1(1) s)
    moreover have "flowing (ch1\<lparr>ch_incoming := []\<rparr>)" "arriving (ch1\<lparr>ch_incoming := []\<rparr>) = rest"
      using less.prems(3) s n by (simp_all add: flowing_def arriving_def)
    moreover have "in_time end_time m (ch1\<lparr>ch_incoming := []\<rparr>)" if "in_time end_time (Suc ?k + m) ch" for m
    proof -
      have "in_time end_time m ch1" by (rule later, rule in_time_mono [OF that]) simp
      then show ?thesis by (simp add: in_time_def)
    qed
    ultimately show ?thesis
      by (intro exI [of _ "ch1\<lparr>ch_incoming := []\<rparr>"]) (simp add: receive.simps [of M describe_error end_time ch])
  next
    fix target
    assume n: "needed (ch_incoming ch) = NeedTotal target" "length (ch_incoming ch) < target"
      "target \<le> length (frame_of payload)"
    have "arriving ch1 \<noteq> []" using whole n s by (metis append_Nil2 length_append le_add1 le_trans not_le)
    moreover have "flowing ch1" using less.prems(3) s by (simp add: flowing_def)
    ultimately obtain bs ch2 where 2: "next_read (min 4096 (target - length (ch_incoming ch))) ch1 = (Arrived bs, ch2)"
      "bs \<noteq> []" "flowing ch2"
      using next_read_flowing [of ch1 "min 4096 (target - length (ch_incoming ch))"] n by auto
    note r = next_read_outcome [OF 2(1)]
    let ?ch3 = "ch2\<lparr>ch_incoming := ch_incoming ch2 @ bs\<rparr>"
    have again: "receive_turn M describe_error end_time ch = Again ?ch3"
      using 1(1) n 2 s by (simp add: receive_turn_def)
    note keeps = receive_turn_keeps [OF again less.prems(2)]
    have len: "length (ch_incoming ?ch3) = length (ch_incoming ch) + length bs" using r s by simp
    have lt: "length (frame_of payload) - length (ch_incoming ?ch3) < ?k" 
    proof -
      have "0 < length bs" using 2(2) by simp
      then show ?thesis using len n by linarith
    qed
    have it: "in_time end_time m ?ch3" if "in_time end_time (Suc m) ch" for m
      using later [OF that] r by (simp add: in_time_def)
    have "in_time end_time (Suc (length (frame_of payload) - length (ch_incoming ?ch3))) ?ch3"
      using it [of ?k] less.prems(4) lt by (meson in_time_mono Suc_leI)
    moreover have "flowing ?ch3" using 2(3) by (simp add: flowing_def)
    moreover have "unread ?ch3 = frame_of payload @ rest" "well_held (ch_incoming ?ch3)"
      using keeps less.prems(1) by simp_all
    ultimately have "\<exists>ch'. receive M describe_error end_time ?ch3 =
        (map_err (\<lambda>e. IoError InvalidData None (describe_error e)) (decode_reply M payload), ch') \<and>
      ch_incoming ch' = [] \<and> arriving ch' = rest \<and> flowing ch' \<and>
      (\<forall>m. in_time end_time (Suc (length (frame_of payload) - length (ch_incoming ?ch3)) + m) ?ch3 \<longrightarrow> in_time end_time m ch')"
      by (intro less.hyps [OF lt])
    then obtain ch' where 3: "receive M describe_error end_time ?ch3 =
        (map_err (\<lambda>e. IoError InvalidData None (describe_error e)) (decode_reply M payload), ch')"
      "ch_incoming ch' = []" "arriving ch' = rest" "flowing ch'"
      "\<forall>m. in_time end_time (Suc (length (frame_of payload) - length (ch_incoming ?ch3)) + m) ?ch3 \<longrightarrow> in_time end_time m ch'"
      by blast
    have "in_time end_time m ch'" if "in_time end_time (Suc ?k + m) ch" for m
      by (rule 3(5) [rule_format], rule it, rule in_time_mono [OF that]) (use lt in simp)
    then show ?thesis using 3 again
      by (intro exI [of _ ch']) (simp add: receive.simps [of M describe_error end_time ch])
  qed
qed

end
