(* ===== verification/ClientCore.thy ===== *)
theory ClientCore
  imports Channel Config "HOL-Library.Sublist"
begin

text \<open>
  Changing what the machine trusts (\<open>trust-client-core/src/lib.rs\<close>): requests to the daemon over
  its socket, and additions, removals, distrusts and restores in the registry.

  The registry is the crate \<open>peios::registry\<close>. Its writing side is the record \<open>registry_api\<close> over
  a type \<open>'k\<close> of open keys and a type \<open>'s\<close> of registry states, passed through; \<open>reg_view\<close> is what the
  reading operations of \<open>Config\<close> answer in a state. What opening the daemon's socket comes to is an
  \<open>endpoint\<close>; the clock, the program's own token and the files named are arguments.
\<close>

section \<open>Errors\<close>

datatype client_error = Denied string | Absent string | Failed string

definition em_dash :: string where
  "em_dash = [CHR 0xE2, CHR 0x80, CHR 0x94]"

fun client_error_text :: "client_error \<Rightarrow> string" where
  "client_error_text (Denied what) =
     ''not permitted to change '' @ what @ '' '' @ em_dash @
     '' changing what this machine trusts is governed by that key's descriptor''"
| "client_error_text (Absent why) = why"
| "client_error_text (Failed why) = why"

definition registry_error :: "string \<Rightarrow> io_error \<Rightarrow> client_error" where
  "registry_error path e =
     (if io_kind e = PermissionDenied then Denied path else Failed (path @ '': '' @ io_text e))"

section \<open>The socket\<close>

record endpoint =
  ep_latest :: nat
  ep_now :: nat
  ep_connection :: connection

definition SOCKET_PATH :: string where
  "SOCKET_PATH = ''/run/trustd/trust.sock''"

lemma receive_clock:
  "receive M describe_error end_time ch = (Inr reply, ch') \<Longrightarrow> length (ch_clock ch') < length (ch_clock ch)"
proof (induction M describe_error end_time ch arbitrary: ch' rule: receive.induct)
  case (1 M describe_error end_time ch)
  show ?case
  proof (cases "receive_turn M describe_error end_time ch")
    case (Done d)
    then have "receive_turn M describe_error end_time ch = Done (Inr reply, ch')"
      using 1(2) by (simp add: receive.simps [of M describe_error end_time ch])
    then show ?thesis
      by (auto simp: receive_turn_def split: sum.splits prod.splits need.splits arrival.splits if_splits
          dest!: remaining_time_outcome next_read_outcome wait_for_same)
  next
    case (Again ch1)
    then show ?thesis using 1 receive_turn_Again [OF Again]
      by (fastforce simp: receive.simps [of M describe_error end_time ch])
  qed
qed

text \<open>
  \<open>bounded_call\<close>'s loop: replies until one does not announce more. \<open>None\<close> is the panic of a reply
  that does not encode again.
\<close>

function call_turns ::
  "('r, 'e) msgpack \<Rightarrow> ('e wire_error \<Rightarrow> string) \<Rightarrow> nat \<Rightarrow> Reply list \<Rightarrow> nat \<Rightarrow> channel \<Rightarrow>
   (io_error + Reply list) option" where
  "call_turns M describe_error end_time replies total_bytes ch =
     (case receive M describe_error end_time ch of
        (Inl e, ch') \<Rightarrow> Some (Inl e)
      | (Inr reply, ch') \<Rightarrow>
          (case encode_reply M reply of
             None \<Rightarrow> None
           | Some payload \<Rightarrow>
               if 16 * 1024 * 1024 < total_bytes + length payload
               then Some (Inl (invalid_input ''trust snapshot exceeds 16 MiB''))
               else if is_more reply
               then call_turns M describe_error end_time (replies @ [reply]) (total_bytes + length payload) ch'
               else Some (Inr (replies @ [reply]))))"
  by pat_completeness auto
termination
  by (relation "measure (\<lambda>(_, _, _, _, _, ch). length (ch_clock ch))") (auto dest!: receive_clock [OF sym])

declare call_turns.simps [simp del]

definition bounded_call ::
  "('r, 'e) msgpack \<Rightarrow> ('e wire_error \<Rightarrow> string) \<Rightarrow> endpoint \<Rightarrow> Request \<Rightarrow> (io_error + Reply list) option" where
  "bounded_call M describe_error ep request =
     (case deadline (ep_latest ep) (ep_now ep) 10000 of
        Inl e \<Rightarrow> Some (Inl e)
      | Inr end_time \<Rightarrow>
          (case connect (as_bytes SOCKET_PATH) end_time (ep_connection ep) of
             Inl e \<Rightarrow> Some (Inl e)
           | Inr ch \<Rightarrow>
               (case send_request M end_time request ch of
                  None \<Rightarrow> None
                | Some (Inl e, ch) \<Rightarrow> Some (Inl e)
                | Some (Inr _, ch) \<Rightarrow> call_turns M describe_error end_time [] 0 ch)))"

definition client_call ::
  "('r, 'e) msgpack \<Rightarrow> ('e wire_error \<Rightarrow> string) \<Rightarrow> endpoint \<Rightarrow> Request \<Rightarrow> (client_error + Reply list) option" where
  "client_call M describe_error ep request =
     map_option (map_err (\<lambda>e. Failed (io_text e))) (bounded_call M describe_error ep request)"

definition core_roots ::
  "('r, 'e) msgpack \<Rightarrow> ('e wire_error \<Rightarrow> string) \<Rightarrow> endpoint \<Rightarrow> bool \<Rightarrow> string option \<Rightarrow>
   (client_error + root list) option" where
  "core_roots M describe_error ep with_der purpose =
     Option.bind (client_call M describe_error ep (ReqRoots with_der purpose)) (\<lambda>replies.
       case replies of
         Inl e \<Rightarrow> Some (Inl e)
       | Inr replies \<Rightarrow> map_option (\<lambda>r. map_err Failed (bindE r (\<lambda>(_, roots). Inr roots))) (roots_of replies))"

definition core_status ::
  "('r, 'e) msgpack \<Rightarrow> ('e wire_error \<Rightarrow> string) \<Rightarrow> endpoint \<Rightarrow> (client_error + status) option" where
  "core_status M describe_error ep =
     map_option (\<lambda>replies. bindE replies (\<lambda>replies.
       case replies of
         ReplyStatus status # _ \<Rightarrow> Inr status
       | ReplyError e # _ \<Rightarrow> Inl (Failed e)
       | _ \<Rightarrow> Inl (Failed ''trustd sent an unexpected reply'')))
     (client_call M describe_error ep ReqStatus)"

definition core_reload ::
  "('r, 'e) msgpack \<Rightarrow> ('e wire_error \<Rightarrow> string) \<Rightarrow> endpoint \<Rightarrow> (client_error + unit) option" where
  "core_reload M describe_error ep =
     map_option (\<lambda>replies. bindE replies (\<lambda>replies.
       case replies of
         ReplyOk # _ \<Rightarrow> Inr ()
       | ReplyError e # _ \<Rightarrow> Inl (Failed e)
       | _ \<Rightarrow> Inl (Failed ''trustd sent an unexpected reply'')))
     (client_call M describe_error ep ReqReload)"

section \<open>The registry\<close>

datatype key_access = QueryValue | SetValue | CreateSubKey | EnumerateSubKeys | DeleteAccess

definition ACCESS :: "key_access list" where
  "ACCESS = [QueryValue, SetValue, CreateSubKey, EnumerateSubKeys]"

record ('k, 's) registry_api =
  reg_view :: "'s \<Rightarrow> 'k registry"
  create_with :: "key_access list \<Rightarrow> 'k option \<Rightarrow> string \<Rightarrow> 's \<Rightarrow> (io_error + 'k) \<times> 's"
  open_with :: "key_access list \<Rightarrow> 'k option \<Rightarrow> string \<Rightarrow> 's \<Rightarrow> io_error + 'k"
  list_values :: "'k \<Rightarrow> 's \<Rightarrow> (io_error + bytes \<times> bytes) list"
  set_value :: "'k \<Rightarrow> string \<Rightarrow> value_type \<Rightarrow> bytes \<Rightarrow> 's \<Rightarrow> (io_error + unit) \<times> 's"
  delete_value :: "'k \<Rightarrow> string \<Rightarrow> 's \<Rightarrow> (io_error + unit) \<times> 's"
  delete_key :: "'k \<Rightarrow> 's \<Rightarrow> (io_error + unit) \<times> 's"

text \<open>The \<open>?\<close> operator over a registry state.\<close>

definition thenR :: "(client_error + 'a) \<times> 's \<Rightarrow> ('a \<Rightarrow> 's \<Rightarrow> (client_error + 'b) \<times> 's) \<Rightarrow> (client_error + 'b) \<times> 's" where
  "thenR m f = (case m of (Inl e, s) \<Rightarrow> (Inl e, s) | (Inr a, s) \<Rightarrow> f a s)"

definition shownR :: "string \<Rightarrow> (io_error + 'a) \<times> 's \<Rightarrow> (client_error + 'a) \<times> 's" where
  "shownR shown m = (map_err (registry_error shown) (fst m), snd m)"

definition TRUST_KEY :: string where
  "TRUST_KEY = ''Machine'' @ backslash # ''System'' @ backslash # ''Trust''"

definition CERTIFICATES_KEY :: string where
  "CERTIFICATES_KEY = TRUST_KEY @ backslash # ''Certificates''"

definition ADD_KEY :: string where "ADD_KEY = ''Add''"

definition DISTRUST_KEY :: string where "DISTRUST_KEY = ''Distrust''"

definition CERTIFICATE_VALUE :: string where "CERTIFICATE_VALUE = ''Certificate''"

definition PURPOSES_VALUE :: string where "PURPOSES_VALUE = ''Purposes''"

definition COMPAT_VALUE :: string where "COMPAT_VALUE = ''GenerateLinuxTrustFiles''"

definition CONTROL_SECURITY_VALUE :: string where "CONTROL_SECURITY_VALUE = ''ControlSecurity''"

definition open_or_create ::
  "('k, 's) registry_api \<Rightarrow> 'k option \<Rightarrow> string \<Rightarrow> string \<Rightarrow> 's \<Rightarrow> (client_error + 'k) \<times> 's" where
  "open_or_create W parent path shown s = shownR shown (create_with W ACCESS parent path s)"

definition certificates :: "('k, 's) registry_api \<Rightarrow> string \<Rightarrow> 's \<Rightarrow> (client_error + 'k) \<times> 's" where
  "certificates W which s =
     thenR (open_or_create W None CERTIFICATES_KEY CERTIFICATES_KEY s) (\<lambda>certificates s.
       open_or_create W (Some certificates) which (CERTIFICATES_KEY @ backslash # which) s)"

text \<open>Whether the daemon would reload for this program, whose token is \<open>own\<close>; \<open>None\<close> is the panic
  of a default descriptor that does not build.\<close>

definition may_reload ::
  "('k, 's) registry_api \<Rightarrow> ('sd, 'tok, 'conn) security \<Rightarrow> 'tok \<Rightarrow> 's \<Rightarrow> bool option" where
  "may_reload W S own s =
     (let configured =
        (case open_with W [QueryValue] None TRUST_KEY s of
           Inl _ \<Rightarrow> None
         | Inr key \<Rightarrow>
             (case query_value (reg_view W s) key CONTROL_SECURITY_VALUE of
                Inl _ \<Rightarrow> None
              | Inr v \<Rightarrow> validated S (v_data v)))
      in map_option (\<lambda>sd. case access_check S sd TRUST_CONTROL own of Some allowed \<Rightarrow> allowed | None \<Rightarrow> False)
           (case configured of Some sd \<Rightarrow> Some sd | None \<Rightarrow> default_sd S))"

definition may_change :: "('k, 's) registry_api \<Rightarrow> 's \<Rightarrow> client_error + unit" where
  "may_change W s =
     (case open_with W [SetValue, CreateSubKey] None CERTIFICATES_KEY s of
        Inr _ \<Rightarrow> Inr ()
      | Inl e \<Rightarrow>
          if io_kind e = NotFound then
            (case open_with W [CreateSubKey] None TRUST_KEY s of
               Inr _ \<Rightarrow> Inr ()
             | Inl e \<Rightarrow> Inl (registry_error TRUST_KEY e))
          else Inl (registry_error CERTIFICATES_KEY e))"

definition may_set_compat :: "('k, 's) registry_api \<Rightarrow> 's \<Rightarrow> client_error + unit" where
  "may_set_compat W s =
     (case open_with W [SetValue] None TRUST_KEY s of
        Inr _ \<Rightarrow> Inr ()
      | Inl e \<Rightarrow> Inl (registry_error TRUST_KEY e))"

definition set_compat :: "('k, 's) registry_api \<Rightarrow> u32 \<Rightarrow> 's \<Rightarrow> (client_error + unit) \<times> 's" where
  "set_compat W mode s =
     (case open_with W [SetValue] None TRUST_KEY s of
        Inl e \<Rightarrow> (Inl (registry_error TRUST_KEY e), s)
      | Inr key \<Rightarrow>
          shownR TRUST_KEY (set_value W key COMPAT_VALUE REG_DWORD (le_bytes 4 (unat mode)) s))"

section \<open>Additions\<close>

definition certificate_of :: "bytes \<Rightarrow> string \<Rightarrow> client_error + bytes" where
  "certificate_of bs what =
     (if utf8 (from_bytes bs) then
        (case from_pem (from_bytes bs) of
           [] \<Rightarrow> Inr bs
         | [one] \<Rightarrow> Inr one
         | several \<Rightarrow> Inl (Failed (what @ '' holds '' @ dec_str (length several) @
             '' certificates; add them one at a time'')))
      else Inr bs)"

definition usable_name :: "string \<Rightarrow> bool" where
  "usable_name name \<longleftrightarrow> trim name \<noteq> [] \<and> backslash \<notin> set name \<and> CHR ''/'' \<notin> set name"

definition vet :: "lib \<Rightarrow> int option \<Rightarrow> bytes \<Rightarrow> cert_error + parsed" where
  "vet L now bs = parse L bs now"

text \<open>The \<open>REG_MULTI_SZ\<close> of a list of purposes.\<close>

definition purposes_data :: "string list \<Rightarrow> bytes" where
  "purposes_data purposes = concat (map (\<lambda>p. as_bytes p @ [0]) purposes) @ [0]"

definition add ::
  "('k, 's) registry_api \<Rightarrow> lib \<Rightarrow> (string \<Rightarrow> string) \<Rightarrow> int option \<Rightarrow> string \<Rightarrow> bytes \<Rightarrow> string list \<Rightarrow> 's \<Rightarrow>
   (client_error + parsed) \<times> 's" where
  "add W L debug now name bs purposes s =
     (if \<not> usable_name name then (Inl (Failed (debug name @ '' is not a usable name'')), s)
      else case vet L now bs of
        Inl e \<Rightarrow> (Inl (Failed (''the certificate is '' @ cert_error_text e)), s)
      | Inr parsed \<Rightarrow>
          let shown = CERTIFICATES_KEY @ backslash # ADD_KEY @ backslash # name
          in thenR (certificates W ADD_KEY s) (\<lambda>add s.
             thenR (open_or_create W (Some add) name shown s) (\<lambda>entry s.
             thenR (if purposes = [] then (Inr (), s)
                    else shownR shown (set_value W entry PURPOSES_VALUE REG_MULTI_SZ (purposes_data purposes) s))
               (\<lambda>_ s.
             thenR (shownR shown (set_value W entry CERTIFICATE_VALUE REG_BINARY bs s)) (\<lambda>_ s.
             (Inr parsed, s))))))"

definition remove_addition :: "('k, 's) registry_api \<Rightarrow> string \<Rightarrow> 's \<Rightarrow> (client_error + unit) \<times> 's" where
  "remove_addition W name s =
     (let shown = CERTIFICATES_KEY @ backslash # ADD_KEY @ backslash # name
      in case open_with W [EnumerateSubKeys] None (CERTIFICATES_KEY @ backslash # ADD_KEY) s of
           Inl _ \<Rightarrow> (Inl (Absent (''no addition named '' @ name)), s)
         | Inr parent \<Rightarrow>
             (case open_with W [DeleteAccess] (Some parent) name s of
                Inl e \<Rightarrow>
                  if io_kind e = NotFound then (Inl (Absent (''no addition named '' @ name)), s)
                  else (Inl (registry_error shown e), s)
              | Inr entry \<Rightarrow> shownR shown (delete_key W entry s)))"

section \<open>Distrusts\<close>

record distrusted =
  x_fingerprint :: string
  x_reason :: string

text \<open>
  \<open>String::from_utf8_lossy\<close>: a maximal piece that starts no character becomes U+FFFD. How long the
  piece at the front is that a decoder takes or gives up on, and whether it is a character.
\<close>

fun piece :: "string \<Rightarrow> nat \<times> bool" where
  "piece [] = (0, False)"
| "piece (a # s) =
     (if ord a < 0x80 then (1, True)
      else if ord a < 0xC2 \<or> 0xF4 < ord a then (1, False)
      else case s of
        [] \<Rightarrow> (1, False)
      | b # s \<Rightarrow>
          if \<not> continuation b \<or> (ord a = 0xE0 \<and> ord b < 0xA0) \<or> (ord a = 0xED \<and> 0xA0 \<le> ord b) \<or>
             (ord a = 0xF0 \<and> ord b < 0x90) \<or> (ord a = 0xF4 \<and> 0x90 \<le> ord b)
          then (1, False)
          else if ord a < 0xE0 then (2, True)
          else case s of
            [] \<Rightarrow> (2, False)
          | c # s \<Rightarrow>
              if \<not> continuation c then (2, False)
              else if ord a < 0xF0 then (3, True)
              else case s of
                [] \<Rightarrow> (3, False)
              | d # s \<Rightarrow> if continuation d then (4, True) else (3, False))"

lemma piece_positive: "piece s = (n, good) \<Longrightarrow> s \<noteq> [] \<Longrightarrow> 0 < n"
  by (cases s) (auto split: list.splits if_splits)

function utf8_lossy :: "string \<Rightarrow> string" where
  "utf8_lossy s =
     (if s = [] then []
      else let (n, good) = piece s
           in (if good then take n s else [CHR 0xEF, CHR 0xBF, CHR 0xBD]) @ utf8_lossy (drop n s))"
  by pat_completeness auto
termination
  by (relation "measure length") (use piece_positive in \<open>auto dest: sym\<close>)

declare utf8_lossy.simps [simp del]

definition distrusted_of :: "io_error + bytes \<times> bytes \<Rightarrow> distrusted option" where
  "distrusted_of v =
     (case v of
        Inl _ \<Rightarrow> None
      | Inr (name, data) \<Rightarrow>
          if utf8 (from_bytes name)
          then Some \<lparr>x_fingerprint = normalise_fingerprint (from_bytes name),
                 x_reason = utf8_lossy (from_bytes (takeWhile (\<lambda>b. b \<noteq> 0) data))\<rparr>
          else None)"

definition get_distrusted :: "('k, 's) registry_api \<Rightarrow> 's \<Rightarrow> client_error + distrusted list" where
  "get_distrusted W s =
     (let path = CERTIFICATES_KEY @ backslash # DISTRUST_KEY
      in case open_with W [QueryValue] None path s of
           Inl e \<Rightarrow>
             if io_kind e = NotFound then Inr [] else Inl (Failed (path @ '': '' @ io_text e))
         | Inr key \<Rightarrow>
             Inr (sort_key x_fingerprint (List.map_filter distrusted_of (list_values W key s))))"

definition hex :: "string \<Rightarrow> bool" where
  "hex t \<longleftrightarrow> t \<noteq> [] \<and> list_all is_ascii_hexdigit t"

definition fingerprint_among :: "string \<Rightarrow> string list \<Rightarrow> client_error + string" where
  "fingerprint_among t fingerprints =
     (let normalised = normalise_fingerprint t
      in if \<not> hex normalised \<or> 64 < length normalised
         then Inl (Failed (t @ '' is not a SHA-256 fingerprint''))
         else if length normalised = 64 then Inr normalised
         else if length normalised < 8
         then Inl (Failed (normalised @ '' is too short; give at least eight digits''))
         else (case filter (\<lambda>fp. prefix normalised fp) fingerprints of
             [fp] \<Rightarrow> Inr fp
           | [] \<Rightarrow> Inl (Absent (''no certificate in the store starts with '' @ normalised @ '' '' @ em_dash @
               '' give the whole fingerprint if you mean one the store does not have''))
           | several \<Rightarrow> Inl (Failed (normalised @ '' matches '' @ dec_str (length several) @
               '' certificates; be more specific''))))"

definition fingerprint_in :: "string \<Rightarrow> root list \<Rightarrow> client_error + string" where
  "fingerprint_in t roots = fingerprint_among t (map r_fingerprint roots)"

text \<open>\<open>read_file\<close> is \<open>fs::read\<close>; \<open>None\<close> is a panic in the call to the daemon.\<close>

definition resolve ::
  "('r, 'e) msgpack \<Rightarrow> ('e wire_error \<Rightarrow> string) \<Rightarrow> endpoint \<Rightarrow> lib \<Rightarrow> (string \<Rightarrow> io_error + bytes) \<Rightarrow> string \<Rightarrow>
   (client_error + string) option" where
  "resolve M describe_error ep L read_file argument =
     (let normalised = normalise_fingerprint argument
      in if hex normalised \<and> length normalised = 64 then Some (Inr normalised)
         else if hex normalised \<and> 8 \<le> length normalised
         then map_option (\<lambda>r. bindE r (fingerprint_in argument)) (core_roots M describe_error ep False None)
         else Some (bindE (map_err (\<lambda>e. Failed (argument @ '': '' @ io_text e)) (read_file argument)) (\<lambda>bs.
              bindE (certificate_of bs argument) (\<lambda>cert.
              bindE (map_err (\<lambda>e. Failed (argument @ '' is neither a SHA-256 fingerprint nor a certificate ('' @
                  cert_error_text e @ '')'')) (parse L cert None)) (\<lambda>parsed.
              Inr (fingerprint parsed))))))"

definition distrust ::
  "('k, 's) registry_api \<Rightarrow> ('r, 'e) msgpack \<Rightarrow> ('e wire_error \<Rightarrow> string) \<Rightarrow> endpoint \<Rightarrow> string \<Rightarrow> string \<Rightarrow> 's \<Rightarrow>
   ((client_error + string option) \<times> 's) option" where
  "distrust W M describe_error ep fp reason s =
     (let fp = normalise_fingerprint fp
      in if \<not> hex fp \<or> length fp \<noteq> 64
         then Some (Inl (Failed (fp @ '' is not a whole SHA-256 fingerprint'')), s)
         else case certificates W DISTRUST_KEY s of
           (Inl e, s) \<Rightarrow> Some (Inl e, s)
         | (Inr key, s) \<Rightarrow>
             map_option (\<lambda>answer.
               let was = (case answer of
                     Inl _ \<Rightarrow> None
                   | Inr roots \<Rightarrow> map_option r_subject (find (\<lambda>r. r_fingerprint r = fp) roots))
               in thenR (shownR (CERTIFICATES_KEY @ backslash # DISTRUST_KEY)
                    (set_value W key fp REG_SZ (as_bytes reason @ [0]) s)) (\<lambda>_ s.
                  (Inr was, s)))
             (core_roots M describe_error ep False None))"

definition restore_named :: "('k, 's) registry_api \<Rightarrow> string \<Rightarrow> 's \<Rightarrow> client_error + string" where
  "restore_named W argument s =
     (let normalised = normalise_fingerprint argument
      in if length normalised = 64 then Inr normalised
         else bindE (get_distrusted W s) (\<lambda>entries.
           case filter (\<lambda>d. prefix normalised (x_fingerprint d)) entries of
             [d] \<Rightarrow> Inr (x_fingerprint d)
           | [] \<Rightarrow> Inl (Absent (''nothing distrusted starts with '' @ normalised))
           | several \<Rightarrow> Inl (Failed (normalised @ '' matches '' @ dec_str (length several) @
               '' distrust entries; be more specific''))))"

definition restore :: "('k, 's) registry_api \<Rightarrow> string \<Rightarrow> 's \<Rightarrow> (client_error + string) \<times> 's" where
  "restore W argument s =
     (case restore_named W argument s of
        Inl e \<Rightarrow> (Inl e, s)
      | Inr fp \<Rightarrow>
          let path = CERTIFICATES_KEY @ backslash # DISTRUST_KEY
          in case open_with W [SetValue] None path s of
               Inl e \<Rightarrow> (Inl (if io_kind e = NotFound then Absent (fp @ '' is not distrusted'')
                   else registry_error path e), s)
             | Inr key \<Rightarrow>
                 (case delete_value W key fp s of
                    (Inr _, s) \<Rightarrow> (Inr fp, s)
                  | (Inl e, s) \<Rightarrow> (Inl (if io_kind e = NotFound then Absent (fp @ '' is not distrusted'')
                      else registry_error path e), s)))"

end
