(* ===== verification/RegistryTree.thy ===== *)
theory RegistryTree
  imports ClientCore
begin

text \<open>
  What the client and the daemon rely on of the registry between them. \<open>peios::registry\<close> is a
  tree of keys with named values; \<open>content\<close> is that tree in a state and \<open>path\<close> the key a handle is
  open on. \<open>truthful_view\<close> says what the reading operations answer, \<open>truthful_writes\<close> what a
  successful write leaves, and that a failing one leaves the tree alone. With them, what \<open>load\<close>
  makes of a state is a function of its tree (\<open>loaded_distrust\<close>, \<open>loaded_additions\<close>). At the end,
  a registry that satisfies them.
\<close>

section \<open>The tree\<close>

type_synonym valueset = "string \<Rightarrow> reg_value option"

type_synonym tree = "string list \<Rightarrow> valueset option"

abbreviation components :: "string \<Rightarrow> string list" where
  "components n \<equiv> split_at (\<lambda>c. c = backslash) n"

definition key_path :: "('k \<Rightarrow> string list) \<Rightarrow> 'k option \<Rightarrow> string \<Rightarrow> string list" where
  "key_path path parent n = (case parent of None \<Rightarrow> [] | Some k \<Rightarrow> path k) @ components n"

text \<open>The tree with a key and the keys above it.\<close>

definition grown :: "tree \<Rightarrow> string list \<Rightarrow> tree" where
  "grown c q = (\<lambda>r. if r \<noteq> [] \<and> prefix r q \<and> c r = None then Some Map.empty else c r)"

definition truthful_view :: "('k, 's) registry_api \<Rightarrow> ('s \<Rightarrow> tree) \<Rightarrow> ('k \<Rightarrow> string list) \<Rightarrow> bool" where
  "truthful_view W content path \<longleftrightarrow>
     (\<forall>s p n. case open_key (reg_view W s) p n of
        Inr k \<Rightarrow> path k = key_path path p n \<and> content s (path k) \<noteq> None
      | Inl e \<Rightarrow> io_kind e = NotFound \<longrightarrow> content s (key_path path p n) = None) \<and>
     (\<forall>s k n. case query_value (reg_view W s) k n of
        Inr v \<Rightarrow> (\<exists>vs. content s (path k) = Some vs \<and> vs n = Some v)
      | Inl e \<Rightarrow> io_kind e = NotFound \<longrightarrow> (\<forall>vs. content s (path k) = Some vs \<longrightarrow> vs n = None)) \<and>
     (\<forall>s k names. query_values (reg_view W s) k = Inr names \<longrightarrow>
        (\<exists>vs. content s (path k) = Some vs \<and> from_bytes ` set names = dom vs)) \<and>
     (\<forall>s k names. read_names (reg_view W s) k = Inr names \<longrightarrow>
        distinct names \<and> from_bytes ` set names = {n. backslash \<notin> set n \<and> content s (path k @ [n]) \<noteq> None})"

definition truthful_writes :: "('k, 's) registry_api \<Rightarrow> ('s \<Rightarrow> tree) \<Rightarrow> ('k \<Rightarrow> string list) \<Rightarrow> bool" where
  "truthful_writes W content path \<longleftrightarrow>
     (\<forall>a s p n. case create_with W a p n s of
        (Inr k, s') \<Rightarrow> path k = key_path path p n \<and> content s' = grown (content s) (path k)
      | (Inl e, s') \<Rightarrow> content s' = content s) \<and>
     (\<forall>a s p n. case open_with W a p n s of
        Inr k \<Rightarrow> path k = key_path path p n \<and> content s (path k) \<noteq> None
      | Inl e \<Rightarrow> io_kind e = NotFound \<longrightarrow> content s (key_path path p n) = None) \<and>
     (\<forall>k n ty d s. case set_value W k n ty d s of
        (Inr _, s') \<Rightarrow> (\<exists>vs. content s (path k) = Some vs \<and>
           content s' = (content s)(path k \<mapsto> vs(n \<mapsto> \<lparr>v_type = ty, v_data = d\<rparr>)))
      | (Inl e, s') \<Rightarrow> content s' = content s) \<and>
     (\<forall>k n s. case delete_value W k n s of
        (Inr _, s') \<Rightarrow> (\<exists>vs. content s (path k) = Some vs \<and> vs n \<noteq> None \<and>
           content s' = (content s)(path k \<mapsto> vs(n := None)))
      | (Inl e, s') \<Rightarrow> content s' = content s) \<and>
     (\<forall>k s. case delete_key W k s of
        (Inr _, s') \<Rightarrow> content s (path k) \<noteq> None \<and> content s' = (content s)(path k := None)
      | (Inl e, s') \<Rightarrow> content s' = content s)"

definition trust_path :: "string list" where
  "trust_path = [''Machine'', ''System'', ''Trust'']"

definition certificates_path :: "string list" where
  "certificates_path = [''Machine'', ''System'', ''Trust'', ''Certificates'']"

definition add_path :: "string list" where
  "add_path = [''Machine'', ''System'', ''Trust'', ''Certificates'', ''Add'']"

definition distrust_path :: "string list" where
  "distrust_path = [''Machine'', ''System'', ''Trust'', ''Certificates'', ''Distrust'']"

named_theorems paths

lemma components_step:
  "backslash \<notin> set a \<Longrightarrow> components (a @ backslash # b) = a # components b"
  by (induction a) auto

lemma components_plain: "backslash \<notin> set n \<Longrightarrow> components n = [n]"
  by (induction n) auto

lemma components_of_keys [paths]:
  "components TRUST_KEY = trust_path"
  "components CERTIFICATES_KEY = certificates_path"
  "components (CERTIFICATES_KEY @ backslash # ADD_KEY) = add_path"
  "components (CERTIFICATES_KEY @ backslash # DISTRUST_KEY) = distrust_path"
  "components ''Certificates'' = [''Certificates'']"
  "components ADD_KEY = [''Add'']"
  "components DISTRUST_KEY = [''Distrust'']"
  "components ''Add'' = [''Add'']"
  "components ''Distrust'' = [''Distrust'']"
  by (simp_all add: TRUST_KEY_def CERTIFICATES_KEY_def ADD_KEY_def DISTRUST_KEY_def trust_path_def
      certificates_path_def add_path_def distrust_path_def components_step components_plain
      append_assoc append_Cons [of backslash] del: split_at.simps append.simps)

lemma path_steps [paths]:
  "trust_path @ [''Certificates''] = certificates_path"
  "certificates_path @ [''Add''] = add_path" "certificates_path @ [''Distrust''] = distrust_path"
  by (simp_all add: trust_path_def certificates_path_def add_path_def distrust_path_def)

lemma bytes_image: "from_bytes ` A = B \<Longrightarrow> A = as_bytes ` B"
  by (auto simp: image_image)

lemma grown_keeps: "c r = Some vs \<Longrightarrow> grown c q r = Some vs"
  by (simp add: grown_def)

lemma grown_has: "r \<noteq> [] \<Longrightarrow> prefix r q \<Longrightarrow> grown c q r \<noteq> None"
  by (simp add: grown_def)

section \<open>What a load makes of a tree\<close>

lemma read_child:
  assumes "truthful_view W content path"
    and "open_child (reg_view W s) p n = Inr r" and "content s (key_path path p n) \<noteq> None"
  shows "\<exists>k. r = Some k \<and> path k = key_path path p n"
proof -
  have "case open_key (reg_view W s) p n of
        Inr k \<Rightarrow> path k = key_path path p n \<and> content s (path k) \<noteq> None
      | Inl e \<Rightarrow> io_kind e = NotFound \<longrightarrow> content s (key_path path p n) = None"
    using assms(1) by (simp add: truthful_view_def)
  then show ?thesis using assms(2,3)
    by (auto simp: open_child_def optional_def split: sum.splits if_splits)
qed

lemma read_child_found:
  assumes "truthful_view W content path" and "open_child (reg_view W s) p n = Inr r"
  shows "\<forall>k. r = Some k \<longrightarrow> path k = key_path path p n \<and> content s (path k) \<noteq> None"
proof -
  have "case open_key (reg_view W s) p n of
        Inr k \<Rightarrow> path k = key_path path p n \<and> content s (path k) \<noteq> None
      | Inl e \<Rightarrow> io_kind e = NotFound \<longrightarrow> content s (key_path path p n) = None"
    using assms(1) by (simp add: truthful_view_def)
  then show ?thesis using assms(2)
    by (auto simp: open_child_def optional_def split: sum.splits if_splits)
qed

lemma load_certificates:
  assumes "truthful_view W content path" and "load (reg_view W s) = Inr c"
    and "content s trust_path \<noteq> None" and "content s certificates_path \<noteq> None"
  shows "\<exists>k additions distrust. path k = certificates_path \<and>
    load_additions (reg_view W s) k = Inr additions \<and> load_distrust (reg_view W s) k = Inr distrust \<and>
    g_additions c = sort_key add_name additions \<and> g_distrust c = remdups_adj (sort distrust)"
proof -
  obtain r where r: "open_child (reg_view W s) None TRUST_KEY = Inr r" "load_from (reg_view W s) r = Inr c"
    using assms(2) by (auto simp: load_def conv TRUST_KEY_def)
  then obtain root where root: "r = Some root" "path root = trust_path"
    using read_child [OF assms(1) r(1)] assms(3) by (auto simp: key_path_def paths)
  obtain r' where r': "open_child (reg_view W s) (Some root) ''Certificates'' = Inr r'"
    using r(2) root by (auto simp: load_from_def conv Let_def)
  then obtain k where k: "r' = Some k" "path k = certificates_path"
    using read_child [OF assms(1) r'] assms(4) root by (auto simp: key_path_def paths)
  show ?thesis using r(2) root r' k by (auto simp: load_from_def conv Let_def)
qed

text \<open>The values of a key, none where there is no key.\<close>

definition values_at :: "tree \<Rightarrow> string list \<Rightarrow> valueset" where
  "values_at c q = (case c q of Some vs \<Rightarrow> vs | None \<Rightarrow> Map.empty)"

definition rooted :: "tree \<Rightarrow> bool" where
  "rooted c \<longleftrightarrow> c trust_path \<noteq> None \<and> c certificates_path \<noteq> None"

text \<open>A value name that is a fingerprint, in whatever spelling.\<close>

definition spells :: "string \<Rightarrow> bool" where
  "spells n \<longleftrightarrow> length (normalise_fingerprint n) = 64 \<and> list_all is_ascii_hexdigit (normalise_fingerprint n)"

lemma distrust_entry_spells:
  assumes "distrust_entry (as_bytes n) = Inr r"
  shows "r = (if spells n then Some (normalise_fingerprint n) else None)"
  using assms by (auto simp: distrust_entry_def conv text_of_def spells_def Let_def split: if_splits)

text \<open>The distrusts in force are the fingerprints the values spell.\<close>

lemma loaded_distrust:
  assumes "truthful_view W content path" and "load (reg_view W s) = Inr c" and "rooted (content s)"
  shows "set (g_distrust c) = normalise_fingerprint ` {n \<in> dom (values_at (content s) distrust_path). spells n}"
proof -
  obtain k distrust where k: "path k = certificates_path" "load_distrust (reg_view W s) k = Inr distrust"
    "g_distrust c = remdups_adj (sort distrust)"
    using load_certificates [OF assms(1,2)] assms(3) by (auto simp: rooted_def)
  obtain r where r: "open_child (reg_view W s) (Some k) ''Distrust'' = Inr r"
    using k(2) by (auto simp: load_distrust_def conv)
  show ?thesis
  proof (cases "content s distrust_path")
    case None
    then have "r = None"
      using read_child_found [OF assms(1) r] k(1) by (cases r) (auto simp: key_path_def paths)
    then show ?thesis using k(2,3) r None by (simp add: load_distrust_def values_at_def)
  next
    case (Some vs)
  then obtain d where d: "r = Some d" "path d = distrust_path"
    using read_child [OF assms(1) r] k(1) by (auto simp: key_path_def paths)
  obtain names where n: "query_values (reg_view W s) d = Inr names" "push_all distrust_entry [] names = Inr distrust"
    using k(2) r d by (auto simp: load_distrust_def conv)
  have "from_bytes ` set names = dom vs"
  proof -
    have "\<exists>vs. content s (path d) = Some vs \<and> from_bytes ` set names = dom vs"
      using assms(1) n(1) by (simp add: truthful_view_def)
    then show ?thesis using d(2) Some by auto
  qed
  then have names: "set names = as_bytes ` dom vs" by (rule bytes_image)
  have "set (g_distrust c) = {b. \<exists>x \<in> set names. distrust_entry x = Inr (Some b)}"
    and "\<forall>x \<in> set names. \<exists>b. distrust_entry x = Inr b"
    using push_all_set [OF n(2)] k(3) by auto
  moreover have "distrust_entry (as_bytes n) = Inr (if spells n then Some (normalise_fingerprint n) else None)"
    if "n \<in> dom vs" for n
  proof -
    have "as_bytes n \<in> set names" using that names by simp
    then obtain b where "distrust_entry (as_bytes n) = Inr b" using calculation(2) by blast
    then show ?thesis using distrust_entry_spells by simp
  qed
  ultimately show ?thesis using Some by (auto simp: names values_at_def)
  qed
qed

text \<open>The two values of the trust key itself.\<close>

lemma read_value_tree:
  assumes "truthful_view W content path" and "read_value (reg_view W s) k n = Inr r"
    and "content s (path k) = Some vs"
  shows "r = vs n"
proof -
  have "case query_value (reg_view W s) k n of
        Inr v \<Rightarrow> (\<exists>vs. content s (path k) = Some vs \<and> vs n = Some v)
      | Inl e \<Rightarrow> io_kind e = NotFound \<longrightarrow> (\<forall>vs. content s (path k) = Some vs \<longrightarrow> vs n = None)"
    using assms(1) by (simp add: truthful_view_def)
  then show ?thesis using assms(2,3)
    by (auto simp: read_value_def optional_def split: sum.splits if_splits)
qed

lemma loaded_rest:
  assumes "truthful_view W content path" and "load (reg_view W s) = Inr c" and "rooted (content s)"
  shows "g_compat c = compat_of (values_at (content s) trust_path ''GenerateLinuxTrustFiles'') CompatFiles \<and>
    g_control_security c = security_of (values_at (content s) trust_path ''ControlSecurity'')"
proof -
  obtain r where r: "open_child (reg_view W s) None TRUST_KEY = Inr r" "load_from (reg_view W s) r = Inr c"
    using assms(2) by (auto simp: load_def conv TRUST_KEY_def)
  then obtain root where root: "r = Some root" "path root = trust_path"
    using read_child [OF assms(1) r(1)] assms(3) by (auto simp: key_path_def paths rooted_def)
  obtain vs where vs: "content s (path root) = Some vs" using assms(3) root(2) by (auto simp: rooted_def)
  obtain mode security where v: "read_value (reg_view W s) root ''GenerateLinuxTrustFiles'' = Inr mode"
    "read_value (reg_view W s) root ''ControlSecurity'' = Inr security"
    "g_compat c = compat_of mode CompatFiles" "g_control_security c = security_of security"
    using r(2) root(1) by (auto simp: load_from_def bindE_Inr_iff Let_def config_default_def split: option.splits)
  show ?thesis
    using v(3,4) read_value_tree [OF assms(1) v(1) vs] read_value_tree [OF assms(1) v(2) vs] vs root(2)
    by (simp add: values_at_def)
qed

lemma rest_same:
  assumes "truthful_view W content path" and "load (reg_view W s) = Inr c" and "load (reg_view W s') = Inr c'"
    and "rooted (content s)" and "rooted (content s')"
    and "values_at (content s') trust_path = values_at (content s) trust_path"
  shows "g_compat c' = g_compat c \<and> g_control_security c' = g_control_security c"
  using loaded_rest [OF assms(1,2,4)] loaded_rest [OF assms(1,3,5)] assms(6) by simp

text \<open>An addition's key, if it has a certificate.\<close>

definition purposes_held :: "valueset \<Rightarrow> string list" where
  "purposes_held vs =
     (case vs PURPOSES_VALUE of
        None \<Rightarrow> []
      | Some p \<Rightarrow> (case multi p of Inr (Some ps) \<Rightarrow> ps | _ \<Rightarrow> []))"

definition addition_at :: "valueset \<Rightarrow> string \<Rightarrow> addition option" where
  "addition_at vs n =
     (case vs CERTIFICATE_VALUE of
        None \<Rightarrow> None
      | Some v \<Rightarrow>
          if v_type v \<noteq> REG_BINARY \<or> v_data v = [] then None
          else Some \<lparr>add_name = n, add_der = v_data v, add_purposes = purposes_held vs\<rparr>)"

lemma add_entry_tree:
  assumes "truthful_view W content path" and "add_entry (reg_view W s) k (as_bytes n) = Inr r"
    and "components n = [n]" and "content s (path k @ [n]) = Some vs"
  shows "r = addition_at vs n"
proof -
  obtain o1 where o1: "open_child (reg_view W s) (Some k) n = Inr o1"
    using assms(2) by (auto simp: add_entry_def conv text_of_def split: if_splits)
  then obtain entry where e: "o1 = Some entry" "path entry = path k @ [n]"
    using read_child [OF assms(1) o1] assms(3,4) by (auto simp: key_path_def)
  have vs: "content s (path entry) = Some vs" using e(2) assms(4) by simp
  obtain cv where cv: "read_value (reg_view W s) entry ''Certificate'' = Inr cv"
    using assms(2) o1 e by (auto simp: add_entry_def conv text_of_def split: if_splits)
  have c: "vs CERTIFICATE_VALUE = cv" using read_value_tree [OF assms(1) cv vs] by (simp add: CERTIFICATE_VALUE_def)
  have utf: "text_of (as_bytes n) = Inr n" using assms(2) by (auto simp: add_entry_def conv text_of_def split: if_splits)
  note read = assms(2) [unfolded add_entry_def utf bindE.simps o1 e(1) ok_or.simps cv]
  show ?thesis
  proof (cases "\<exists>v. cv = Some v \<and> v_type v = REG_BINARY \<and> v_data v \<noteq> []")
    case False
    then show ?thesis using read c by (auto simp: addition_at_def split: option.splits if_splits)
  next
    case True
    then obtain v where v: "cv = Some v" "v_type v = REG_BINARY" "v_data v \<noteq> []" by blast
    then obtain ps where ps: "strings (reg_view W s) entry ''Purposes'' = Inr ps"
      and r: "r = Some \<lparr>add_name = n, add_der = v_data v, add_purposes = (case ps of Some ps \<Rightarrow> ps | None \<Rightarrow> [])\<rparr>"
      using read by (auto simp: conv)
    obtain pv where pv: "read_value (reg_view W s) entry ''Purposes'' = Inr pv"
      using ps by (auto simp: strings_def conv)
    have "vs PURPOSES_VALUE = pv" using read_value_tree [OF assms(1) pv vs] by (simp add: PURPOSES_VALUE_def)
    then show ?thesis using r ps pv v c
      by (auto simp: strings_def addition_at_def purposes_held_def split: option.splits)
  qed
qed

text \<open>The additions are the keys with a certificate, in name order, once each.\<close>

lemma add_entry_name: "add_entry R k n = Inr (Some a) \<Longrightarrow> add_name a = from_bytes n"
  by (auto simp: add_entry_def text_of_def bindE_Inr_iff dest!: case_Inr_Some split: if_splits)

lemma push_all_names:
  assumes "\<And>x b. x \<in> set xs \<Longrightarrow> f x = Inr (Some b) \<Longrightarrow> key b = h x"
    and "push_all f out xs = Inr ys" and "distinct (map h xs)" and "distinct (map key out)"
    and "key ` set out \<inter> h ` set xs = {}"
  shows "distinct (map key ys)"
  using assms
proof (induction xs arbitrary: out)
  case Nil
  then show ?case by simp
next
  case (Cons x xs)
  obtain b where b: "f x = Inr b" "push_all f (case b of Some b \<Rightarrow> out @ [b] | None \<Rightarrow> out) xs = Inr ys"
    using Cons.prems(2) by (auto simp: conv)
  show ?case
  proof (rule Cons.IH [OF _ b(2)])
    show "\<And>x b. x \<in> set xs \<Longrightarrow> f x = Inr (Some b) \<Longrightarrow> key b = h x" using Cons.prems(1) by simp
  next
    show "distinct (map h xs)" using Cons.prems(3) by simp
  next
    show "distinct (map key (case b of Some b \<Rightarrow> out @ [b] | None \<Rightarrow> out))"
      using Cons.prems(1) [of x] Cons.prems(4,5) b(1) by (auto split: option.split)
  next
    show "key ` set (case b of Some b \<Rightarrow> out @ [b] | None \<Rightarrow> out) \<inter> h ` set xs = {}"
      using Cons.prems(1) [of x] Cons.prems(3,5) b(1) by (auto split: option.split)
  qed
qed

definition additions_in :: "tree \<Rightarrow> addition set" where
  "additions_in c = {a. \<exists>n. backslash \<notin> set n \<and> addition_at (values_at c (add_path @ [n])) n = Some a}"

definition sprouted :: "tree \<Rightarrow> bool" where
  "sprouted c \<longleftrightarrow> (c add_path = None \<longrightarrow> additions_in c = {})"

lemma addition_at_empty [simp]: "addition_at Map.empty n = None"
  by (simp add: addition_at_def)

lemma loaded_additions:
  assumes "truthful_view W content path" and "load (reg_view W s) = Inr c"
    and "rooted (content s)" and "sprouted (content s)"
  shows "set (g_additions c) = additions_in (content s) \<and> distinct (map add_name (g_additions c)) \<and>
    sorted (map add_name (g_additions c))"
proof -
  obtain k additions where k: "path k = certificates_path" "load_additions (reg_view W s) k = Inr additions"
    "g_additions c = sort_key add_name additions"
    using load_certificates [OF assms(1,2)] assms(3) by (auto simp: rooted_def)
  obtain r where r: "open_child (reg_view W s) (Some k) ''Add'' = Inr r"
    using k(2) by (auto simp: load_additions_def conv)
  show ?thesis
  proof (cases "content s add_path")
    case None
    then have "r = None"
      using read_child_found [OF assms(1) r] k(1) by (cases r) (auto simp: key_path_def paths)
    then show ?thesis using k(2,3) r None assms(4)
      by (simp add: load_additions_def sprouted_def)
  next
    case (Some add_values)
  then obtain d where d: "r = Some d" "path d = add_path"
    using read_child [OF assms(1) r] k(1) by (auto simp: key_path_def paths)
  obtain names where n: "read_names (reg_view W s) d = Inr names"
    "push_all (add_entry (reg_view W s) d) [] names = Inr additions"
    using k(2) r d by (auto simp: load_additions_def conv)
  have listed: "distinct names" "from_bytes ` set names = {n. backslash \<notin> set n \<and> content s (add_path @ [n]) \<noteq> None}"
    using assms(1) n(1) d(2) by (auto simp: truthful_view_def)
  from listed(2) have names: "set names = as_bytes ` {n. backslash \<notin> set n \<and> content s (add_path @ [n]) \<noteq> None}"
    by (rule bytes_image)
  have sets: "set (g_additions c) = {b. \<exists>x \<in> set names. add_entry (reg_view W s) d x = Inr (Some b)}"
    and ok: "\<forall>x \<in> set names. \<exists>b. add_entry (reg_view W s) d x = Inr b"
    using push_all_set [OF n(2)] k(3) by auto
  have at: "add_entry (reg_view W s) d (as_bytes n) = Inr (addition_at vs n)"
    if "backslash \<notin> set n" "content s (add_path @ [n]) = Some vs" for n vs
  proof -
    have "as_bytes n \<in> set names" using that by (auto simp: names)
    then obtain b where b: "add_entry (reg_view W s) d (as_bytes n) = Inr b" using ok by blast
    show ?thesis
      using add_entry_tree [OF assms(1) b components_plain [OF that(1)], of vs] that(2) b d(2) by simp
  qed
  have "addition_at (values_at (content s) (add_path @ [n])) n \<noteq> None \<Longrightarrow>
      content s (add_path @ [n]) = Some (values_at (content s) (add_path @ [n]))" for n
    by (auto simp: values_at_def split: option.splits)
  then have "set (g_additions c) = additions_in (content s)"
    unfolding sets names additions_in_def using at by (auto simp: values_at_def split: option.splits)
  moreover have "inj_on from_bytes (set names)" by (metis as_bytes_from_bytes inj_onI)
  then have "distinct (map from_bytes names)" using listed(1) by (simp add: distinct_map)
  then have "distinct (map add_name additions)"
    by (intro push_all_names [OF _ n(2), where h = from_bytes] add_entry_name) simp_all
  then have "distinct (map add_name (g_additions c))" by (simp add: k(3) distinct_map inj_on_def)
  ultimately show ?thesis by (simp add: k(3))
  qed
qed

text \<open>So two loads that find the same additions hold the same list of them.\<close>

lemma additions_unique:
  fixes xs ys :: "addition list"
  assumes "set xs = set ys" and "distinct (map add_name xs)" and "sorted (map add_name xs)"
    and "distinct (map add_name ys)" and "sorted (map add_name ys)"
  shows "xs = ys"
proof -
  have "map add_name xs = map add_name ys" using assms by (intro sorted_distinct_set_unique) simp_all
  moreover have "inj_on add_name (set xs \<union> set ys)" using assms(1,2) by (simp add: distinct_map)
  ultimately show ?thesis by (simp add: inj_on_map_eq_map)
qed

section \<open>A registry\<close>

text \<open>An association list of keys, by path, with their values; the last write comes first.\<close>

type_synonym key_list = "(string list \<times> (string \<times> reg_value) list) list"

definition list_content :: "key_list \<Rightarrow> tree" where
  "list_content s = (\<lambda>q. map_option map_of (map_of s q))"

definition list_view :: "key_list \<Rightarrow> string list registry" where
  "list_view s =
     \<lparr>query_value = (\<lambda>k n. case map_of s k of
          None \<Rightarrow> no_such
        | Some l \<Rightarrow> (case map_of l n of None \<Rightarrow> no_such | Some v \<Rightarrow> Inr v)),
      query_values = (\<lambda>k. case map_of s k of
          None \<Rightarrow> no_such | Some l \<Rightarrow> Inr (map (\<lambda>(n, _). as_bytes n) l)),
      subkeys = (\<lambda>k. map (\<lambda>q. Inr (as_bytes (last q)))
        (remdups (filter (\<lambda>q. q \<noteq> [] \<and> butlast q = k \<and> backslash \<notin> set (last q)) (map fst s)))),
      open_key = (\<lambda>p n. if map_of s (key_path id p n) = None then no_such else Inr (key_path id p n))\<rparr>"

definition with_parents :: "string list \<Rightarrow> key_list" where
  "with_parents q = map (\<lambda>i. (take (Suc i) q, [])) [0..<length q]"

definition list_registry :: "(string list, key_list) registry_api" where
  "list_registry =
     \<lparr>reg_view = list_view,
      create_with = (\<lambda>a p n s. (Inr (key_path id p n), s @ with_parents (key_path id p n))),
      open_with = (\<lambda>a p n s. if map_of s (key_path id p n) = None then no_such else Inr (key_path id p n)),
      list_values = (\<lambda>k s. case map_of s k of
          None \<Rightarrow> [] | Some l \<Rightarrow> map (\<lambda>(n, v). Inr (as_bytes n, v_data v)) l),
      set_value = (\<lambda>k n ty d s. case map_of s k of
          None \<Rightarrow> (no_such, s)
        | Some l \<Rightarrow> (Inr (), (k, (n, \<lparr>v_type = ty, v_data = d\<rparr>) # filter (\<lambda>(m, _). m \<noteq> n) l) # s)),
      delete_value = (\<lambda>k n s. case map_of s k of
          None \<Rightarrow> (no_such, s)
        | Some l \<Rightarrow> if map_of l n = None then (no_such, s)
            else (Inr (), (k, filter (\<lambda>(m, _). m \<noteq> n) l) # s)),
      delete_key = (\<lambda>k s. if map_of s k = None then (no_such, s)
        else (Inr (), filter (\<lambda>(q, _). q \<noteq> k) s))\<rparr>"

lemma map_of_others [simp]: "map_of (filter (\<lambda>(m, _). m \<noteq> n) l) = (map_of l)(n := None)"
  by (induction l) auto

lemma map_of_constant: "map_of (map (\<lambda>i. (f i, v)) is) r = (if r \<in> f ` set is then Some v else None)"
  by (induction "is") auto

lemma map_of_prefixes:
  "map_of (with_parents q) r = (if r \<noteq> [] \<and> prefix r q then Some [] else None)"
proof -
  have "r \<in> (\<lambda>i. take (Suc i) q) ` set [0..<length q] \<longleftrightarrow> r \<noteq> [] \<and> prefix r q"
  proof
    assume "r \<noteq> [] \<and> prefix r q"
    then have "r = take (Suc (length r - 1)) q" "length r - 1 \<in> set [0..<length q]"
      using prefix_length_le [of r q] by (cases r; auto simp: prefix_def)+
    then show "r \<in> (\<lambda>i. take (Suc i) q) ` set [0..<length q]" by (rule image_eqI)
  qed (auto simp: take_is_prefix)
  then show ?thesis unfolding with_parents_def map_of_constant by simp
qed

lemma mapE_Inrs: "mapE (\<lambda>entry. entry) (map (\<lambda>q. Inr (f q)) qs) = Inr (map f qs)"
  by (induction qs) simp_all

lemma list_truthful_view: "truthful_view list_registry list_content id"
  unfolding truthful_view_def
proof (intro conjI allI impI)
  fix s p n
  show "case open_key (reg_view list_registry s) p n of
        Inr k \<Rightarrow> id k = key_path id p n \<and> list_content s (id k) \<noteq> None
      | Inl e \<Rightarrow> io_kind e = NotFound \<longrightarrow> list_content s (key_path id p n) = None"
    by (auto simp: list_registry_def list_view_def no_such_def list_content_def)
next
  fix s k n
  show "case query_value (reg_view list_registry s) k n of
        Inr v \<Rightarrow> (\<exists>vs. list_content s (id k) = Some vs \<and> vs n = Some v)
      | Inl e \<Rightarrow> io_kind e = NotFound \<longrightarrow> (\<forall>vs. list_content s (id k) = Some vs \<longrightarrow> vs n = None)"
    by (auto simp: list_registry_def list_view_def no_such_def list_content_def split: option.split)
next
  fix s :: key_list and k names
  assume "query_values (reg_view list_registry s) k = Inr names"
  then obtain l where l: "map_of s k = Some l" "names = map (\<lambda>(n, _). as_bytes n) l"
    by (auto simp: list_registry_def list_view_def no_such_def split: option.splits)
  then have "from_bytes ` set names = fst ` set l" by (simp add: image_image case_prod_beta)
  then show "\<exists>vs. list_content s (id k) = Some vs \<and> from_bytes ` set names = dom vs"
    using l(1) by (simp add: list_content_def dom_map_of_conv_image_fst)
next
  fix s :: key_list and k names
  let ?qs = "remdups (filter (\<lambda>q. q \<noteq> [] \<and> butlast q = k \<and> backslash \<notin> set (last q)) (map fst s))"
  assume "read_names (reg_view list_registry s) k = Inr names"
  then have names: "names = map (as_bytes \<circ> last) ?qs"
    by (simp add: read_names_def list_registry_def list_view_def mapE_Inrs comp_def)
  have "inj_on (as_bytes \<circ> last) (set ?qs)"
  proof (rule inj_onI)
    fix x y
    assume "x \<in> set ?qs" "y \<in> set ?qs" and "(as_bytes \<circ> last) x = (as_bytes \<circ> last) y"
    then have "x \<noteq> []" "y \<noteq> []" "butlast x = k" "butlast y = k" "last x = last y"
      by (auto dest: arg_cong [where f = from_bytes])
    then show "x = y" by (metis append_butlast_last_id)
  qed
  then show "distinct names" by (simp add: names distinct_map)
  have "from_bytes ` set names = last ` set ?qs" by (simp add: names image_image comp_def)
  also have "\<dots> = {n. backslash \<notin> set n \<and> list_content s (id k @ [n]) \<noteq> None}"
  proof (intro set_eqI iffI)
    fix n assume "n \<in> last ` set ?qs"
    then obtain q where "q \<in> fst ` set s" "q \<noteq> []" "butlast q = k" "backslash \<notin> set n" "n = last q" by auto
    then have "backslash \<notin> set n" "k @ [n] \<in> fst ` set s" by (metis append_butlast_last_id)+
    then have "backslash \<notin> set n" "map_of s (k @ [n]) \<noteq> None" using map_of_eq_None_iff by metis+
    then show "n \<in> {n. backslash \<notin> set n \<and> list_content s (id k @ [n]) \<noteq> None}"
      by (auto simp: list_content_def)
  next
    fix n assume "n \<in> {n. backslash \<notin> set n \<and> list_content s (id k @ [n]) \<noteq> None}"
    then have "backslash \<notin> set n" "map_of s (k @ [n]) \<noteq> None" by (auto simp: list_content_def)
    then have "backslash \<notin> set n" "k @ [n] \<in> fst ` set s" using map_of_eq_None_iff by metis+
    then show "n \<in> last ` set ?qs" by (intro image_eqI [of _ _ "k @ [n]"]) auto
  qed
  finally show "from_bytes ` set names = {n. backslash \<notin> set n \<and> list_content s (id k @ [n]) \<noteq> None}" .
qed

lemma list_truthful_writes: "truthful_writes list_registry list_content id"
  unfolding truthful_writes_def
proof (intro conjI allI)
  fix a s p n
  show "case create_with list_registry a p n s of
        (Inr k, s') \<Rightarrow> id k = key_path id p n \<and> list_content s' = grown (list_content s) (id k)
      | (Inl e, s') \<Rightarrow> list_content s' = list_content s"
    by (auto simp: list_registry_def list_content_def grown_def map_add_def map_of_prefixes fun_eq_iff
        split: option.splits)
next
  fix a s p n
  show "case open_with list_registry a p n s of
        Inr k \<Rightarrow> id k = key_path id p n \<and> list_content s (id k) \<noteq> None
      | Inl e \<Rightarrow> io_kind e = NotFound \<longrightarrow> list_content s (key_path id p n) = None"
    by (auto simp: list_registry_def no_such_def list_content_def)
next
  fix k n ty d s
  show "case set_value list_registry k n ty d s of
        (Inr _, s') \<Rightarrow> (\<exists>vs. list_content s (id k) = Some vs \<and>
           list_content s' = (list_content s)(id k \<mapsto> vs(n \<mapsto> \<lparr>v_type = ty, v_data = d\<rparr>)))
      | (Inl e, s') \<Rightarrow> list_content s' = list_content s"
    by (auto simp: list_registry_def no_such_def list_content_def fun_eq_iff split: option.splits)
next
  fix k n s
  show "case delete_value list_registry k n s of
        (Inr _, s') \<Rightarrow> (\<exists>vs. list_content s (id k) = Some vs \<and> vs n \<noteq> None \<and>
           list_content s' = (list_content s)(id k \<mapsto> vs(n := None)))
      | (Inl e, s') \<Rightarrow> list_content s' = list_content s"
    by (auto simp: list_registry_def no_such_def list_content_def fun_eq_iff split: option.splits)
next
  fix k s
  show "case delete_key list_registry k s of
        (Inr _, s') \<Rightarrow> list_content s (id k) \<noteq> None \<and> list_content s' = (list_content s)(id k := None)
      | (Inl e, s') \<Rightarrow> list_content s' = list_content s"
    by (auto simp: list_registry_def no_such_def list_content_def fun_eq_iff)
qed

end
