(* ===== verification/ClientProps.thy ===== *)
theory ClientProps
  imports RegistryTree
begin

text \<open>
  What the client's changes do (\<open>trust-client-core/src/lib.rs\<close>): on the registry's tree, and so to
  the configuration the daemon loads next. Failing changes, and the fingerprints that are named.
\<close>

section \<open>The calls on the tree\<close>

lemma create_tree:
  assumes "truthful_writes W content path" and "create_with W a p n s = (r, s')"
  shows "case r of Inr k \<Rightarrow> path k = key_path path p n \<and> content s' = grown (content s) (path k)
    | Inl e \<Rightarrow> content s' = content s"
proof -
  have "case create_with W a p n s of
        (Inr k, s') \<Rightarrow> path k = key_path path p n \<and> content s' = grown (content s) (path k)
      | (Inl e, s') \<Rightarrow> content s' = content s"
    using assms(1) by (simp add: truthful_writes_def)
  then show ?thesis using assms(2) by (auto split: sum.splits)
qed

lemma open_tree:
  assumes "truthful_writes W content path"
  shows "case open_with W a p n s of
        Inr k \<Rightarrow> path k = key_path path p n \<and> content s (path k) \<noteq> None
      | Inl e \<Rightarrow> io_kind e = NotFound \<longrightarrow> content s (key_path path p n) = None"
  using assms by (simp add: truthful_writes_def)

lemma set_value_tree:
  assumes "truthful_writes W content path" and "set_value W k n ty d s = (r, s')"
  shows "case r of
      Inr _ \<Rightarrow> (\<exists>vs. content s (path k) = Some vs \<and>
        content s' = (content s)(path k \<mapsto> vs(n \<mapsto> \<lparr>v_type = ty, v_data = d\<rparr>)))
    | Inl e \<Rightarrow> content s' = content s"
proof -
  have "case set_value W k n ty d s of
        (Inr _, s') \<Rightarrow> (\<exists>vs. content s (path k) = Some vs \<and>
           content s' = (content s)(path k \<mapsto> vs(n \<mapsto> \<lparr>v_type = ty, v_data = d\<rparr>)))
      | (Inl e, s') \<Rightarrow> content s' = content s"
    using assms(1) by (simp add: truthful_writes_def)
  then show ?thesis using assms(2) by (auto split: sum.splits)
qed

lemma delete_value_tree:
  assumes "truthful_writes W content path" and "delete_value W k n s = (r, s')"
  shows "case r of
      Inr _ \<Rightarrow> (\<exists>vs. content s (path k) = Some vs \<and> vs n \<noteq> None \<and>
        content s' = (content s)(path k \<mapsto> vs(n := None)))
    | Inl e \<Rightarrow> content s' = content s"
proof -
  have "case delete_value W k n s of
        (Inr _, s') \<Rightarrow> (\<exists>vs. content s (path k) = Some vs \<and> vs n \<noteq> None \<and>
           content s' = (content s)(path k \<mapsto> vs(n := None)))
      | (Inl e, s') \<Rightarrow> content s' = content s"
    using assms(1) by (simp add: truthful_writes_def)
  then show ?thesis using assms(2) by (auto split: sum.splits)
qed

lemma delete_key_tree:
  assumes "truthful_writes W content path" and "delete_key W k s = (r, s')"
  shows "case r of
      Inr _ \<Rightarrow> content s (path k) \<noteq> None \<and> content s' = (content s)(path k := None)
    | Inl e \<Rightarrow> content s' = content s"
proof -
  have "case delete_key W k s of
        (Inr _, s') \<Rightarrow> content s (path k) \<noteq> None \<and> content s' = (content s)(path k := None)
      | (Inl e, s') \<Rightarrow> content s' = content s"
    using assms(1) by (simp add: truthful_writes_def)
  then show ?thesis using assms(2) by (auto split: sum.splits)
qed

text \<open>A tree that has only grown: no value is changed, and what was not there is at most an empty key.\<close>

definition grown_to :: "tree \<Rightarrow> tree \<Rightarrow> string list \<Rightarrow> bool" where
  "grown_to c c' q \<longleftrightarrow>
     (\<forall>r. case c r of Some vs \<Rightarrow> c' r = Some vs
       | None \<Rightarrow> c' r = None \<or> (prefix r q \<and> c' r = Some Map.empty))"

lemma grown_to_refl [simp]: "grown_to c c q"
  by (simp add: grown_to_def split: option.split)

lemma grown_to_grown: "grown_to c (grown c q) q"
  by (simp add: grown_to_def grown_def split: option.split)

lemma grown_toD:
  "grown_to c c' q \<Longrightarrow> (case c r of Some vs \<Rightarrow> c' r = Some vs
     | None \<Rightarrow> c' r = None \<or> (prefix r q \<and> c' r = Some Map.empty))"
  by (simp add: grown_to_def)

lemma grown_to_trans:
  assumes "grown_to c c' q" and "grown_to c' c'' q'" and "prefix q q'"
  shows "grown_to c c'' q'"
  unfolding grown_to_def
proof
  fix r
  show "case c r of Some vs \<Rightarrow> c'' r = Some vs
     | None \<Rightarrow> c'' r = None \<or> (prefix r q' \<and> c'' r = Some Map.empty)"
    using grown_toD [OF assms(1), of r] grown_toD [OF assms(2), of r] assms(3)
    by (auto split: option.splits intro: prefix_order.trans)
qed

lemma grown_to_elsewhere: "grown_to c c' q \<Longrightarrow> \<not> prefix r q \<Longrightarrow> c' r = c r"
  using grown_toD [of c c' q r] by (auto split: option.splits)

lemma grown_to_at: "grown_to c c' q \<Longrightarrow> values_at c' r = values_at c r"
  using grown_toD [of c c' q r] by (auto simp: values_at_def split: option.splits)

lemma prefix_paths [simp]:
  "prefix trust_path certificates_path" "prefix certificates_path certificates_path"
  "prefix trust_path (certificates_path @ q)" "trust_path \<noteq> []" "certificates_path \<noteq> []"
  by (simp_all add: trust_path_def certificates_path_def)

lemma certificates_tree:
  assumes "truthful_writes W content path" and "certificates W which s = (r, s')" and "backslash \<notin> set which"
  shows "grown_to (content s) (content s') (certificates_path @ [which]) \<and>
    (\<forall>k. r = Inr k \<longrightarrow> path k = certificates_path @ [which] \<and> content s' (path k) \<noteq> None \<and> rooted (content s'))"
proof -
  obtain r1 s1 where 1: "create_with W ACCESS None CERTIFICATES_KEY s = (r1, s1)" by fastforce
  note t1 = create_tree [OF assms(1) 1]
  show ?thesis
  proof (cases r1)
    case (Inl e)
    then show ?thesis using assms(2) 1 t1
      by (auto simp: certificates_def thenR_def open_or_create_def shownR_def)
  next
    case (Inr k1)
    then have p1: "path k1 = certificates_path" "content s1 = grown (content s) certificates_path"
      using t1 by (auto simp: key_path_def paths)
    obtain r2 where 2: "create_with W ACCESS (Some k1) which s1 = (r2, s')"
      using assms(2) 1 Inr by (auto simp: certificates_def thenR_def open_or_create_def shownR_def prod_eq_iff)
    have r: "r = map_err (registry_error (CERTIFICATES_KEY @ backslash # which)) r2"
      using assms(2) 1 2 Inr by (simp add: certificates_def thenR_def open_or_create_def shownR_def)
    note t2 = create_tree [OF assms(1) 2]
    have g1: "grown_to (content s) (content s1) certificates_path" by (simp add: p1 grown_to_grown)
    show ?thesis
    proof (cases r2)
      case (Inl e)
      then show ?thesis using t2 r grown_to_trans [OF g1, of "content s'" "certificates_path @ [which]"] by simp
    next
      case (Inr k)
      then have p2: "path k = certificates_path @ [which]" "content s' = grown (content s1) (certificates_path @ [which])"
        using t2 p1(1) by (auto simp: key_path_def components_plain [OF assms(3)])
      then show ?thesis using r Inr grown_to_trans [OF g1 grown_to_grown]
        by (simp add: rooted_def grown_has [simplified])
    qed
  qed
qed

section \<open>The changes on the tree\<close>

text \<open>The tree as far as values go, with one key's values changed.\<close>

definition changed_at :: "tree \<Rightarrow> tree \<Rightarrow> string list \<Rightarrow> (valueset \<Rightarrow> valueset) \<Rightarrow> bool" where
  "changed_at c c' q f \<longleftrightarrow> values_at c' q = f (values_at c q) \<and> (\<forall>r. r \<noteq> q \<longrightarrow> values_at c' r = values_at c r) \<and>
     (\<forall>r. c r \<noteq> None \<longrightarrow> c' r \<noteq> None)"

lemma changed_at_keys: "changed_at c c' q f \<Longrightarrow> c r \<noteq> None \<Longrightarrow> c' r \<noteq> None"
  by (simp add: changed_at_def)

lemma changed_at_rooted: "changed_at c c' q f \<Longrightarrow> rooted c \<Longrightarrow> rooted c'"
  by (simp add: changed_at_def rooted_def)

lemma grown_to_keys: "grown_to c c' q \<Longrightarrow> c r \<noteq> None \<Longrightarrow> c' r \<noteq> None"
  using grown_toD [of c c' q r] by (auto split: option.splits)

lemma grown_to_values: "grown_to c c' q \<Longrightarrow> values_at c' = values_at c"
  by (rule ext) (rule grown_to_at)

lemma changed_at_after_grown:
  "grown_to c c' p \<Longrightarrow> changed_at c' c'' q f \<Longrightarrow> changed_at c c'' q f"
  using grown_to_values [of c c' p] grown_to_keys [of c c' p] by (simp add: changed_at_def)

lemma grown_to_unchanged: "grown_to c c' p \<Longrightarrow> changed_at c c' q (\<lambda>vs. vs)"
  using grown_to_values [of c c' p] grown_to_keys [of c c' p] by (simp add: changed_at_def)

lemma changed_at_trans:
  "changed_at c c' q f \<Longrightarrow> changed_at c' c'' q g \<Longrightarrow> changed_at c c'' q (g \<circ> f)"
  by (simp add: changed_at_def)

lemma changed_at_refl: "c' = c \<Longrightarrow> changed_at c c' q (\<lambda>vs. vs)"
  by (simp add: changed_at_def)

lemma values_at_upd: "values_at (c(q \<mapsto> vs)) r = (if r = q then vs else values_at c r)"
  by (simp add: values_at_def)

lemma set_value_changes:
  assumes "truthful_writes W content path" and "set_value W k n ty d s = (Inr u, s')"
  shows "changed_at (content s) (content s') (path k) (\<lambda>vs. vs(n \<mapsto> \<lparr>v_type = ty, v_data = d\<rparr>))"
  using set_value_tree [OF assms] by (auto simp: changed_at_def values_at_upd values_at_def split: if_splits)

lemma distrust_tree:
  assumes "truthful_writes W content path"
    and "distrust W M describe_error ep fp reason s = Some (Inr was, s')"
  shows "spells fp \<and> rooted (content s') \<and>
    changed_at (content s) (content s') distrust_path
      (\<lambda>vs. vs(normalise_fingerprint fp \<mapsto> \<lparr>v_type = REG_SZ, v_data = as_bytes reason @ [0]\<rparr>)) \<and>
    (\<forall>n. content s' (add_path @ n) = content s (add_path @ n))"
proof -
  have sp: "hex (normalise_fingerprint fp)" "length (normalise_fingerprint fp) = 64"
    using assms(2) by (auto simp: distrust_def Let_def split: if_splits)
  obtain r1 s1 where 1: "certificates W DISTRUST_KEY s = (r1, s1)" by fastforce
  obtain k where k: "r1 = Inr k" using assms(2) sp 1 by (cases r1) (auto simp: distrust_def Let_def)
  have bs: "backslash \<notin> set DISTRUST_KEY" by (simp add: DISTRUST_KEY_def)
  note t1 = certificates_tree [OF assms(1) 1 bs]
  obtain r2 s2 where 2: "set_value W k (normalise_fingerprint fp) REG_SZ (as_bytes reason @ [0]) s1 = (r2, s2)"
    by fastforce
  have "r2 = Inr ()" "s2 = s'"
    using assms(2) sp 1 k 2 by (cases r2; simp add: distrust_def Let_def thenR_def shownR_def; auto)+
  note 2 = 2 [unfolded this]
  note t2 = set_value_changes [OF assms(1) 2] and t3 = set_value_tree [OF assms(1) 2]
  have p: "path k = distrust_path" using t1 k by (simp add: DISTRUST_KEY_def paths)
  have "content s1 (add_path @ n) = content s (add_path @ n)" for n
    by (rule grown_to_elsewhere [of _ _ "certificates_path @ [DISTRUST_KEY]"])
       (use t1 in \<open>auto simp: add_path_def certificates_path_def DISTRUST_KEY_def\<close>)
  moreover have "content s' (add_path @ n) = content s1 (add_path @ n)" for n
    using t3 p by (auto simp: add_path_def distrust_path_def)
  moreover have "changed_at (content s) (content s') distrust_path
      (\<lambda>vs. vs(normalise_fingerprint fp \<mapsto> \<lparr>v_type = REG_SZ, v_data = as_bytes reason @ [0]\<rparr>))"
    using changed_at_after_grown [OF conjunct1 [OF t1] t2] p by simp
  moreover have "rooted (content s')" using changed_at_rooted [OF t2] t1 k by blast
  ultimately show ?thesis using sp by (simp add: spells_def hex_def)
qed

lemma restore_tree:
  assumes "truthful_writes W content path" and "restore W argument s = (Inr fp, s')"
  shows "values_at (content s) distrust_path fp \<noteq> None \<and>
    changed_at (content s) (content s') distrust_path (\<lambda>vs. vs(fp := None)) \<and>
    (\<forall>n. content s' (add_path @ n) = content s (add_path @ n))"
proof -
  have named: "restore_named W argument s = Inr fp"
    using assms(2) by (auto simp: restore_def Let_def split: sum.splits prod.splits)
  let ?path = "CERTIFICATES_KEY @ backslash # DISTRUST_KEY"
  obtain k where k: "open_with W [SetValue] None ?path s = Inr k"
    using assms(2) named by (auto simp: restore_def Let_def split: sum.splits prod.splits)
  have p: "path k = distrust_path"
    using open_tree [OF assms(1), where a = "[SetValue]" and p = None and n = ?path and s = s] k by (simp add: key_path_def paths)
  obtain r s1 where 1: "delete_value W k fp s = (r, s1)" by fastforce
  have "r = Inr ()" "s1 = s'"
    using assms(2) named k 1 by (cases r; simp add: restore_def Let_def; auto)+
  from delete_value_tree [OF assms(1) 1] show ?thesis
    by (auto simp: \<open>r = Inr ()\<close> \<open>s1 = s'\<close> p changed_at_def values_at_upd values_at_def
        add_path_def distrust_path_def)
qed

text \<open>The values an addition leaves at its key.\<close>

definition addition_values :: "bytes \<Rightarrow> string list \<Rightarrow> valueset \<Rightarrow> valueset" where
  "addition_values bs purposes vs =
     (if purposes = [] then vs
      else vs(PURPOSES_VALUE \<mapsto> \<lparr>v_type = REG_MULTI_SZ, v_data = purposes_data purposes\<rparr>))
     (CERTIFICATE_VALUE \<mapsto> \<lparr>v_type = REG_BINARY, v_data = bs\<rparr>)"

lemma usable_no_backslash: "usable_name name \<Longrightarrow> backslash \<notin> set name"
  by (simp add: usable_name_def)

lemma shownR_pair: "shownR shown (r, s) = (map_err (registry_error shown) r, s)"
  by (simp add: shownR_def)

lemma thenR_simps: "thenR (Inl e, s) f = (Inl e, s)" "thenR (Inr a, s) f = f a s"
  by (simp_all add: thenR_def)

lemma thenR_assoc: "thenR (thenR m f) g = thenR m (\<lambda>a s. thenR (f a s) g)"
  by (auto simp: thenR_def split: prod.split sum.split)

text \<open>Down to the key of the addition: nothing but empty keys is new.\<close>

lemma entry_tree:
  assumes "truthful_writes W content path" and "backslash \<notin> set name"
    and "thenR (certificates W ADD_KEY s) (\<lambda>add s. open_or_create W (Some add) name shown s) = (r, s')"
  shows "grown_to (content s) (content s') (add_path @ [name]) \<and>
    (\<forall>k. r = Inr k \<longrightarrow> path k = add_path @ [name] \<and> rooted (content s') \<and> content s' add_path \<noteq> None)"
proof -
  obtain r1 s1 where 1: "certificates W ADD_KEY s = (r1, s1)" by fastforce
  have bs: "backslash \<notin> set ADD_KEY" by (simp add: ADD_KEY_def)
  have t1: "grown_to (content s) (content s1) add_path"
    "\<And>k. r1 = Inr k \<Longrightarrow> path k = add_path \<and> content s1 add_path \<noteq> None \<and> rooted (content s1)"
    using certificates_tree [OF assms(1) 1 bs] by (auto simp: ADD_KEY_def paths)
  show ?thesis
  proof (cases r1)
    case (Inl e)
    then have "s' = s1" "\<exists>e. r = Inl e" using assms(3) 1 by (auto simp: thenR_simps)
    then show ?thesis using grown_to_trans [OF t1(1) grown_to_refl, of "add_path @ [name]"] by auto
  next
    case (Inr k1)
    note k1 = t1(2) [OF this]
    obtain r2 s2 where 2: "create_with W ACCESS (Some k1) name s1 = (r2, s2)" by fastforce
    then have r: "r = map_err (registry_error shown) r2" "s' = s2"
      using assms(3) 1 Inr by (auto simp: thenR_simps open_or_create_def shownR_pair)
    have g: "grown_to (content s1) (content s2) (add_path @ [name])"
      and p: "\<And>k. r2 = Inr k \<Longrightarrow> path k = add_path @ [name]"
      using create_tree [OF assms(1) 2] k1 components_plain [OF assms(2)]
      by (cases r2; auto simp: key_path_def grown_to_grown)+
    have "rooted (content s2)" "content s2 add_path \<noteq> None"
      using k1 grown_to_keys [OF g] by (auto simp: rooted_def simp del: not_None_eq)
    then show ?thesis using r p grown_to_trans [OF t1(1) g] by (auto simp: conv simp del: not_None_eq)
  qed
qed

text \<open>The values of an addition's key: the purposes first, the certificate last.\<close>

lemma values_tree:
  assumes "truthful_writes W content path"
    and "thenR (if purposes = [] then (Inr (), s)
        else shownR shown (set_value W k PURPOSES_VALUE REG_MULTI_SZ (purposes_data purposes) s)) (\<lambda>_ s.
      thenR (shownR shown (set_value W k CERTIFICATE_VALUE REG_BINARY bs s)) (\<lambda>_ s. (Inr parsed, s))) = (r, s')"
  shows "case r of
      Inr p \<Rightarrow> p = parsed \<and> changed_at (content s) (content s') (path k) (addition_values bs purposes)
    | Inl e \<Rightarrow> \<exists>f. changed_at (content s) (content s') (path k) f \<and> (\<forall>vs. f vs CERTIFICATE_VALUE = vs CERTIFICATE_VALUE)"
proof -
  let ?g = "\<lambda>vs. if purposes = [] then vs
    else vs(PURPOSES_VALUE \<mapsto> \<lparr>v_type = REG_MULTI_SZ, v_data = purposes_data purposes\<rparr>)"
  obtain r1 s1 where 1: "(if purposes = [] then (Inr (), s)
      else set_value W k PURPOSES_VALUE REG_MULTI_SZ (purposes_data purposes) s) = (r1, s1)" by fastforce
  have rest: "thenR (shownR shown (r1, s1)) (\<lambda>_ s.
      thenR (shownR shown (set_value W k CERTIFICATE_VALUE REG_BINARY bs s)) (\<lambda>_ s. (Inr parsed, s))) = (r, s')"
    using assms(2) 1 by (cases "purposes = []") (auto simp: shownR_pair)
  have c1: "r1 = Inr () \<Longrightarrow> changed_at (content s) (content s1) (path k) ?g" "\<And>e. r1 = Inl e \<Longrightarrow> content s1 = content s"
    using 1 set_value_changes [OF assms(1)] set_value_tree [OF assms(1)]
    by (auto simp: changed_at_refl split: if_splits) fastforce
  have cert: "(\<lambda>vs. vs(CERTIFICATE_VALUE \<mapsto> v)) \<circ> ?g = addition_values bs purposes"
    if "v = \<lparr>v_type = REG_BINARY, v_data = bs\<rparr>" for v
    using that by (auto simp: addition_values_def fun_eq_iff)
  show ?thesis
  proof (cases r1)
    case (Inl e)
    then have "s' = s1" "\<exists>e. r = Inl e" using rest by (auto simp: shownR_pair thenR_simps)
    then show ?thesis using changed_at_refl [OF c1(2) [OF Inl], of "path k"] by auto
  next
    case (Inr u)
    obtain r2 s2 where 2: "set_value W k CERTIFICATE_VALUE REG_BINARY bs s1 = (r2, s2)" by fastforce
    then have r: "r = map_err (registry_error shown) (bindE r2 (\<lambda>_. Inr parsed))" "s' = s2"
      using rest Inr by (cases r2; auto simp: shownR_pair thenR_simps)+
    have g: "changed_at (content s) (content s1) (path k) ?g" using c1(1) Inr by simp
    show ?thesis
    proof (cases r2)
      case (Inl e)
      then have "content s' = content s1" using r set_value_tree [OF assms(1) 2] by simp
      then show ?thesis using r Inl g by (auto simp: PURPOSES_VALUE_def CERTIFICATE_VALUE_def)
    next
      case (Inr u2)
      have "changed_at (content s1) (content s2) (path k)
          (\<lambda>vs. vs(CERTIFICATE_VALUE \<mapsto> \<lparr>v_type = REG_BINARY, v_data = bs\<rparr>))"
        using set_value_changes [OF assms(1)] 2 Inr by simp
      then show ?thesis using changed_at_trans [OF g] cert [OF refl] r Inr by fastforce
    qed
  qed
qed

lemma add_tree:
  assumes "truthful_writes W content path" and "add W L debug now name bs purposes s = (r, s')"
  shows "case r of
      Inr parsed \<Rightarrow> usable_name name \<and> vet L now bs = Inr parsed \<and> rooted (content s') \<and>
        content s' add_path \<noteq> None \<and>
        changed_at (content s) (content s') (add_path @ [name]) (addition_values bs purposes)
    | Inl e \<Rightarrow> \<exists>f. changed_at (content s) (content s') (add_path @ [name]) f \<and>
        (\<forall>vs. f vs CERTIFICATE_VALUE = vs CERTIFICATE_VALUE)"
proof (cases "\<exists>parsed. usable_name name \<and> vet L now bs = Inr parsed")
  case False
  then have "s' = s" "\<exists>e. r = Inl e" using assms(2) by (auto simp: add_def split: if_splits sum.splits)
  then show ?thesis using changed_at_refl [of "content s'" "content s" "add_path @ [name]"] by auto
next
  case True
  then obtain parsed where ok: "usable_name name" "vet L now bs = Inr parsed" by blast
  let ?shown = "CERTIFICATES_KEY @ backslash # ADD_KEY @ backslash # name"
  obtain r1 s1 where 1: "thenR (certificates W ADD_KEY s) (\<lambda>add s. open_or_create W (Some add) name ?shown s) = (r1, s1)"
    by fastforce
  note t1 = entry_tree [OF assms(1) usable_no_backslash [OF ok(1)] 1]
  have add: "add W L debug now name bs purposes s = thenR (r1, s1) (\<lambda>k s.
      thenR (if purposes = [] then (Inr (), s)
        else shownR ?shown (set_value W k PURPOSES_VALUE REG_MULTI_SZ (purposes_data purposes) s)) (\<lambda>_ s.
      thenR (shownR ?shown (set_value W k CERTIFICATE_VALUE REG_BINARY bs s)) (\<lambda>_ s. (Inr parsed, s))))"
    by (simp only: 1 [symmetric] thenR_assoc) (simp add: ok add_def Let_def)
  show ?thesis
  proof (cases r1)
    case (Inl e)
    then have "s' = s1" "\<exists>e. r = Inl e" using assms(2) add by (auto simp: thenR_simps)
    then show ?thesis using grown_to_unchanged t1 by fastforce
  next
    case (Inr k)
    then have p: "path k = add_path @ [name]" and t2: "rooted (content s1)" "content s1 add_path \<noteq> None"
      using t1 by auto
    note t3 = values_tree [OF assms(1), of purposes s1 ?shown k bs parsed r s', unfolded p]
    have t3: "case r of
        Inr p \<Rightarrow> p = parsed \<and> changed_at (content s1) (content s') (add_path @ [name]) (addition_values bs purposes)
      | Inl e \<Rightarrow> \<exists>f. changed_at (content s1) (content s') (add_path @ [name]) f \<and> (\<forall>vs. f vs CERTIFICATE_VALUE = vs CERTIFICATE_VALUE)"
      by (rule t3) (use assms(2) add Inr in \<open>simp only: thenR_simps\<close>)
    have after: "changed_at (content s) (content s') (add_path @ [name]) f"
      if "changed_at (content s1) (content s') (add_path @ [name]) f" for f
      using changed_at_after_grown t1 that by blast
    show ?thesis
    proof (cases r)
      case (Inl e)
      then show ?thesis using t3 after by auto
    next
      case (Inr q)
      then have c: "changed_at (content s1) (content s') (add_path @ [name]) (addition_values bs purposes)" "q = parsed"
        using t3 by simp_all
      then show ?thesis
        using Inr ok after [OF c(1)] changed_at_rooted [OF c(1) t2(1)] changed_at_keys [OF c(1) t2(2)] by simp
    qed
  qed
qed

lemma remove_tree:
  assumes "truthful_writes W content path" and "remove_addition W name s = (Inr u, s')" and "backslash \<notin> set name"
  shows "content s (add_path @ [name]) \<noteq> None \<and> content s' = (content s)(add_path @ [name] := None)"
proof -
  let ?path = "CERTIFICATES_KEY @ backslash # ADD_KEY"
  obtain k where k: "open_with W [EnumerateSubKeys] None ?path s = Inr k"
    using assms(2) by (auto simp: remove_addition_def Let_def split: sum.splits)
  obtain k2 where k2: "open_with W [DeleteAccess] (Some k) name s = Inr k2"
    using assms(2) k by (auto simp: remove_addition_def Let_def split: sum.splits if_splits)
  have p: "path k = add_path"
    using open_tree [OF assms(1), where a = "[EnumerateSubKeys]" and p = None and n = ?path and s = s] k by (simp add: key_path_def paths)
  have p2: "path k2 = add_path @ [name]"
    using open_tree [OF assms(1), where a = "[DeleteAccess]" and p = "Some k" and n = name and s = s] k2 p components_plain [OF assms(3)]
    by (simp add: key_path_def)
  obtain r s1 where 1: "delete_key W k2 s = (r, s1)" by fastforce
  have "r = Inr ()" "s1 = s'"
    using assms(2) k k2 1 by (cases r; simp add: remove_addition_def Let_def shownR_def; auto)+
  then show ?thesis using delete_key_tree [OF assms(1) 1] p2 by simp
qed

section \<open>What the next load makes of them\<close>

text \<open>Two configurations are the same trust when they hold the same entries.\<close>

lemma distrust_unique:
  assumes "load R = Inr c" and "load R' = Inr c'" and "set (g_distrust c) = set (g_distrust c')"
  shows "g_distrust c = g_distrust c'"
  using load_is_normal [OF assms(1)] load_is_normal [OF assms(2)] assms(3)
  by (intro sorted_distinct_set_unique) simp_all

lemma additions_by_name:
  "a \<in> additions_in c \<longleftrightarrow> backslash \<notin> set (add_name a) \<and>
     addition_at (values_at c (add_path @ [add_name a])) (add_name a) = Some a"
proof -
  have "addition_at vs n = Some a \<Longrightarrow> add_name a = n" for vs n
    by (auto simp: addition_at_def split: option.splits if_splits)
  then show ?thesis by (auto simp: additions_in_def)
qed

text \<open>A change of one addition's key changes that addition only.\<close>

lemma changed_additions:
  assumes "changed_at c c' (add_path @ [name]) f" and "backslash \<notin> set name"
  shows "additions_in c' = {a \<in> additions_in c. add_name a \<noteq> name} \<union>
    {a. addition_at (f (values_at c (add_path @ [name]))) name = Some a}"
proof -
  have name: "addition_at vs name = Some a \<Longrightarrow> add_name a = name" for vs a
    by (auto simp: addition_at_def split: option.splits if_splits)
  show ?thesis
  proof (intro set_eqI)
    fix a
    show "a \<in> additions_in c' \<longleftrightarrow> a \<in> {a \<in> additions_in c. add_name a \<noteq> name} \<union>
        {a. addition_at (f (values_at c (add_path @ [name]))) name = Some a}"
      using assms name by (cases "add_name a = name") (auto simp: additions_by_name changed_at_def)
  qed
qed

lemma changed_distrusts:
  assumes "changed_at c c' (add_path @ q) f"
  shows "values_at c' distrust_path = values_at c distrust_path"
  using assms by (simp add: changed_at_def add_path_def distrust_path_def)

text \<open>Below the certificates key, the rest of the configuration is not touched.\<close>

lemma changed_rest:
  assumes "changed_at (content s) (content s') q f" and "q \<noteq> trust_path" and "truthful_view W content path"
    and "load (reg_view W s) = Inr c" and "load (reg_view W s') = Inr c'" and "rooted (content s)"
  shows "g_compat c' = g_compat c \<and> g_control_security c' = g_control_security c"
proof (rule rest_same [OF assms(3-6) changed_at_rooted [OF assms(1,6)]])
  show "values_at (content s') trust_path = values_at (content s) trust_path"
    using assms(1,2) by (simp add: changed_at_def)
qed

lemma below_trust [simp]:
  "add_path @ [name] \<noteq> trust_path" "distrust_path \<noteq> trust_path"
  "trust_path \<noteq> add_path @ [name]" "trust_path \<noteq> distrust_path"
  by (simp_all add: add_path_def distrust_path_def trust_path_def)

lemma changed_sprouted:
  assumes "changed_at c c' q f" and "sprouted c" and "c' add_path = None \<Longrightarrow> additions_in c' = additions_in c"
  shows "sprouted c'"
  using assms by (auto simp: sprouted_def changed_at_def)

text \<open>The list of purposes reads back.\<close>

lemma split_at_step: "\<forall>x \<in> set xs. \<not> P x \<Longrightarrow> P y \<Longrightarrow> split_at P (xs @ y # ys) = xs # split_at P ys"
  by (induction xs) auto

lemma as_bytes_no_zero: "CHR 0x00 \<notin> set p \<Longrightarrow> 0 \<notin> set (as_bytes p)"
proof
  assume "CHR 0x00 \<notin> set p" and "0 \<in> set (as_bytes p)"
  then have "char_of (unat (0 :: byte)) \<in> set (from_bytes (as_bytes p))"
    unfolding from_bytes_def set_map by (rule_tac imageI)
  moreover have "char_of (unat (0 :: byte)) = CHR 0x00" by code_simp
  ultimately show False using \<open>CHR 0x00 \<notin> set p\<close> by simp
qed

definition plain_purpose :: "string \<Rightarrow> bool" where
  "plain_purpose p \<longleftrightarrow> p \<noteq> [] \<and> utf8 p \<and> CHR 0x00 \<notin> set p"

lemma purposes_read_back:
  assumes "\<forall>p \<in> set purposes. plain_purpose p"
  shows "multi \<lparr>v_type = REG_MULTI_SZ, v_data = purposes_data purposes\<rparr> = Inr (Some purposes)"
proof -
  have "filter (\<lambda>part. part \<noteq> []) (split_at (\<lambda>b. b = 0) (purposes_data purposes)) = map as_bytes purposes"
    using assms
  proof (induction purposes)
    case Nil
    then show ?case by (simp add: purposes_data_def)
  next
    case (Cons p ps)
    have "\<forall>b \<in> set (as_bytes p). b \<noteq> 0" using as_bytes_no_zero [of p] Cons.prems by (auto simp: plain_purpose_def)
    from split_at_step [of _ "\<lambda>b. b = 0", OF this]
    have "split_at (\<lambda>b. b = 0) (purposes_data (p # ps)) = as_bytes p # split_at (\<lambda>b. b = 0) (purposes_data ps)"
      by (simp add: purposes_data_def)
    moreover have "as_bytes p \<noteq> []" using Cons.prems by (auto simp: plain_purpose_def as_bytes_def)
    ultimately show ?case using Cons by simp
  qed
  moreover have "mapE text_of (map as_bytes purposes) = Inr purposes"
    using assms by (induction purposes) (auto simp: text_of_def plain_purpose_def)
  ultimately show ?thesis by (simp add: multi_def)
qed

lemma addition_values_at:
  assumes "bs \<noteq> []" and "\<forall>p \<in> set purposes. plain_purpose p"
  shows "addition_at (addition_values bs purposes vs) name =
    Some \<lparr>add_name = name, add_der = bs, add_purposes = (if purposes = [] then purposes_held vs else purposes)\<rparr>"
  using assms purposes_read_back
  by (simp add: addition_at_def addition_values_def purposes_held_def CERTIFICATE_VALUE_def PURPOSES_VALUE_def)

text \<open>An addition that succeeds is one of those the next load finds, whatever was there before.\<close>

lemma add_found:
  assumes "truthful_view W content path" and "truthful_writes W content path" and "bs \<noteq> []"
    and "add W L debug now name bs purposes s = (Inr parsed, s')" and "load (reg_view W s') = Inr c'"
  shows "vet L now bs = Inr parsed \<and> (\<exists>a \<in> set (g_additions c'). add_name a = name \<and> add_der a = bs)"
proof -
  have t: "usable_name name" "vet L now bs = Inr parsed" "rooted (content s')" "content s' add_path \<noteq> None"
    "changed_at (content s) (content s') (add_path @ [name]) (addition_values bs purposes)"
    using add_tree [OF assms(2,4)] by simp_all
  then have "sprouted (content s')" by (auto simp: sprouted_def)
  then have "set (g_additions c') = additions_in (content s')"
    using loaded_additions [OF assms(1,5) t(3)] by simp
  moreover have "\<exists>a. addition_at (addition_values bs purposes vs) name = Some a \<and> add_name a = name \<and> add_der a = bs" for vs
    using assms(3) by (simp add: addition_at_def addition_values_def)
  ultimately show ?thesis
    using t(2) changed_additions [OF t(5) usable_no_backslash [OF t(1)]] by blast
qed

lemma add_loaded:
  assumes "truthful_view W content path" and "truthful_writes W content path"
    and "rooted (content s)" and "sprouted (content s)"
    and "bs \<noteq> []" and "\<forall>p \<in> set purposes. plain_purpose p"
    and "add W L debug now name bs purposes s = (Inr parsed, s')"
    and "load (reg_view W s) = Inr c" and "load (reg_view W s') = Inr c'"
  shows "vet L now bs = Inr parsed \<and> c' = c\<lparr>g_additions := g_additions c'\<rparr> \<and>
    set (g_additions c') = {a \<in> set (g_additions c). add_name a \<noteq> name} \<union>
      {\<lparr>add_name = name, add_der = bs, add_purposes =
         (if purposes = [] then purposes_held (values_at (content s) (add_path @ [name])) else purposes)\<rparr>}"
proof -
  have t: "usable_name name" "vet L now bs = Inr parsed" "rooted (content s')" "content s' add_path \<noteq> None"
    "changed_at (content s) (content s') (add_path @ [name]) (addition_values bs purposes)"
    using add_tree [OF assms(2,7)] by simp_all
  have "sprouted (content s')" using t(4) by (auto simp: sprouted_def)
  then have "set (g_additions c') = additions_in (content s')"
    using loaded_additions [OF assms(1,9) t(3)] by simp
  moreover have "set (g_additions c) = additions_in (content s)"
    using loaded_additions [OF assms(1,8,3,4)] by simp
  moreover have "g_distrust c' = g_distrust c"
    using loaded_distrust [OF assms(1,9) t(3)] loaded_distrust [OF assms(1,8,3)] changed_distrusts [OF t(5)]
    by (intro distrust_unique [OF assms(9,8)]) simp
  then have "c' = c\<lparr>g_additions := g_additions c'\<rparr>"
    using changed_rest [OF t(5) _ assms(1,8,9,3)] by simp
  ultimately show ?thesis
    using t(2) changed_additions [OF t(5) usable_no_backslash [OF t(1)]] addition_values_at [OF assms(5,6)] by simp
qed

lemma add_failed:
  assumes "truthful_view W content path" and "truthful_writes W content path"
    and "rooted (content s)" and "sprouted (content s)" and "backslash \<notin> set name"
    and "values_at (content s) (add_path @ [name]) CERTIFICATE_VALUE = None"
    and "add W L debug now name bs purposes s = (Inl e, s')"
    and "load (reg_view W s) = Inr c" and "load (reg_view W s') = Inr c'"
  shows "c' = c"
proof -
  obtain f where f: "changed_at (content s) (content s') (add_path @ [name]) f"
    "\<forall>vs. f vs CERTIFICATE_VALUE = vs CERTIFICATE_VALUE"
    using add_tree [OF assms(2,7)] by auto
  have before: "set (g_additions c) = additions_in (content s)"
    "distinct (map add_name (g_additions c))" "sorted (map add_name (g_additions c))"
    using loaded_additions [OF assms(1,8,3,4)] by simp_all
  have same: "additions_in (content s') = additions_in (content s)"
    using changed_additions [OF f(1) assms(5)] f(2) assms(6) by (auto simp: addition_at_def additions_by_name)
  have "rooted (content s')" "sprouted (content s')"
    using changed_at_rooted [OF f(1) assms(3)] changed_sprouted [OF f(1) assms(4)] same by simp_all
  note after = loaded_additions [OF assms(1,9) this] loaded_distrust [OF assms(1,9) this(1)]
  have "g_additions c' = g_additions c"
    using after before same by (intro additions_unique) simp_all
  moreover have "g_distrust c' = g_distrust c"
    using after(2) loaded_distrust [OF assms(1,8,3)] changed_distrusts [OF f(1)]
    by (intro distrust_unique [OF assms(9,8)]) simp
  ultimately show ?thesis using changed_rest [OF f(1) _ assms(1,8,9,3)] by simp
qed

lemma remove_loaded:
  assumes "truthful_view W content path" and "truthful_writes W content path"
    and "rooted (content s)" and "sprouted (content s)" and "backslash \<notin> set name"
    and "remove_addition W name s = (Inr u, s')"
    and "load (reg_view W s) = Inr c" and "load (reg_view W s') = Inr c'"
  shows "g_additions c' = filter (\<lambda>a. add_name a \<noteq> name) (g_additions c) \<and> g_distrust c' = g_distrust c"
proof -
  have t: "content s' = (content s)(add_path @ [name] := None)" using remove_tree [OF assms(2,6,5)] by simp
  have "add_path @ [name] \<notin> {trust_path, certificates_path, add_path, distrust_path}"
    by (simp add: trust_path_def certificates_path_def add_path_def distrust_path_def)
  then have r: "rooted (content s')" and d: "values_at (content s') distrust_path = values_at (content s) distrust_path"
    and at: "values_at (content s') r = (if r = add_path @ [name] then Map.empty else values_at (content s) r)"
    and add: "content s' add_path = content s add_path" for r
    using assms(3) by (auto simp: t rooted_def values_at_def)
  have a: "additions_in (content s') = {a \<in> additions_in (content s). add_name a \<noteq> name}"
    by (auto simp: additions_by_name at split: if_splits)
  then have "sprouted (content s')" using assms(4) add by (simp add: sprouted_def)
  note after = loaded_additions [OF assms(1,8) r this]
  note before = loaded_additions [OF assms(1,7,3,4)]
  have "g_additions c' = filter (\<lambda>a. add_name a \<noteq> name) (g_additions c)"
    using before after a
    by (intro additions_unique) (auto simp: distinct_map_filter sorted_filter)
  moreover have "g_distrust c' = g_distrust c"
    using loaded_distrust [OF assms(1,8) r] loaded_distrust [OF assms(1,7,3)] d
    by (intro distrust_unique [OF assms(8,7)]) simp
  ultimately show ?thesis by simp
qed

lemma distrust_loaded:
  assumes "truthful_view W content path" and "truthful_writes W content path"
    and "distrust W M describe_error ep fp reason s = Some (Inr was, s')"
    and "load (reg_view W s') = Inr c'"
  shows "normalise_fingerprint fp \<in> set (g_distrust c')"
proof -
  have "normalise_fingerprint fp \<in> dom (values_at (content s') distrust_path)"
    "spells (normalise_fingerprint fp)" "rooted (content s')"
    using distrust_tree [OF assms(2,3)] by (auto simp: changed_at_def spells_def normalise_idem)
  then have "normalise_fingerprint (normalise_fingerprint fp) \<in>
      normalise_fingerprint ` {n \<in> dom (values_at (content s') distrust_path). spells n}" by simp
  then show ?thesis using loaded_distrust [OF assms(1,4)] \<open>rooted (content s')\<close> by (simp add: normalise_idem)
qed

lemma restore_loaded:
  assumes "truthful_view W content path" and "truthful_writes W content path"
    and "rooted (content s)" and "restore W argument s = (Inr fp, s')"
    and "load (reg_view W s') = Inr c'"
  shows "set (g_distrust c') =
    normalise_fingerprint ` {n \<in> dom (values_at (content s) distrust_path). n \<noteq> fp \<and> spells n}"
proof -
  have t: "changed_at (content s) (content s') distrust_path (\<lambda>vs. vs(fp := None))"
    using restore_tree [OF assms(2,4)] by simp
  show ?thesis
    using loaded_distrust [OF assms(1,5) changed_at_rooted [OF t assms(3)]] t
    by (auto simp: changed_at_def)
qed

section \<open>A run\<close>

text \<open>The seeded keys, an endpoint nothing answers on, and what \<open>load\<close> makes of a few states.\<close>

definition seeded :: key_list where
  "seeded = [(trust_path, []), (certificates_path, [])]"

definition no_endpoint :: endpoint where
  "no_endpoint = \<lparr>ep_latest = 0, ep_now = 0, ep_connection = \<lparr>cn_socket = Inr (), cn_connect = None,
     cn_pending = Inr None, cn_channel = \<lparr>ch_incoming = [], ch_sent = [], ch_clock = [], ch_reads = [],
       ch_writes = [], ch_waits = []\<rparr>\<rparr>\<rparr>"

lemma no_answer: "core_roots M describe_error no_endpoint with_der purpose =
    Some (Inl (Failed ''timeout is too large''))"
  by (simp add: core_roots_def client_call_def bounded_call_def deadline_def no_endpoint_def invalid_input_def)

lemma load_key: "load R = bindE (open_child R None TRUST_KEY) (load_from R)"
  by (simp add: load_def TRUST_KEY_def)

lemma paths_distinct:
  "trust_path \<noteq> certificates_path" "trust_path \<noteq> add_path" "trust_path \<noteq> distrust_path"
  "certificates_path \<noteq> add_path" "certificates_path \<noteq> distrust_path" "add_path \<noteq> distrust_path"
  "add_path @ [n] \<noteq> trust_path" "add_path @ [n] \<noteq> certificates_path" "add_path @ [n] \<noteq> add_path"
  "add_path @ [n] \<noteq> distrust_path"
  by (simp_all add: trust_path_def certificates_path_def add_path_def distrust_path_def)

lemmas paths_neq = paths_distinct paths_distinct [symmetric]

lemma seeded_content: "list_content seeded = [trust_path \<mapsto> Map.empty, certificates_path \<mapsto> Map.empty]"
  by (auto simp: list_content_def seeded_def fun_eq_iff paths_distinct)

lemma seeded_rooted: "rooted (list_content seeded)" "sprouted (list_content seeded)"
  by (auto simp: rooted_def sprouted_def seeded_content additions_in_def values_at_def paths_distinct)

text \<open>A load that only has keys, additions and distrusts to read.\<close>

lemma load_list:
  assumes "map_of s trust_path = Some []" and "map_of s certificates_path = Some []"
  shows "load (list_view s) = bindE (load_additions (list_view s) certificates_path) (\<lambda>additions.
    bindE (load_distrust (list_view s) certificates_path) (\<lambda>distrust.
      Inr \<lparr>g_additions = sort_key add_name additions, g_distrust = remdups_adj (sort distrust),
        g_compat = CompatFiles, g_control_security = None\<rparr>))"
proof -
  have "open_child (list_view s) None TRUST_KEY = Inr (Some trust_path)"
    "open_child (list_view s) (Some trust_path) ''Certificates'' = Inr (Some certificates_path)"
    "read_value (list_view s) trust_path n = Inr None" for n
    using assms by (simp_all add: open_child_def optional_def list_view_def key_path_def paths read_value_def no_such_def)
  then show ?thesis
    by (simp add: load_key load_from_def config_default_def compat_of_def security_of_def)
qed

lemma load_distrust_list:
  "load_distrust (list_view s) certificates_path =
    (case map_of s distrust_path of None \<Rightarrow> Inr [] | Some l \<Rightarrow> push_all distrust_entry [] (map (\<lambda>(n, _). as_bytes n) l))"
  by (simp add: load_distrust_def open_child_def optional_def list_view_def key_path_def paths no_such_def
      split: option.split)

lemma load_additions_list:
  "load_additions (list_view s) certificates_path =
    (if map_of s add_path = None then Inr []
     else push_all (add_entry (list_view s) add_path) [] (map (as_bytes \<circ> last)
       (remdups (filter (\<lambda>q. q \<noteq> [] \<and> butlast q = add_path \<and> backslash \<notin> set (last q)) (map fst s)))))"
proof -
  have "read_names (list_view s) add_path = Inr (map (as_bytes \<circ> last)
      (remdups (filter (\<lambda>q. q \<noteq> [] \<and> butlast q = add_path \<and> backslash \<notin> set (last q)) (map fst s))))"
    by (simp add: read_names_def list_view_def mapE_Inrs comp_def)
  moreover have "open_child (list_view s) (Some certificates_path) ''Add'' =
      Inr (if map_of s add_path = None then None else Some add_path)"
    by (simp add: open_child_def optional_def list_view_def key_path_def paths no_such_def)
  ultimately show ?thesis by (simp add: load_additions_def)
qed

lemma load_seeded: "load (list_view seeded) = Inr config_default"
  by (simp add: load_list load_distrust_list load_additions_list seeded_def paths_neq config_default_def)

lemma list_create:
  "create_with list_registry a p n s =
    (Inr (key_path id p n), s @ with_parents (key_path id p n))"
  by (simp add: list_registry_def)

lemma list_certificates:
  assumes "backslash \<notin> set which"
  shows "\<exists>s'. certificates list_registry which s = (Inr (certificates_path @ [which]), s') \<and>
    (\<forall>r. map_of s r \<noteq> None \<or> \<not> prefix r certificates_path \<longrightarrow>
      map_of s' r = (if r = certificates_path @ [which] \<and> map_of s r = None then Some [] else map_of s r)) \<and>
    (\<forall>q \<in> fst ` set s'. q \<in> fst ` set s \<or> prefix q (certificates_path @ [which]))"
proof -
  define s' where "s' = (s @ with_parents certificates_path) @ with_parents (certificates_path @ [which])"
  have "certificates list_registry which s = (Inr (certificates_path @ [which]), s')"
    by (simp add: certificates_def open_or_create_def list_create shownR_pair thenR_simps key_path_def paths
        components_plain [OF assms] s'_def)
  moreover have "map_of s' r = (if r = certificates_path @ [which] \<and> map_of s r = None then Some [] else map_of s r)"
    if "map_of s r \<noteq> None \<or> \<not> prefix r certificates_path" for r
    using that by (auto simp: s'_def map_add_def map_of_prefixes prefix_snoc split: option.split)
  moreover have "q \<in> fst ` set s \<or> prefix q (certificates_path @ [which])" if "q \<in> fst ` set s'" for q
  proof -
    have "map_of s' q \<noteq> None" using that by (metis map_of_eq_None_iff)
    then have "map_of s q \<noteq> None \<or> prefix q (certificates_path @ [which])"
      by (auto simp: s'_def map_add_def map_of_prefixes prefix_snoc split: option.splits if_splits)
    then show ?thesis by (metis map_of_eq_None_iff)
  qed
  ultimately show ?thesis by blast
qed

lemma not_above: "\<not> prefix add_path certificates_path" "\<not> prefix distrust_path certificates_path"
    "\<not> prefix (add_path @ q) certificates_path" "\<not> prefix (add_path @ q) distrust_path"
    "\<not> prefix add_path distrust_path"
  by (simp_all add: certificates_path_def add_path_def distrust_path_def)

lemma seeded_distrust:
  assumes "spells fp"
  shows "\<exists>s'. distrust list_registry M describe_error no_endpoint fp reason seeded = Some (Inr None, s') \<and>
    map_of s' trust_path = Some [] \<and> map_of s' certificates_path = Some [] \<and> map_of s' add_path = None \<and>
    map_of s' distrust_path = Some [(normalise_fingerprint fp, \<lparr>v_type = REG_SZ, v_data = as_bytes reason @ [0]\<rparr>)]"
proof -
  obtain s1 where 1: "certificates list_registry ''Distrust'' seeded = (Inr distrust_path, s1)"
    "\<And>r. map_of seeded r \<noteq> None \<or> \<not> prefix r certificates_path \<Longrightarrow>
      map_of s1 r = (if r = distrust_path \<and> map_of seeded r = None then Some [] else map_of seeded r)"
    using list_certificates [of "''Distrust''" seeded] by (auto simp: paths)
  have m: "map_of s1 trust_path = Some []" "map_of s1 certificates_path = Some []" "map_of s1 add_path = None"
    "map_of s1 distrust_path = Some []"
    using 1(2) [of trust_path] 1(2) [of certificates_path] 1(2) [of add_path] 1(2) [of distrust_path]
    by (auto simp: seeded_def paths_neq not_above)
  have "hex (normalise_fingerprint fp)" "length (normalise_fingerprint fp) = 64"
    using assms by (auto simp: spells_def hex_def)
  then have "distrust list_registry M describe_error no_endpoint fp reason seeded = Some (Inr None,
      (distrust_path, [(normalise_fingerprint fp, \<lparr>v_type = REG_SZ, v_data = as_bytes reason @ [0]\<rparr>)]) # s1)"
    using 1(1) m(4) by (simp add: distrust_def Let_def DISTRUST_KEY_def no_answer shownR_def thenR_def list_registry_def)
  then show ?thesis using m by (auto simp: paths_neq)
qed

lemma singleton_list:
  assumes "distinct xs" and "set xs = {x}"
  shows "xs = [x]"
proof -
  have "length xs = 1" using distinct_card [OF assms(1)] assms(2) by simp
  then obtain y where "xs = [y]" by (auto simp: length_Suc_conv)
  then show ?thesis using assms(2) by simp
qed

lemma seeded_add:
  assumes "usable_name name" and "utf8 name" and "vet L now bs = Inr parsed" and "bs \<noteq> []"
  shows "\<exists>s'. add list_registry L debug now name bs [] seeded = (Inr parsed, s') \<and>
    load (list_view s') = Inr \<lparr>g_additions = [\<lparr>add_name = name, add_der = bs, add_purposes = []\<rparr>],
      g_distrust = [], g_compat = CompatFiles, g_control_security = None\<rparr>"
proof -
  let ?q = "add_path @ [name]"
  note bs = usable_no_backslash [OF assms(1)]
  obtain s1 where 1: "certificates list_registry ''Add'' seeded = (Inr add_path, s1)"
    "\<And>r. map_of seeded r \<noteq> None \<or> \<not> prefix r certificates_path \<Longrightarrow>
      map_of s1 r = (if r = add_path \<and> map_of seeded r = None then Some [] else map_of seeded r)"
    "\<forall>q \<in> fst ` set s1. q \<in> fst ` set seeded \<or> prefix q add_path"
    using list_certificates [of "''Add''" seeded] by (auto simp: paths)
  have m: "map_of s1 trust_path = Some []" "map_of s1 certificates_path = Some []" "map_of s1 add_path = Some []"
    "map_of s1 distrust_path = None" "map_of s1 ?q = None"
    using 1(2) [of trust_path] 1(2) [of certificates_path] 1(2) [of add_path] 1(2) [of distrust_path] 1(2) [of ?q]
    by (auto simp: seeded_def paths_neq not_above)
  define s2 where "s2 = s1 @ with_parents ?q"
  define s' where "s' = (?q, [(CERTIFICATE_VALUE, \<lparr>v_type = REG_BINARY, v_data = bs\<rparr>)]) # s2"
  have q: "map_of s2 ?q = Some []" using m(5) by (simp add: s2_def map_add_def map_of_prefixes)
  have add: "add list_registry L debug now name bs [] seeded = (Inr parsed, s')"
    using assms(1,3) 1(1) q
    by (simp add: add_def Let_def ADD_KEY_def open_or_create_def list_create shownR_pair thenR_simps key_path_def
        components_plain [OF bs] s2_def [symmetric] s'_def) (simp add: list_registry_def shownR_pair thenR_simps)
  have m': "map_of s' trust_path = Some []" "map_of s' certificates_path = Some []" "map_of s' add_path = Some []"
    "map_of s' distrust_path = None"
    using m by (auto simp: s'_def s2_def map_add_def map_of_prefixes paths_neq not_above prefix_snoc
        add_path_def distrust_path_def)
  have e: "add_entry (list_view s') add_path (as_bytes name) = Inr (Some \<lparr>add_name = name, add_der = bs, add_purposes = []\<rparr>)"
  proof -
    have "open_child (list_view s') (Some add_path) name = Inr (Some ?q)"
      by (simp add: open_child_def optional_def list_view_def key_path_def components_plain [OF bs] s'_def)
    moreover have "read_value (list_view s') ?q ''Certificate'' = Inr (Some \<lparr>v_type = REG_BINARY, v_data = bs\<rparr>)"
      "read_value (list_view s') ?q ''Purposes'' = Inr None"
      by (simp_all add: read_value_def optional_def list_view_def s'_def CERTIFICATE_VALUE_def no_such_def)
    ultimately show ?thesis using assms(2,4) by (simp add: add_entry_def text_of_def strings_def)
  qed
  let ?names = "remdups (filter (\<lambda>q. q \<noteq> [] \<and> butlast q = add_path \<and> backslash \<notin> set (last q)) (map fst s'))"
  have "r = ?q" if r: "r \<in> fst ` set s'" "butlast r = add_path" "r \<noteq> []" for r
  proof -
    have snoc: "r = add_path @ [last r]" using r(2,3) by (metis append_butlast_last_id)
    have "r \<in> fst ` set seeded \<or> prefix r add_path \<or> prefix r ?q \<or> r = ?q"
      using r(1) 1(3) by (auto simp: s'_def s2_def with_parents_def take_is_prefix)
    then show ?thesis using snoc by (auto simp: seeded_def add_path_def trust_path_def certificates_path_def prefix_Cons)
  qed
  then have "set ?names = {?q}" using bs by (auto simp: s'_def)
  then have "?names = [?q]" by (rule singleton_list [OF distinct_remdups])
  then have "load_additions (list_view s') certificates_path = Inr [\<lparr>add_name = name, add_der = bs, add_purposes = []\<rparr>]"
    using m'(3) e by (simp add: load_additions_list)
  then show ?thesis
    using add m'(4) by (intro exI [of _ s']) (simp add: load_list [OF m'(1,2)] load_distrust_list)
qed

lemma sample_spells: "spells sample_pasted" "normalise_fingerprint sample_pasted = concat (replicate 32 ''ab'')"
proof -
  have "distrust_entry (as_bytes sample_pasted) = Inr (Some (concat (replicate 32 ''ab'')))"
    by (rule sample_distrust_entries)
  from distrust_entry_spells [OF this]
  show "spells sample_pasted" "normalise_fingerprint sample_pasted = concat (replicate 32 ''ab'')"
    by (auto split: if_splits)
qed

text \<open>A distrust on the seeded keys, and its restore.\<close>

lemma seeded_restore:
  assumes "spells fp" and "map_of s trust_path = Some []" and "map_of s certificates_path = Some []"
    and "map_of s add_path = None" and "map_of s distrust_path = Some [(normalise_fingerprint fp, v)]"
  shows "\<exists>s'. restore list_registry fp s = (Inr (normalise_fingerprint fp), s') \<and>
    load (list_view s') = Inr config_default"
proof -
  define s' where "s' = (distrust_path, []) # s"
  have "restore_named list_registry fp s = Inr (normalise_fingerprint fp)"
    using assms(1) by (simp add: restore_named_def spells_def)
  moreover have "open_with list_registry a None (CERTIFICATES_KEY @ backslash # DISTRUST_KEY) s = Inr distrust_path" for a
    using assms(5) by (simp add: list_registry_def key_path_def paths)
  moreover have "delete_value list_registry distrust_path (normalise_fingerprint fp) s = (Inr (), s')"
    using assms(5) by (simp add: list_registry_def s'_def)
  ultimately have "restore list_registry fp s = (Inr (normalise_fingerprint fp), s')"
    by (simp add: restore_def Let_def)
  moreover have "load (list_view s') = Inr config_default"
    using assms(2-4) by (simp add: load_list load_distrust_list load_additions_list s'_def paths_neq config_default_def)
  ultimately show ?thesis by blast
qed

lemma list_rooted:
  "map_of s trust_path = Some [] \<Longrightarrow> map_of s certificates_path = Some [] \<Longrightarrow> rooted (list_content s)"
  by (simp add: rooted_def list_content_def)

section \<open>Properties\<close>

text \<open>
  C25. An addition that succeeds is what the daemon loads next: the additions under other names, the
  distrusts, the compatibility mode and the control descriptor are those of before, and the one under
  its name is the certificate given, with the purposes given, or, when none are given, the purposes the
  name already had (none on a fresh name, which composition takes for server authentication).
\<close>

theorem add_enters:
  assumes "truthful_view W content path" and "truthful_writes W content path"
    and "rooted (content s)" and "sprouted (content s)"
    and "bs \<noteq> []" and "\<forall>p \<in> set purposes. plain_purpose p"
    and "add W L debug now name bs purposes s = (Inr parsed, s')"
    and "load (reg_view W s) = Inr c" and "load (reg_view W s') = Inr c'"
  shows "vet L now bs = Inr parsed \<and> c' = c\<lparr>g_additions := g_additions c'\<rparr> \<and>
    set (g_additions c') = {a \<in> set (g_additions c). add_name a \<noteq> name} \<union>
      {\<lparr>add_name = name, add_der = bs, add_purposes =
         (if purposes = [] then purposes_held (values_at (content s) (add_path @ [name])) else purposes)\<rparr>}"
  using assms by (rule add_loaded)

theorem add_enters_witness:
  "\<exists>p s' c'. add list_registry sample_lib id None ''corp'' [2] [] seeded = (Inr p, s') \<and>
    load (list_view s') = Inr c' \<and>
    set (g_additions c') = {\<lparr>add_name = ''corp'', add_der = [2], add_purposes = []\<rparr>}"
proof -
  have u: "usable_name ''corp''"
    by (simp add: usable_name_def trim_solid solid_def white_space_def)
  obtain p where v: "vet sample_lib None [2] = Inr p" using sample_parse [of "[2]"] by (simp add: vet_def)
  obtain s' c' where s: "add list_registry sample_lib id None ''corp'' [2] [] seeded = (Inr p, s')"
    "load (list_view s') = Inr c'"
    using seeded_add [OF u _ v] by (fastforce simp: utf8_ascii)
  from add_enters [OF list_truthful_view list_truthful_writes seeded_rooted _ _ s(1), of config_default c'] s
  show ?thesis
    using load_seeded
    by (auto simp: list_registry_def config_default_def values_at_def seeded_content paths_neq purposes_held_def)
qed

text \<open>
  C26. An addition that fails, wherever it fails, leaves no trace in what the daemon loads, as long as
  the name had no certificate: the certificate is written last. The configuration the daemon reads next,
  when it can read one, is the one of before, all of it.
\<close>

theorem add_fails_clean:
  assumes "truthful_view W content path" and "truthful_writes W content path"
    and "rooted (content s)" and "sprouted (content s)" and "backslash \<notin> set name"
    and "values_at (content s) (add_path @ [name]) CERTIFICATE_VALUE = None"
    and "add W L debug now name bs purposes s = (Inl e, s')"
    and "load (reg_view W s) = Inr c" and "load (reg_view W s') = Inr c'"
  shows "c' = c"
  using assms by (rule add_failed)

definition denied_registry :: "(string list, key_list) registry_api" where
  "denied_registry = list_registry\<lparr>create_with := (\<lambda>a p n s. (Inl (IoError PermissionDenied None []), s))\<rparr>"

theorem add_fails_clean_witness:
  "\<exists>c'. add denied_registry sample_lib id None ''corp'' [2] [] seeded = (Inl (Denied CERTIFICATES_KEY), seeded) \<and>
    load (reg_view denied_registry seeded) = Inr c' \<and> g_additions c' = []"
proof -
  have u: "usable_name ''corp''"
    by (simp add: usable_name_def trim_solid solid_def white_space_def)
  obtain p where v: "vet sample_lib None [2] = Inr p" using sample_parse [of "[2]"] by (simp add: vet_def)
  have a: "add denied_registry sample_lib id None ''corp'' [2] [] seeded = (Inl (Denied CERTIFICATES_KEY), seeded)"
    using u v by (simp add: add_def certificates_def open_or_create_def denied_registry_def shownR_pair thenR_simps
        registry_error_def)
  have w: "truthful_writes denied_registry list_content id"
    using list_truthful_writes by (simp add: truthful_writes_def denied_registry_def)
  have t: "truthful_view denied_registry list_content id"
    using list_truthful_view by (simp add: truthful_view_def denied_registry_def)
  have l: "load (reg_view denied_registry seeded) = Inr config_default"
    using load_seeded by (simp add: denied_registry_def list_registry_def)
  from add_fails_clean [OF t w seeded_rooted _ _ a l l] show ?thesis
    using a l by (auto simp: values_at_def seeded_content paths_neq config_default_def)
qed

text \<open>
  A removal that succeeds takes out the additions of that name and nothing else.
\<close>

theorem remove_takes_out:
  assumes "truthful_view W content path" and "truthful_writes W content path"
    and "rooted (content s)" and "sprouted (content s)" and "backslash \<notin> set name"
    and "remove_addition W name s = (Inr u, s')"
    and "load (reg_view W s) = Inr c" and "load (reg_view W s') = Inr c'"
  shows "g_additions c' = filter (\<lambda>a. add_name a \<noteq> name) (g_additions c) \<and> g_distrust c' = g_distrust c"
  using assms by (rule remove_loaded)

theorem remove_takes_out_witness:
  "\<exists>s s' c'. load (list_view s) = Inr \<lparr>g_additions = [\<lparr>add_name = ''corp'', add_der = [2], add_purposes = []\<rparr>],
      g_distrust = [], g_compat = CompatFiles, g_control_security = None\<rparr> \<and>
    remove_addition list_registry ''corp'' s = (Inr (), s') \<and> load (list_view s') = Inr c' \<and> g_additions c' = []"
proof -
  define s0 where "s0 = (add_path, []) # seeded"
  define s where "s = (add_path @ [''corp''], [(CERTIFICATE_VALUE, \<lparr>v_type = REG_BINARY, v_data = [2]\<rparr>)]) # s0"
  have s0: "map_of s0 trust_path = Some []" "map_of s0 certificates_path = Some []"
    "map_of s0 add_path = Some []" "map_of s0 distrust_path = None" "map_of s0 (add_path @ [''corp'']) = None"
    by (simp_all add: s0_def seeded_def paths_neq)
  have s: "map_of s trust_path = Some []" "map_of s certificates_path = Some []"
    "map_of s add_path = Some []" "map_of s distrust_path = None"
    using s0 by (simp_all add: s_def paths_neq)
  have names: "filter (\<lambda>q. q \<noteq> [] \<and> butlast q = add_path \<and> backslash \<notin> set (last q)) (map fst s0) = []"
    by (simp add: s0_def seeded_def add_path_def trust_path_def certificates_path_def)
  have "open_child (list_view s) (Some add_path) ''corp'' = Inr (Some (add_path @ [''corp'']))"
    by (simp add: open_child_def optional_def list_view_def key_path_def s_def)
  moreover have "read_value (list_view s) (add_path @ [''corp'']) ''Certificate'' = Inr (Some \<lparr>v_type = REG_BINARY, v_data = [2]\<rparr>)"
    "read_value (list_view s) (add_path @ [''corp'']) ''Purposes'' = Inr None"
    by (simp_all add: read_value_def optional_def list_view_def s_def CERTIFICATE_VALUE_def no_such_def)
  ultimately have e: "add_entry (list_view s) add_path (as_bytes ''corp'') =
      Inr (Some \<lparr>add_name = ''corp'', add_der = [2], add_purposes = []\<rparr>)"
    by (simp add: add_entry_def text_of_def strings_def utf8_ascii)
  have l: "load (list_view s) = Inr \<lparr>g_additions = [\<lparr>add_name = ''corp'', add_der = [2], add_purposes = []\<rparr>],
      g_distrust = [], g_compat = CompatFiles, g_control_security = None\<rparr>"
    using s e names by (simp add: load_list load_distrust_list load_additions_list s_def)
  have l0: "load (list_view s0) = Inr config_default"
    using s0 names by (simp add: load_list load_distrust_list load_additions_list config_default_def)
  have r: "remove_addition list_registry ''corp'' s = (Inr (), s0)"
    using s(3) by (simp add: remove_addition_def list_registry_def key_path_def paths Let_def shownR_pair s_def s0_def seeded_def
        paths_neq)
  have rooted: "rooted (list_content s)" "sprouted (list_content s)"
    using list_rooted [OF s(1,2)] s(3) by (simp_all add: sprouted_def list_content_def)
  have view: "reg_view list_registry = list_view" by (simp add: list_registry_def)
  from remove_takes_out [OF list_truthful_view list_truthful_writes rooted _ r l [folded view] l0 [folded view]]
  have "g_additions config_default = []" by simp
  then show ?thesis using l l0 r by blast
qed

text \<open>
  C27. A restore takes back a distrust: after distrusting a fingerprint that was not distrusted, in any
  spelling, and restoring it, the daemon loads the configuration it loaded before, all of it.
\<close>

theorem restore_undoes:
  assumes "truthful_view W content path" and "truthful_writes W content path"
    and "rooted (content s)" and "sprouted (content s)"
    and "distrust W M describe_error ep fp reason s = Some (Inr was, s1)"
    and "restore W argument s1 = (Inr (normalise_fingerprint fp), s2)"
    and "load (reg_view W s) = Inr c" and "load (reg_view W s2) = Inr c2"
    and "normalise_fingerprint fp \<notin> set (g_distrust c)"
  shows "c2 = c"
proof -
  let ?fp = "normalise_fingerprint fp" and ?vs = "values_at (content s) distrust_path"
  note d = distrust_tree [OF assms(2,5)] and r = restore_tree [OF assms(2,6)]
  have rooted: "rooted (content s2)" using d r changed_at_rooted by blast
  have add: "content s2 (add_path @ n) = content s (add_path @ n)" for n using d r by simp
  then have same: "additions_in (content s2) = additions_in (content s)" "content s2 add_path = content s add_path"
    using add [of "[]"] by (simp_all add: additions_in_def values_at_def)
  then have sprouted: "sprouted (content s2)" using assms(4) by (simp add: sprouted_def)
  have "values_at (content s2) distrust_path = ?vs(?fp := None)" using d r by (simp add: changed_at_def)
  moreover have old: "set (g_distrust c) = normalise_fingerprint ` {n \<in> dom ?vs. spells n}"
    using loaded_distrust [OF assms(1,7,3)] .
  moreover have "\<not> (?fp \<in> dom ?vs \<and> spells ?fp)"
  proof
    assume "?fp \<in> dom ?vs \<and> spells ?fp"
    then have "normalise_fingerprint ?fp \<in> set (g_distrust c)" unfolding old by blast
    then show False using assms(9) by (simp add: normalise_idem)
  qed
  then have "{n \<in> dom (?vs(?fp := None)). spells n} = {n \<in> dom ?vs. spells n}" by auto
  ultimately have "set (g_distrust c2) = set (g_distrust c)"
    using loaded_distrust [OF assms(1,8) rooted] by simp
  then have "g_distrust c2 = g_distrust c" by (rule distrust_unique [OF assms(8,7)])
  moreover have "g_additions c2 = g_additions c"
    using loaded_additions [OF assms(1,8) rooted sprouted] loaded_additions [OF assms(1,7,3,4)] same
    by (intro additions_unique) simp_all
  moreover have "values_at (content s2) trust_path = values_at (content s) trust_path"
    using d r by (simp add: changed_at_def)
  ultimately show ?thesis using rest_same [OF assms(1,7,8,3) rooted] by simp
qed

theorem restore_undoes_witness:
  "\<exists>s1 s2 c2. distrust list_registry wide (\<lambda>_. []) no_endpoint sample_pasted ''why'' seeded = Some (Inr None, s1) \<and>
    restore list_registry sample_pasted s1 = (Inr (concat (replicate 32 ''ab'')), s2) \<and>
    load (list_view s2) = Inr c2 \<and> c2 = config_default"
proof -
  obtain s1 where s1: "distrust list_registry wide (\<lambda>_. []) no_endpoint sample_pasted ''why'' seeded = Some (Inr None, s1)"
    "map_of s1 trust_path = Some []" "map_of s1 certificates_path = Some []" "map_of s1 add_path = None"
    "map_of s1 distrust_path = Some [(normalise_fingerprint sample_pasted, \<lparr>v_type = REG_SZ, v_data = as_bytes ''why'' @ [0]\<rparr>)]"
    using seeded_distrust [OF sample_spells(1)] by blast
  obtain s2 where s2: "restore list_registry sample_pasted s1 = (Inr (normalise_fingerprint sample_pasted), s2)"
    "load (list_view s2) = Inr config_default"
    using seeded_restore [OF sample_spells(1) s1(2-5)] by blast
  have view: "reg_view list_registry = list_view" by (simp add: list_registry_def)
  obtain c2 where l: "load (list_view s2) = Inr c2" using s2(2) by blast
  from restore_undoes [OF list_truthful_view list_truthful_writes seeded_rooted s1(1) s2(1), of config_default c2]
  have "c2 = config_default" by (simp add: view l load_seeded) (simp add: config_default_def)
  then show ?thesis using s1(1) s2(1) l sample_spells(2) by auto
qed

text \<open>
  C28. What a restore takes back is one entry, by its name: the fingerprint stays distrusted exactly
  when another entry spells it.
\<close>

theorem restore_effect:
  assumes "truthful_view W content path" and "truthful_writes W content path"
    and "rooted (content s)" and "restore W argument s = (Inr fp, s')"
    and "load (reg_view W s') = Inr c'"
  shows "set (g_distrust c') =
    normalise_fingerprint ` {n \<in> dom (values_at (content s) distrust_path). n \<noteq> fp \<and> spells n}"
  using assms by (rule restore_loaded)

theorem restore_effect_witness:
  "\<exists>s1 s2 c2. distrust list_registry wide (\<lambda>_. []) no_endpoint sample_pasted ''why'' seeded = Some (Inr None, s1) \<and>
    restore list_registry sample_pasted s1 = (Inr (concat (replicate 32 ''ab'')), s2) \<and>
    load (list_view s2) = Inr c2 \<and> set (g_distrust c2) = {}"
proof -
  let ?v = "\<lparr>v_type = REG_SZ, v_data = as_bytes ''why'' @ [0]\<rparr>"
  obtain s1 where s1: "distrust list_registry wide (\<lambda>_. []) no_endpoint sample_pasted ''why'' seeded = Some (Inr None, s1)"
    "map_of s1 trust_path = Some []" "map_of s1 certificates_path = Some []" "map_of s1 add_path = None"
    "map_of s1 distrust_path = Some [(normalise_fingerprint sample_pasted, ?v)]"
    using seeded_distrust [OF sample_spells(1)] by blast
  obtain s2 where s2: "restore list_registry sample_pasted s1 = (Inr (normalise_fingerprint sample_pasted), s2)"
    "load (reg_view list_registry s2) = Inr config_default"
    using seeded_restore [OF sample_spells(1) s1(2-5)] by (auto simp: list_registry_def)
  from restore_effect [OF list_truthful_view list_truthful_writes list_rooted [OF s1(2,3)] s2]
  have "set (g_distrust config_default) = {}"
    using s1(5) by (auto simp: values_at_def list_content_def split: if_splits)
  then show ?thesis using s1(1) s2 sample_spells(2) by (auto simp: list_registry_def)
qed

end
