(* ===== verification/Abi.thy ===== *)
theory Abi
  imports Channel ClientCore
begin

text \<open>
  The C representations of the library: the layouts of \<open>trust-abi/src/lib.rs\<close>, the views an \<open>Arena\<close>
  makes of results (\<open>libtrust/src/views.rs\<close>) and the checks of what a caller passes in
  (\<open>libtrust/src/inputs.rs\<close>).

  A span is a pointer and a length. A null pointer has only its length; any other pointer is, by
  the contract of the header, readable for the length that goes with it, and is the list of what it
  points to. Views are read while their result is alive, so their storage is not part of the model.
\<close>

section \<open>Layouts\<close>

datatype 'a span = NullSpan nat | Span "'a list"

type_synonym abi_bytes = "byte span"
type_synonym abi_strings = "byte span span"

record abi_root =
  ar_fingerprint :: abi_bytes
  ar_subject :: abi_bytes
  ar_purposes :: abi_strings
  ar_source :: u32
  ar_name :: abi_bytes
  ar_not_after :: int
  ar_der :: abi_bytes

record abi_status =
  as_generation :: u64
  as_health :: u32
  as_message :: abi_bytes
  as_shipped :: u64
  as_added :: u64
  as_distrusted :: u64
  as_skipped :: u64
  as_effective :: u64
  as_compat_mode :: u32
  as_rendered :: abi_strings

record abi_parsed =
  ap_der :: abi_bytes
  ap_fingerprint :: abi_bytes
  ap_subject :: abi_bytes
  ap_not_after :: int
  ap_subject_hash :: abi_bytes

record abi_details =
  ad_common_name :: abi_bytes
  ad_organisation :: abi_bytes
  ad_unit :: abi_bytes
  ad_country :: abi_bytes
  ad_subject :: abi_bytes
  ad_issuer :: abi_bytes
  ad_serial :: abi_bytes
  ad_not_before :: int
  ad_not_after :: int
  ad_key :: abi_bytes
  ad_ca :: u32

record abi_distrusted =
  ax_fingerprint :: abi_bytes
  ax_reason :: abi_bytes

fun span_len :: "'a span \<Rightarrow> nat" where
  "span_len (NullSpan n) = n"
| "span_len (Span xs) = length xs"

section \<open>Views\<close>

definition absent :: abi_bytes where
  "absent = NullSpan 0"

definition arena_bytes :: "bytes \<Rightarrow> abi_bytes" where
  "arena_bytes value = Span value"

definition arena_text :: "string \<Rightarrow> abi_bytes" where
  "arena_text value = arena_bytes (as_bytes value)"

definition arena_maybe_text :: "string option \<Rightarrow> abi_bytes" where
  "arena_maybe_text value = (case value of None \<Rightarrow> absent | Some t \<Rightarrow> arena_text t)"

definition arena_strings :: "string list \<Rightarrow> abi_strings" where
  "arena_strings values = Span (map arena_text values)"

definition arena_byte_list :: "bytes list \<Rightarrow> abi_strings" where
  "arena_byte_list values = Span (map arena_bytes values)"

definition arena_root :: "root \<Rightarrow> abi_root" where
  "arena_root r = \<lparr>
     ar_fingerprint = arena_text (r_fingerprint r),
     ar_subject = arena_text (r_subject r),
     ar_purposes = arena_strings (r_purposes r),
     ar_source = (case r_source r of Shipped \<Rightarrow> 0 | Added \<Rightarrow> 1),
     ar_name = arena_maybe_text (r_name r),
     ar_not_after = r_not_after r,
     ar_der = arena_bytes (r_der r)\<rparr>"

definition arena_root_list :: "root list \<Rightarrow> abi_root span" where
  "arena_root_list values = Span (map arena_root values)"

definition arena_status :: "status \<Rightarrow> abi_status" where
  "arena_status s = \<lparr>
     as_generation = s_generation s,
     as_health = (case s_health s of HealthOk \<Rightarrow> 0 | Degraded \<Rightarrow> 1),
     as_message = arena_maybe_text (s_message s),
     as_shipped = s_shipped s,
     as_added = s_added s,
     as_distrusted = s_distrusted s,
     as_skipped = s_skipped s,
     as_effective = s_effective s,
     as_compat_mode = s_compat_mode s,
     as_rendered = arena_strings (s_rendered s)\<rparr>"

definition arena_parsed :: "parsed \<Rightarrow> abi_parsed" where
  "arena_parsed p = \<lparr>
     ap_der = arena_bytes (der p),
     ap_fingerprint = arena_text (fingerprint p),
     ap_subject = arena_text (subject p),
     ap_not_after = not_after p,
     ap_subject_hash = arena_text (subject_hash_text p)\<rparr>"

definition arena_details :: "details \<Rightarrow> abi_details" where
  "arena_details d = \<lparr>
     ad_common_name = arena_maybe_text (common_name d),
     ad_organisation = arena_maybe_text (organisation d),
     ad_unit = arena_maybe_text (unit_name d),
     ad_country = arena_maybe_text (country d),
     ad_subject = arena_text (d_subject d),
     ad_issuer = arena_text (d_issuer d),
     ad_serial = arena_text (d_serial d),
     ad_not_before = d_not_before d,
     ad_not_after = d_not_after d,
     ad_key = arena_text (d_key d),
     ad_ca = (if d_ca d then 1 else 0)\<rparr>"

definition arena_distrusted :: "distrusted \<Rightarrow> abi_distrusted" where
  "arena_distrusted x = \<lparr>
     ax_fingerprint = arena_text (x_fingerprint x),
     ax_reason = arena_text (x_reason x)\<rparr>"

definition arena_distrusted_list :: "distrusted list \<Rightarrow> abi_distrusted span" where
  "arena_distrusted_list values = Span (map arena_distrusted values)"

section \<open>Inputs\<close>

definition MAX_TEXT_BYTES :: nat where
  "MAX_TEXT_BYTES = 4 * 1024 * 1024"

text \<open>\<open>width\<close> is the size of an element; \<open>isize::MAX\<close> is that of a 64-bit machine.\<close>

definition input_array :: "nat \<Rightarrow> 'a span \<Rightarrow> io_error + 'a list" where
  "input_array width value =
     (if span_len value = 0 then Inr []
      else case value of
        NullSpan _ \<Rightarrow> Inl (invalid_input ''invalid array span'')
      | Span xs \<Rightarrow>
          if (2 ^ 63 - 1) div max width 1 < length xs then Inl (invalid_input ''invalid array span'')
          else Inr xs)"

definition input_bytes :: "abi_bytes \<Rightarrow> io_error + bytes" where
  "input_bytes value =
     (if MAX_TEXT_BYTES < span_len value then Inl (invalid_input ''input span exceeds 4 MiB'')
      else input_array 1 value)"

definition input_text :: "abi_bytes \<Rightarrow> io_error + string" where
  "input_text value =
     bindE (input_bytes value) (\<lambda>bs.
       if utf8 (from_bytes bs) then Inr (from_bytes bs) else Inl (invalid_input ''text is not UTF-8''))"

definition input_boolean :: "u32 \<Rightarrow> io_error + bool" where
  "input_boolean value =
     (if value = 0 then Inr False
      else if value = 1 then Inr True
      else Inl (invalid_input ''boolean must be 0 or 1''))"

definition input_maybe_text :: "abi_bytes \<Rightarrow> io_error + string option" where
  "input_maybe_text value =
     (case value of
        NullSpan n \<Rightarrow>
          if n \<noteq> 0 then Inl (invalid_input ''absent text has nonzero length'') else Inr None
      | Span _ \<Rightarrow> bindE (input_text value) (\<lambda>t. Inr (Some t)))"

text \<open>
  The closure over the spans of a list. A sum that does not fit in a \<open>usize\<close> is above the limit as
  well, so \<open>checked_add\<close> and the filter are the one comparison.
\<close>

fun strings_loop :: "nat \<Rightarrow> abi_bytes list \<Rightarrow> io_error + string list" where
  "strings_loop used [] = Inr []"
| "strings_loop used (value # values) =
     (if MAX_TEXT_BYTES < used + span_len value
      then Inl (invalid_input ''string list exceeds 4 MiB'')
      else bindE (input_text value) (\<lambda>t.
           bindE (strings_loop (used + span_len value) values) (\<lambda>ts. Inr (t # ts))))"

definition input_strings :: "abi_strings \<Rightarrow> io_error + string list" where
  "input_strings value =
     (if 65536 < span_len value then Inl (invalid_input ''too many strings'')
      else bindE (input_array 16 value) (strings_loop 0))"

section \<open>What the checks let through\<close>

lemma input_bytes_arena [simp]:
  "length bs \<le> MAX_TEXT_BYTES \<Longrightarrow> input_bytes (arena_bytes bs) = Inr bs"
  by (auto simp: input_bytes_def arena_bytes_def input_array_def MAX_TEXT_BYTES_def)

lemma input_text_arena [simp]:
  "length t \<le> MAX_TEXT_BYTES \<Longrightarrow> utf8 t \<Longrightarrow> input_text (arena_text t) = Inr t"
  by (simp add: input_text_def arena_text_def)

lemma input_maybe_text_arena:
  assumes "\<forall>t. v = Some t \<longrightarrow> length t \<le> MAX_TEXT_BYTES \<and> utf8 t"
  shows "input_maybe_text (arena_maybe_text v) = Inr v"
proof (cases v)
  case None
  then show ?thesis by (simp add: input_maybe_text_def arena_maybe_text_def absent_def)
next
  case (Some t)
  then have "input_text (Span (as_bytes t)) = Inr t"
    using assms input_text_arena [of t] by (simp add: arena_text_def arena_bytes_def)
  then show ?thesis by (simp add: Some input_maybe_text_def arena_maybe_text_def arena_text_def arena_bytes_def)
qed

lemma input_boolean_of [simp]: "input_boolean (if b then 1 else 0) = Inr b"
  by (simp add: input_boolean_def)

lemma span_len_arena_text [simp]: "span_len (arena_text t) = length t"
  by (simp add: arena_text_def arena_bytes_def)

lemma strings_loop_arena:
  assumes "used + sum_list (map length ts) \<le> MAX_TEXT_BYTES" and "\<forall>t \<in> set ts. utf8 t"
  shows "strings_loop used (map arena_text ts) = Inr ts"
  using assms by (induction ts arbitrary: used) (simp_all add: add.assoc)

lemma input_strings_arena:
  assumes "length ts \<le> 65536" and "sum_list (map length ts) \<le> MAX_TEXT_BYTES" and "\<forall>t \<in> set ts. utf8 t"
  shows "input_strings (arena_strings ts) = Inr ts"
  using assms strings_loop_arena [of 0 ts]
  by (auto simp: input_strings_def arena_strings_def input_array_def)

text \<open>And nothing else gets through: what an input check accepts is within its bound.\<close>

lemma input_array_Inr: "input_array width value = Inr xs \<Longrightarrow> length xs = span_len value"
  by (auto simp: input_array_def split: span.splits if_splits)

lemma input_bytes_bound: "input_bytes value = Inr bs \<Longrightarrow> length bs \<le> MAX_TEXT_BYTES"
  by (auto simp: input_bytes_def dest!: input_array_Inr split: if_splits)

lemma input_text_Inr: "input_text value = Inr t \<Longrightarrow> utf8 t \<and> length t = span_len value"
  by (auto simp: input_text_def input_bytes_def conv dest!: input_array_Inr split: if_splits)

lemma strings_loop_Inr:
  "strings_loop used values = Inr ts \<Longrightarrow> used \<le> MAX_TEXT_BYTES \<Longrightarrow>
    used + sum_list (map length ts) \<le> MAX_TEXT_BYTES \<and> (\<forall>t \<in> set ts. utf8 t) \<and> length ts = length values"
proof (induction used "values" arbitrary: ts rule: strings_loop.induct)
  case (1 used)
  then show ?case by simp
next
  case (2 used v vs)
  obtain t rest where t: "input_text v = Inr t" and r: "strings_loop (used + span_len v) vs = Inr rest"
    and ts: "ts = t # rest" and le: "used + span_len v \<le> MAX_TEXT_BYTES"
    using "2.prems" by (auto simp: conv split: if_splits)
  from 2(1) [OF _ r le] le show ?case using input_text_Inr [OF t] by (simp add: ts)
qed

lemma input_strings_Inr:
  "input_strings value = Inr ts \<Longrightarrow> sum_list (map length ts) \<le> MAX_TEXT_BYTES \<and>
    length ts \<le> 65536 \<and> (\<forall>t \<in> set ts. utf8 t)"
  by (auto simp: input_strings_def conv dest!: input_array_Inr strings_loop_Inr split: if_splits)

end
