(* ===== verification/Libtrust.thy ===== *)
theory Libtrust
  imports Abi
begin

text \<open>
  The shared library's C interface (\<open>libtrust/src/lib.rs\<close>): results and what they report, exchanges
  with the daemon, subscriptions, and the management and certificate calls.

  A pointer to a result or a subscription is an option, null being \<open>None\<close>. An outer option is, as
  in \<open>ClientCore\<close>, the panic of a message that does not encode. The kernel, the registry, the clock
  and the other crates are the parameters of \<open>Channel\<close>, \<open>ClientCore\<close> and \<open>Cert\<close>.
\<close>

section \<open>Failures\<close>

definition FAILURE_NONE :: u32 where "FAILURE_NONE = 0"

definition FAILURE_OTHER :: u32 where "FAILURE_OTHER = 1"

definition FAILURE_DENIED :: u32 where "FAILURE_DENIED = 2"

definition FAILURE_NOT_FOUND :: u32 where "FAILURE_NOT_FOUND = 3"

definition FAILURE_MALFORMED :: u32 where "FAILURE_MALFORMED = 4"

definition FAILURE_NOT_A_CA :: u32 where "FAILURE_NOT_A_CA = 5"

definition FAILURE_EXPIRED :: u32 where "FAILURE_EXPIRED = 6"

definition FAILURE_NO_CERTIFICATE :: u32 where "FAILURE_NO_CERTIFICATE = 7"

lemmas failure_defs = FAILURE_NONE_def FAILURE_OTHER_def FAILURE_DENIED_def FAILURE_NOT_FOUND_def
  FAILURE_MALFORMED_def FAILURE_NOT_A_CA_def FAILURE_EXPIRED_def FAILURE_NO_CERTIFICATE_def

text \<open>An \<open>io::Error\<close> of this crate: an ordinary one, or one that carries a \<open>Kinded\<close>.\<close>

datatype lib_error = Plain io_error | Kinded io_kind u32 string

fun lib_kind :: "lib_error \<Rightarrow> io_kind" where
  "lib_kind (Plain e) = io_kind e"
| "lib_kind (Kinded kind _ _) = kind"

fun lib_raw :: "lib_error \<Rightarrow> nat option" where
  "lib_raw (Plain e) = raw_os_error e"
| "lib_raw (Kinded _ _ _) = None"

fun lib_text :: "lib_error \<Rightarrow> string" where
  "lib_text (Plain e) = io_text e"
| "lib_text (Kinded _ _ message) = message"

fun cert_failure :: "cert_error \<Rightarrow> u32" where
  "cert_failure (Malformed _) = FAILURE_MALFORMED"
| "cert_failure NotACa = FAILURE_NOT_A_CA"
| "cert_failure Expired = FAILURE_EXPIRED"
| "cert_failure NoCertificate = FAILURE_NO_CERTIFICATE"

definition refused_cert :: "cert_error \<Rightarrow> lib_error" where
  "refused_cert e = Kinded InvalidData (cert_failure e) (cert_error_text e)"

definition management_error :: "client_error \<Rightarrow> lib_error" where
  "management_error e =
     (case e of
        Denied _ \<Rightarrow> Kinded PermissionDenied FAILURE_DENIED (client_error_text e)
      | Absent _ \<Rightarrow> Kinded NotFound FAILURE_NOT_FOUND (client_error_text e)
      | Failed _ \<Rightarrow> Kinded OtherKind FAILURE_OTHER (client_error_text e))"

section \<open>Results\<close>

datatype payload =
    PayloadEmpty
  | PayloadText abi_bytes
  | PayloadBytes abi_bytes
  | PayloadBoolean u32
  | PayloadRootList "abi_root span"
  | PayloadStatus abi_status
  | PayloadParsed abi_parsed
  | PayloadDetails abi_details
  | PayloadDistrustedList "abi_distrusted span"
  | PayloadByteList abi_strings

record result_handle =
  rh_generation :: u64
  rh_error :: nat
  rh_failure :: u32
  rh_message :: abi_bytes
  rh_payload :: payload

definition result_default :: result_handle where
  "result_default = \<lparr>rh_generation = 0, rh_error = 0, rh_failure = FAILURE_NONE, rh_message = absent,
     rh_payload = PayloadEmpty\<rparr>"

definition carrying :: "payload \<Rightarrow> result_handle" where
  "carrying p = result_default\<lparr>rh_payload := p\<rparr>"

definition EINVAL :: nat where "EINVAL = 22"

text \<open>The numbers of \<open>libc\<close> on Linux: EINVAL, ETIMEDOUT, EACCES, ENOTCONN, ENOENT, EIO.\<close>

fun errno_of_kind :: "io_kind \<Rightarrow> nat" where
  "errno_of_kind InvalidInput = EINVAL"
| "errno_of_kind InvalidData = EINVAL"
| "errno_of_kind TimedOut = 110"
| "errno_of_kind PermissionDenied = 13"
| "errno_of_kind NotConnected = 107"
| "errno_of_kind NotFound = 2"
| "errno_of_kind _ = 5"

fun failure_of :: "lib_error \<Rightarrow> u32" where
  "failure_of (Kinded _ failure _) = failure"
| "failure_of (Plain e) =
     (case io_kind e of
        PermissionDenied \<Rightarrow> FAILURE_DENIED
      | NotFound \<Rightarrow> FAILURE_NOT_FOUND
      | _ \<Rightarrow> FAILURE_OTHER)"

definition result_of_error :: "lib_error \<Rightarrow> result_handle" where
  "result_of_error e = result_default\<lparr>
     rh_error := (case lib_raw e of Some n \<Rightarrow> n | None \<Rightarrow> errno_of_kind (lib_kind e)),
     rh_failure := failure_of e,
     rh_message := arena_text (lib_text e)\<rparr>"

definition finish :: "lib_error + result_handle \<Rightarrow> result_handle" where
  "finish r = (case r of Inl e \<Rightarrow> result_of_error e | Inr result \<Rightarrow> result)"

subsection \<open>Reading a result\<close>

definition peios_trust_result_error :: "result_handle option \<Rightarrow> nat" where
  "peios_trust_result_error result = (case result of None \<Rightarrow> EINVAL | Some r \<Rightarrow> rh_error r)"

definition peios_trust_result_failure :: "result_handle option \<Rightarrow> u32" where
  "peios_trust_result_failure result = (case result of None \<Rightarrow> FAILURE_OTHER | Some r \<Rightarrow> rh_failure r)"

definition peios_trust_result_message :: "result_handle option \<Rightarrow> abi_bytes" where
  "peios_trust_result_message result = (case result of None \<Rightarrow> absent | Some r \<Rightarrow> rh_message r)"

definition peios_trust_result_text :: "result_handle option \<Rightarrow> abi_bytes option" where
  "peios_trust_result_text result =
     (case map_option rh_payload result of Some (PayloadText view) \<Rightarrow> Some view | _ \<Rightarrow> None)"

definition peios_trust_result_bytes :: "result_handle option \<Rightarrow> abi_bytes option" where
  "peios_trust_result_bytes result =
     (case map_option rh_payload result of Some (PayloadBytes view) \<Rightarrow> Some view | _ \<Rightarrow> None)"

definition peios_trust_result_boolean :: "result_handle option \<Rightarrow> u32 option" where
  "peios_trust_result_boolean result =
     (case map_option rh_payload result of Some (PayloadBoolean view) \<Rightarrow> Some view | _ \<Rightarrow> None)"

definition peios_trust_result_status :: "result_handle option \<Rightarrow> abi_status option" where
  "peios_trust_result_status result =
     (case map_option rh_payload result of Some (PayloadStatus view) \<Rightarrow> Some view | _ \<Rightarrow> None)"

definition peios_trust_result_parsed :: "result_handle option \<Rightarrow> abi_parsed option" where
  "peios_trust_result_parsed result =
     (case map_option rh_payload result of Some (PayloadParsed view) \<Rightarrow> Some view | _ \<Rightarrow> None)"

definition peios_trust_result_details :: "result_handle option \<Rightarrow> abi_details option" where
  "peios_trust_result_details result =
     (case map_option rh_payload result of Some (PayloadDetails view) \<Rightarrow> Some view | _ \<Rightarrow> None)"

definition peios_trust_result_root_list :: "result_handle option \<Rightarrow> abi_root span option" where
  "peios_trust_result_root_list result =
     (case map_option rh_payload result of Some (PayloadRootList view) \<Rightarrow> Some view | _ \<Rightarrow> None)"

definition peios_trust_result_byte_list :: "result_handle option \<Rightarrow> abi_strings option" where
  "peios_trust_result_byte_list result =
     (case map_option rh_payload result of Some (PayloadByteList view) \<Rightarrow> Some view | _ \<Rightarrow> None)"

definition peios_trust_result_distrusted_list :: "result_handle option \<Rightarrow> abi_distrusted span option" where
  "peios_trust_result_distrusted_list result =
     (case map_option rh_payload result of Some (PayloadDistrustedList view) \<Rightarrow> Some view | _ \<Rightarrow> None)"

definition peios_trust_result_generation :: "result_handle option \<Rightarrow> u64" where
  "peios_trust_result_generation result = (case result of None \<Rightarrow> 0 | Some r \<Rightarrow> rh_generation r)"

lemmas accessor_defs =
  peios_trust_result_error_def peios_trust_result_failure_def peios_trust_result_message_def
  peios_trust_result_text_def peios_trust_result_bytes_def peios_trust_result_boolean_def
  peios_trust_result_status_def peios_trust_result_parsed_def peios_trust_result_details_def
  peios_trust_result_root_list_def peios_trust_result_byte_list_def
  peios_trust_result_distrusted_list_def peios_trust_result_generation_def

section \<open>Exchanges\<close>

fun reply_result :: "Reply \<Rightarrow> lib_error + result_handle" where
  "reply_result ReplyOk = Inr result_default"
| "reply_result (ReplyError message) = Inl (Plain (IoError OtherKind None message))"
| "reply_result (ReplyStatus s) = Inr (carrying (PayloadStatus (arena_status s)))"
| "reply_result (ReplyRoots generation roots _) =
     Inr ((carrying (PayloadRootList (arena_root_list roots)))\<lparr>rh_generation := generation\<rparr>)"

fun expected :: "Request \<Rightarrow> Reply \<Rightarrow> bool" where
  "expected _ (ReplyError _) = True"
| "expected ReqStatus (ReplyStatus _) = True"
| "expected ReqReload ReplyOk = True"
| "expected (ReqRoots _ _) (ReplyRoots _ _ _) = True"
| "expected (ReqSubscribe _) (ReplyRoots _ _ _) = True"
| "expected _ _ = False"

definition MAX_SNAPSHOT_BYTES :: nat where
  "MAX_SNAPSHOT_BYTES = 16 * 1024 * 1024"

text \<open>The chunks of a snapshot put together; draining empties \<open>pending\<close> on every path.\<close>

fun gather :: "u64 option \<Rightarrow> root list \<Rightarrow> Reply list \<Rightarrow> io_error + Reply" where
  "gather generation roots [] =
     Inr (ReplyRoots (case generation of None \<Rightarrow> 0 | Some g \<Rightarrow> g) roots False)"
| "gather generation roots (ReplyRoots current batch _ # replies) =
     (if (case generation of None \<Rightarrow> False | Some previous \<Rightarrow> previous \<noteq> current)
      then Inl (invalid_input ''root generation changed between chunks'')
      else gather (Some current) (roots @ batch) replies)"
| "gather generation roots (_ # replies) = gather generation roots replies"

function receive_turns ::
  "('r, 'e) msgpack \<Rightarrow> ('e wire_error \<Rightarrow> string) \<Rightarrow> Request \<Rightarrow> nat \<Rightarrow> Reply list \<Rightarrow> nat \<Rightarrow> channel \<Rightarrow>
   ((io_error + Reply) \<times> Reply list \<times> channel) option" where
  "receive_turns M describe_error request end_time pending used ch =
     (case receive M describe_error end_time ch of
        (Inl e, ch') \<Rightarrow> Some (Inl e, pending, ch')
      | (Inr reply, ch') \<Rightarrow>
          if \<not> expected request reply
          then Some (Inl (invalid_input ''unexpected reply type''), pending, ch')
          else (case reply of
             ReplyRoots generation batch announced \<Rightarrow>
               (case encode_reply M reply of
                  None \<Rightarrow> None
                | Some payload \<Rightarrow>
                    if MAX_SNAPSHOT_BYTES < used + length payload
                    then Some (Inl (invalid_input ''snapshot exceeds 16 MiB''), pending, ch')
                    else if announced
                    then receive_turns M describe_error request end_time (pending @ [reply])
                      (used + length payload) ch'
                    else Some (gather None [] (pending @ [reply]), [], ch'))
           | _ \<Rightarrow> Some (Inr reply, [], ch')))"
  by pat_completeness auto
termination
  by (relation "measure (\<lambda>(_, _, _, _, _, _, ch). length (ch_clock ch))") (auto dest!: receive_clock [OF sym])

declare receive_turns.simps [simp del]

text \<open>The encoded size of the chunks kept from earlier calls; encoding one may panic.\<close>

fun pending_size :: "('r, 'e) msgpack \<Rightarrow> Reply list \<Rightarrow> nat option" where
  "pending_size M [] = Some 0"
| "pending_size M (reply # replies) =
     (case encode_reply M reply of
        None \<Rightarrow> None
      | Some payload \<Rightarrow> map_option (\<lambda>n. length payload + n) (pending_size M replies))"

definition receive_complete ::
  "('r, 'e) msgpack \<Rightarrow> ('e wire_error \<Rightarrow> string) \<Rightarrow> Request \<Rightarrow> Reply list \<Rightarrow> nat \<Rightarrow> channel \<Rightarrow>
   ((io_error + Reply) \<times> Reply list \<times> channel) option" where
  "receive_complete M describe_error request pending end_time ch =
     Option.bind (pending_size M pending) (\<lambda>used.
       receive_turns M describe_error request end_time pending used ch)"

definition exchange_call ::
  "('r, 'e) msgpack \<Rightarrow> ('e wire_error \<Rightarrow> string) \<Rightarrow> endpoint \<Rightarrow> bytes \<Rightarrow> u64 \<Rightarrow> Request \<Rightarrow>
   (lib_error + result_handle) option" where
  "exchange_call M describe_error ep path timeout_ms request =
     (case deadline (ep_latest ep) (ep_now ep) timeout_ms of
        Inl e \<Rightarrow> Some (Inl (Plain e))
      | Inr end_time \<Rightarrow>
          (case connect path end_time (ep_connection ep) of
             Inl e \<Rightarrow> Some (Inl (Plain e))
           | Inr ch \<Rightarrow>
               (case send_request M end_time request ch of
                  None \<Rightarrow> None
                | Some (Inl e, ch) \<Rightarrow> Some (Inl (Plain e))
                | Some (Inr _, ch) \<Rightarrow>
                    map_option (\<lambda>(reply, _). bindE (map_err Plain reply) reply_result)
                      (receive_complete M describe_error request [] end_time ch))))"

definition peios_trust_get_status ::
  "('r, 'e) msgpack \<Rightarrow> ('e wire_error \<Rightarrow> string) \<Rightarrow> endpoint \<Rightarrow> abi_bytes \<Rightarrow> u64 \<Rightarrow> result_handle option" where
  "peios_trust_get_status M describe_error ep path timeout_ms =
     map_option finish
       (case input_bytes path of
          Inl e \<Rightarrow> Some (Inl (Plain e))
        | Inr path \<Rightarrow> exchange_call M describe_error ep path timeout_ms ReqStatus)"

definition peios_trust_roots ::
  "('r, 'e) msgpack \<Rightarrow> ('e wire_error \<Rightarrow> string) \<Rightarrow> endpoint \<Rightarrow> abi_bytes \<Rightarrow> u64 \<Rightarrow> u32 \<Rightarrow> abi_bytes \<Rightarrow>
   result_handle option" where
  "peios_trust_roots M describe_error ep path timeout_ms with_der purpose =
     map_option finish
       (case bindE (input_bytes path) (\<lambda>path. bindE (input_boolean with_der) (\<lambda>with_der.
          bindE (input_maybe_text purpose) (\<lambda>purpose. Inr (path, ReqRoots with_der purpose)))) of
          Inl e \<Rightarrow> Some (Inl (Plain e))
        | Inr (path, request) \<Rightarrow> exchange_call M describe_error ep path timeout_ms request)"

definition peios_trust_reload ::
  "('r, 'e) msgpack \<Rightarrow> ('e wire_error \<Rightarrow> string) \<Rightarrow> endpoint \<Rightarrow> abi_bytes \<Rightarrow> u64 \<Rightarrow> result_handle option" where
  "peios_trust_reload M describe_error ep path timeout_ms =
     map_option finish
       (case input_bytes path of
          Inl e \<Rightarrow> Some (Inl (Plain e))
        | Inr path \<Rightarrow> exchange_call M describe_error ep path timeout_ms ReqReload)"

section \<open>Subscriptions\<close>

record subscription =
  sub_channel :: "channel option"
  sub_request :: Request
  sub_pending :: "Reply list"

text \<open>\<open>slot\<close> says whether the caller passed an output slot; the subscription is what is put in it.\<close>

definition peios_trust_subscribe ::
  "('r, 'e) msgpack \<Rightarrow> endpoint \<Rightarrow> abi_bytes \<Rightarrow> u64 \<Rightarrow> u32 \<Rightarrow> bool \<Rightarrow>
   (result_handle \<times> subscription option) option" where
  "peios_trust_subscribe M ep path timeout_ms with_der slot =
     (if \<not> slot then Some (finish (Inl (Plain (invalid_input ''null subscription output''))), None)
      else case bindE (input_boolean with_der) (\<lambda>with_der.
          bindE (deadline (ep_latest ep) (ep_now ep) timeout_ms) (\<lambda>end_time.
          bindE (input_bytes path) (\<lambda>path.
          bindE (connect path end_time (ep_connection ep)) (\<lambda>ch.
          Inr (ReqSubscribe with_der, end_time, ch))))) of
        Inl e \<Rightarrow> Some (finish (Inl (Plain e)), None)
      | Inr (request, end_time, ch) \<Rightarrow>
          map_option (\<lambda>(r, ch).
              case r of
                Inl e \<Rightarrow> (finish (Inl (Plain e)), None)
              | Inr _ \<Rightarrow> (finish (Inr result_default),
                  Some \<lparr>sub_channel = Some ch, sub_request = request, sub_pending = []\<rparr>))
            (send_request M end_time request ch))"

text \<open>One call of \<open>next\<close>, made at the time \<open>now\<close>.\<close>

definition subscription_next ::
  "('r, 'e) msgpack \<Rightarrow> ('e wire_error \<Rightarrow> string) \<Rightarrow> nat \<Rightarrow> nat \<Rightarrow> u64 \<Rightarrow> subscription \<Rightarrow>
   ((lib_error + result_handle) \<times> subscription) option" where
  "subscription_next M describe_error latest now timeout_ms sub =
     (case deadline latest now timeout_ms of
        Inl e \<Rightarrow> Some (Inl (Plain e), sub)
      | Inr end_time \<Rightarrow>
          (case sub_channel sub of
             None \<Rightarrow> Some (Inl (Plain (IoError NotConnected None ''subscription is closed'')), sub)
           | Some ch \<Rightarrow>
               map_option (\<lambda>(reply, pending, ch).
                   let outcome = bindE (map_err Plain reply) reply_result;
                       sub = sub\<lparr>sub_channel := Some ch, sub_pending := pending\<rparr>
                   in (outcome,
                       if (case outcome of Inl e \<Rightarrow> lib_kind e \<noteq> TimedOut | Inr _ \<Rightarrow> False)
                       then sub\<lparr>sub_channel := None, sub_pending := []\<rparr> else sub))
                 (receive_complete M describe_error (sub_request sub) (sub_pending sub) end_time ch)))"

definition peios_trust_subscription_next ::
  "('r, 'e) msgpack \<Rightarrow> ('e wire_error \<Rightarrow> string) \<Rightarrow> nat \<Rightarrow> nat \<Rightarrow> subscription option \<Rightarrow> u64 \<Rightarrow>
   (result_handle \<times> subscription option) option" where
  "peios_trust_subscription_next M describe_error latest now sub timeout_ms =
     (case sub of
        None \<Rightarrow> Some (finish (Inl (Plain (invalid_input ''null subscription''))), None)
      | Some sub \<Rightarrow>
          map_option (\<lambda>(r, sub). (finish r, Some sub))
            (subscription_next M describe_error latest now timeout_ms sub))"

end
