(* ===== verification/Manage.thy ===== *)
theory Manage
  imports Libtrust
begin

text \<open>
  The management and certificate calls of the C interface (the rest of \<open>libtrust/src/lib.rs\<close>): each
  checks its inputs, calls the client core or the certificate code, and puts the answer, or the
  failure with its kind, into a result. A call that changes the registry passes its state through,
  and leaves it alone when an input is refused.
\<close>

section \<open>Certificates\<close>

definition peios_trust_certificate :: "abi_bytes \<Rightarrow> abi_bytes \<Rightarrow> result_handle" where
  "peios_trust_certificate bs description =
     finish (bindE (map_err Plain (input_bytes bs)) (\<lambda>bs.
       bindE (map_err Plain (input_text description)) (\<lambda>description.
       bindE (map_err management_error (certificate_of bs description)) (\<lambda>cert.
       Inr (carrying (PayloadBytes (arena_bytes cert)))))))"

definition peios_trust_inspect :: "lib \<Rightarrow> abi_bytes \<Rightarrow> result_handle" where
  "peios_trust_inspect L cert =
     finish (bindE (map_err Plain (input_bytes cert)) (\<lambda>cert.
       bindE (map_err refused_cert (describe L cert)) (\<lambda>d.
       Inr (carrying (PayloadDetails (arena_details d))))))"

definition peios_trust_vet :: "lib \<Rightarrow> int option \<Rightarrow> abi_bytes \<Rightarrow> result_handle" where
  "peios_trust_vet L now cert =
     finish (bindE (map_err Plain (input_bytes cert)) (\<lambda>cert.
       bindE (map_err refused_cert (vet L now cert)) (\<lambda>p.
       Inr (carrying (PayloadParsed (arena_parsed p))))))"

definition text_result :: "string \<Rightarrow> result_handle" where
  "text_result t = carrying (PayloadText (arena_text t))"

definition peios_trust_fingerprint :: "lib \<Rightarrow> abi_bytes \<Rightarrow> result_handle" where
  "peios_trust_fingerprint L cert =
     finish (bindE (map_err Plain (input_bytes cert)) (\<lambda>cert. Inr (text_result (fingerprint_of L cert))))"

definition peios_trust_to_pem :: "abi_bytes \<Rightarrow> result_handle" where
  "peios_trust_to_pem cert =
     finish (bindE (map_err Plain (input_bytes cert)) (\<lambda>cert. Inr (text_result (to_pem cert))))"

definition peios_trust_from_pem :: "abi_bytes \<Rightarrow> result_handle" where
  "peios_trust_from_pem document =
     finish (bindE (map_err Plain (input_text document)) (\<lambda>document.
       Inr (carrying (PayloadByteList (arena_byte_list (from_pem document))))))"

definition peios_trust_normalise_fingerprint :: "abi_bytes \<Rightarrow> result_handle" where
  "peios_trust_normalise_fingerprint t =
     finish (bindE (map_err Plain (input_text t)) (\<lambda>t. Inr (text_result (normalise_fingerprint t))))"

definition peios_trust_fingerprint_in :: "abi_bytes \<Rightarrow> abi_strings \<Rightarrow> result_handle" where
  "peios_trust_fingerprint_in t fingerprints =
     finish (bindE (map_err Plain (input_text t)) (\<lambda>t.
       bindE (map_err Plain (input_strings fingerprints)) (\<lambda>fingerprints.
       bindE (map_err management_error (fingerprint_among t fingerprints)) (\<lambda>fp.
       Inr (text_result fp)))))"

text \<open>\<open>None\<close> is the panic of a call to the daemon, as in \<open>ClientCore.resolve\<close>.\<close>

definition peios_trust_resolve ::
  "('r, 'e) msgpack \<Rightarrow> ('e wire_error \<Rightarrow> string) \<Rightarrow> endpoint \<Rightarrow> lib \<Rightarrow> (string \<Rightarrow> io_error + bytes) \<Rightarrow>
   abi_bytes \<Rightarrow> result_handle option" where
  "peios_trust_resolve M describe_error ep L read_file argument =
     (case input_text argument of
        Inl e \<Rightarrow> Some (finish (Inl (Plain e)))
      | Inr argument \<Rightarrow>
          map_option (\<lambda>r. finish (bindE (map_err management_error r) (\<lambda>fp.
              Inr (carrying (PayloadText (arena_text fp))))))
            (resolve M describe_error ep L read_file argument))"

section \<open>Rights\<close>

definition peios_trust_usable_name :: "abi_bytes \<Rightarrow> result_handle" where
  "peios_trust_usable_name name =
     finish (bindE (map_err Plain (input_text name)) (\<lambda>name.
       Inr (carrying (PayloadBoolean (if usable_name name then 1 else 0)))))"

definition peios_trust_may_reload ::
  "('k, 's) registry_api \<Rightarrow> ('sd, 'tok, 'conn) security \<Rightarrow> 'tok \<Rightarrow> 's \<Rightarrow> result_handle option" where
  "peios_trust_may_reload W S own s =
     map_option (\<lambda>may. finish (Inr (carrying (PayloadBoolean (if may then 1 else 0))))) (may_reload W S own s)"

text \<open>The result of a call that answers nothing.\<close>

definition unit_result :: "client_error + unit \<Rightarrow> result_handle" where
  "unit_result r = finish (bindE (map_err management_error r) (\<lambda>_. Inr result_default))"

definition peios_trust_may_change :: "('k, 's) registry_api \<Rightarrow> 's \<Rightarrow> result_handle" where
  "peios_trust_may_change W s = unit_result (may_change W s)"

definition peios_trust_may_set_compat :: "('k, 's) registry_api \<Rightarrow> 's \<Rightarrow> result_handle" where
  "peios_trust_may_set_compat W s = unit_result (may_set_compat W s)"

section \<open>Changes\<close>

definition peios_trust_set_compat :: "('k, 's) registry_api \<Rightarrow> u32 \<Rightarrow> 's \<Rightarrow> result_handle \<times> 's" where
  "peios_trust_set_compat W mode s = (case set_compat W mode s of (r, s) \<Rightarrow> (unit_result r, s))"

definition peios_trust_add ::
  "('k, 's) registry_api \<Rightarrow> lib \<Rightarrow> (string \<Rightarrow> string) \<Rightarrow> int option \<Rightarrow> abi_bytes \<Rightarrow> abi_bytes \<Rightarrow> abi_strings \<Rightarrow>
   's \<Rightarrow> result_handle \<times> 's" where
  "peios_trust_add W L debug now name cert purposes s =
     (case bindE (input_text name) (\<lambda>name. bindE (input_bytes cert) (\<lambda>cert.
         bindE (input_strings purposes) (\<lambda>purposes. Inr (name, cert, purposes)))) of
        Inl e \<Rightarrow> (finish (Inl (Plain e)), s)
      | Inr (name, cert, purposes) \<Rightarrow>
          (case add W L debug now name cert purposes s of
             (r, s) \<Rightarrow> (finish (bindE (map_err management_error r) (\<lambda>p.
                 Inr (carrying (PayloadParsed (arena_parsed p))))), s)))"

definition peios_trust_remove :: "('k, 's) registry_api \<Rightarrow> abi_bytes \<Rightarrow> 's \<Rightarrow> result_handle \<times> 's" where
  "peios_trust_remove W name s =
     (case input_text name of
        Inl e \<Rightarrow> (finish (Inl (Plain e)), s)
      | Inr name \<Rightarrow> (case remove_addition W name s of (r, s) \<Rightarrow> (unit_result r, s)))"

definition peios_trust_get_distrusted :: "('k, 's) registry_api \<Rightarrow> 's \<Rightarrow> result_handle" where
  "peios_trust_get_distrusted W s =
     finish (bindE (map_err management_error (get_distrusted W s)) (\<lambda>entries.
       Inr (carrying (PayloadDistrustedList (arena_distrusted_list entries)))))"

definition peios_trust_distrust ::
  "('k, 's) registry_api \<Rightarrow> ('r, 'e) msgpack \<Rightarrow> ('e wire_error \<Rightarrow> string) \<Rightarrow> endpoint \<Rightarrow> abi_bytes \<Rightarrow> abi_bytes \<Rightarrow>
   's \<Rightarrow> (result_handle \<times> 's) option" where
  "peios_trust_distrust W M describe_error ep fp reason s =
     (case bindE (input_text fp) (\<lambda>fp. bindE (input_text reason) (\<lambda>reason. Inr (fp, reason))) of
        Inl e \<Rightarrow> Some (finish (Inl (Plain e)), s)
      | Inr (fp, reason) \<Rightarrow>
          map_option (\<lambda>(r, s). (finish (bindE (map_err management_error r) (\<lambda>was.
              Inr (carrying (PayloadText (arena_maybe_text was))))), s))
            (distrust W M describe_error ep fp reason s))"

definition peios_trust_restore :: "('k, 's) registry_api \<Rightarrow> abi_bytes \<Rightarrow> 's \<Rightarrow> result_handle \<times> 's" where
  "peios_trust_restore W fp s =
     (case input_text fp of
        Inl e \<Rightarrow> (finish (Inl (Plain e)), s)
      | Inr fp \<Rightarrow>
          (case restore W fp s of
             (r, s) \<Rightarrow> (finish (bindE (map_err management_error r) (\<lambda>fp.
                 Inr (carrying (PayloadText (arena_text fp))))), s)))"

end
