(* ===== verification/TrustClient.thy ===== *)
theory TrustClient
  imports Manage
begin

text \<open>
  The safe Rust client (\<open>trust-client/src/lib.rs\<close> and \<open>decode.rs\<close>): it passes spans to the C
  interface, takes the result, and copies the views into owned values. The calls into libtrust are
  the definitions of \<open>Libtrust\<close> and \<open>Manage\<close>; freeing a result has no effect on the model.
\<close>

section \<open>Errors\<close>

datatype ErrorKind =
    KindOther | KindDenied | KindNotFound | KindMalformed | KindNotACa | KindExpired | KindNoCertificate

record trust_error =
  te_code :: nat
  te_kind :: ErrorKind
  te_message :: string

definition from_failure :: "u32 \<Rightarrow> ErrorKind" where
  "from_failure failure =
     (if failure = 2 then KindDenied
      else if failure = 3 then KindNotFound
      else if failure = 4 then KindMalformed
      else if failure = 5 then KindNotACa
      else if failure = 6 then KindExpired
      else if failure = 7 then KindNoCertificate
      else KindOther)"

definition bad :: "string \<Rightarrow> trust_error" where
  "bad message = \<lparr>te_code = EINVAL, te_kind = KindOther, te_message = message\<rparr>"

text \<open>A span of a live slice is never null, an empty one included.\<close>

definition span_of :: "'a list \<Rightarrow> 'a span" where
  "span_of xs = Span xs"

definition maybe_span :: "string option \<Rightarrow> abi_bytes" where
  "maybe_span v = (case v of None \<Rightarrow> NullSpan 0 | Some t \<Rightarrow> span_of (as_bytes t))"

text \<open>A \<open>Duration\<close> is a number of nanoseconds.\<close>

definition timeout_of :: "nat \<Rightarrow> trust_error + u64" where
  "timeout_of nanos =
     (if nanos = 0 then Inl (bad ''timeout must be positive'')
      else let milliseconds = (nanos + 999999) div 1000000
           in if 2 ^ 64 \<le> milliseconds then Inl (bad ''timeout is too large'')
              else Inr (word_of_nat milliseconds))"

section \<open>Owned copies of views\<close>

text \<open>\<open>from_raw_parts\<close> of a null pointer and a length above zero is undefined: an error of its own.\<close>

definition take_array :: "'a span \<Rightarrow> trust_error + 'a list" where
  "take_array value =
     (if span_len value = 0 then Inr []
      else case value of NullSpan _ \<Rightarrow> Inl (bad ''undefined behaviour'') | Span xs \<Rightarrow> Inr xs)"

definition take_text :: "abi_bytes \<Rightarrow> trust_error + string" where
  "take_text value =
     bindE (take_array value) (\<lambda>bs.
       if utf8 (from_bytes bs) then Inr (from_bytes bs) else Inl (bad ''invalid library UTF-8''))"

definition take_maybe_text :: "abi_bytes \<Rightarrow> trust_error + string option" where
  "take_maybe_text value =
     (case value of NullSpan _ \<Rightarrow> Inr None | Span _ \<Rightarrow> bindE (take_text value) (\<lambda>t. Inr (Some t)))"

definition take_strings :: "abi_strings \<Rightarrow> trust_error + string list" where
  "take_strings value = bindE (take_array value) (mapE take_text)"

definition take_byte_list :: "abi_strings \<Rightarrow> trust_error + bytes list" where
  "take_byte_list value = bindE (take_array value) (mapE take_array)"

definition take_root :: "abi_root \<Rightarrow> trust_error + root" where
  "take_root v =
     bindE (take_text (ar_fingerprint v)) (\<lambda>fp.
     bindE (take_text (ar_subject v)) (\<lambda>subj.
     bindE (take_strings (ar_purposes v)) (\<lambda>purposes.
     bindE (if ar_source v = 0 then Inr Shipped
            else if ar_source v = 1 then Inr Added
            else Inl (bad ''unknown library enum'')) (\<lambda>source.
     bindE (take_maybe_text (ar_name v)) (\<lambda>name.
     bindE (take_array (ar_der v)) (\<lambda>cert.
     Inr \<lparr>r_fingerprint = fp, r_subject = subj, r_purposes = purposes, r_source = source, r_name = name,
        r_not_after = ar_not_after v, r_der = cert\<rparr>))))))"

definition take_root_list :: "abi_root span \<Rightarrow> trust_error + root list" where
  "take_root_list value = bindE (take_array value) (mapE take_root)"

definition take_status :: "abi_status \<Rightarrow> trust_error + status" where
  "take_status v =
     bindE (if as_health v = 0 then Inr HealthOk
            else if as_health v = 1 then Inr Degraded
            else Inl (bad ''unknown library enum'')) (\<lambda>health.
     bindE (take_maybe_text (as_message v)) (\<lambda>message.
     bindE (take_strings (as_rendered v)) (\<lambda>rendered.
     Inr \<lparr>s_generation = as_generation v, s_health = health, s_message = message, s_shipped = as_shipped v,
        s_added = as_added v, s_distrusted = as_distrusted v, s_skipped = as_skipped v,
        s_effective = as_effective v, s_compat_mode = as_compat_mode v, s_rendered = rendered\<rparr>)))"

definition take_parsed :: "abi_parsed \<Rightarrow> trust_error + parsed" where
  "take_parsed v =
     bindE (take_array (ap_der v)) (\<lambda>cert.
     bindE (take_text (ap_fingerprint v)) (\<lambda>fp.
     bindE (take_text (ap_subject v)) (\<lambda>subj.
     bindE (take_text (ap_subject_hash v)) (\<lambda>hash.
     Inr \<lparr>der = cert, fingerprint = fp, subject = subj, not_after = ap_not_after v, subject_hash_text = hash\<rparr>))))"

definition take_details :: "abi_details \<Rightarrow> trust_error + details" where
  "take_details v =
     bindE (take_maybe_text (ad_common_name v)) (\<lambda>cn.
     bindE (take_maybe_text (ad_organisation v)) (\<lambda>o'.
     bindE (take_maybe_text (ad_unit v)) (\<lambda>ou.
     bindE (take_maybe_text (ad_country v)) (\<lambda>c.
     bindE (take_text (ad_subject v)) (\<lambda>subj.
     bindE (take_text (ad_issuer v)) (\<lambda>issuer.
     bindE (take_text (ad_serial v)) (\<lambda>serial.
     bindE (take_text (ad_key v)) (\<lambda>key.
     Inr \<lparr>common_name = cn, organisation = o', unit_name = ou, country = c, d_subject = subj,
        d_issuer = issuer, d_serial = serial, d_not_before = ad_not_before v, d_not_after = ad_not_after v,
        d_key = key, d_ca = (ad_ca v \<noteq> 0)\<rparr>))))))))"

definition take_distrusted :: "abi_distrusted \<Rightarrow> trust_error + distrusted" where
  "take_distrusted v =
     bindE (take_text (ax_fingerprint v)) (\<lambda>fp.
     bindE (take_text (ax_reason v)) (\<lambda>reason. Inr \<lparr>x_fingerprint = fp, x_reason = reason\<rparr>))"

definition take_distrusted_list :: "abi_distrusted span \<Rightarrow> trust_error + distrusted list" where
  "take_distrusted_list value = bindE (take_array value) (mapE take_distrusted)"

section \<open>Taking a result\<close>

definition owned_result :: "result_handle option \<Rightarrow> trust_error + result_handle" where
  "owned_result pointer =
     (case pointer of
        None \<Rightarrow> Inl (bad ''libtrust returned null'')
      | Some result \<Rightarrow>
          let code = peios_trust_result_error (Some result)
          in if code \<noteq> 0 then
               bindE (take_text (peios_trust_result_message (Some result))) (\<lambda>message.
                 Inl \<lparr>te_code = code, te_kind = from_failure (peios_trust_result_failure (Some result)),
                   te_message = message\<rparr>)
             else Inr result)"

text \<open>Take a result, find the view it must have and copy it.\<close>

definition owned_view ::
  "string \<Rightarrow> (result_handle option \<Rightarrow> 'v option) \<Rightarrow> ('v \<Rightarrow> trust_error + 'a) \<Rightarrow> result_handle \<Rightarrow> trust_error + 'a" where
  "owned_view missing view copy result =
     bindE (owned_result (Some result)) (\<lambda>result.
     bindE (ok_or (bad missing) (view (Some result))) copy)"

section \<open>The client\<close>

record client_handle =
  cl_path :: bytes
  cl_timeout :: u64

definition client_new :: "bytes \<Rightarrow> nat \<Rightarrow> trust_error + client_handle" where
  "client_new path nanos =
     (if path = [] \<or> 108 \<le> length path \<or> 0 \<in> set path then Inl (bad ''invalid Unix socket path'')
      else bindE (timeout_of nanos) (\<lambda>ms. Inr \<lparr>cl_path = path, cl_timeout = ms\<rparr>))"

definition client_system :: "nat \<Rightarrow> trust_error + client_handle" where
  "client_system nanos = client_new (as_bytes SOCKET_PATH) nanos"

definition client_status ::
  "('r, 'e) msgpack \<Rightarrow> ('e wire_error \<Rightarrow> string) \<Rightarrow> endpoint \<Rightarrow> client_handle \<Rightarrow> (trust_error + status) option" where
  "client_status M describe_error ep c =
     map_option (owned_view ''missing library result'' peios_trust_result_status take_status)
       (peios_trust_get_status M describe_error ep (span_of (cl_path c)) (cl_timeout c))"

definition client_roots ::
  "('r, 'e) msgpack \<Rightarrow> ('e wire_error \<Rightarrow> string) \<Rightarrow> endpoint \<Rightarrow> client_handle \<Rightarrow> bool \<Rightarrow> string option \<Rightarrow>
   (trust_error + root list) option" where
  "client_roots M describe_error ep c with_der purpose =
     map_option (owned_view ''missing library result'' peios_trust_result_root_list take_root_list)
       (peios_trust_roots M describe_error ep (span_of (cl_path c)) (cl_timeout c)
          (if with_der then 1 else 0) (maybe_span purpose))"

definition client_reload ::
  "('r, 'e) msgpack \<Rightarrow> ('e wire_error \<Rightarrow> string) \<Rightarrow> endpoint \<Rightarrow> client_handle \<Rightarrow> (trust_error + unit) option" where
  "client_reload M describe_error ep c =
     map_option (\<lambda>result. bindE (owned_result (Some result)) (\<lambda>_. Inr ()))
       (peios_trust_reload M describe_error ep (span_of (cl_path c)) (cl_timeout c))"

definition client_subscribe ::
  "('r, 'e) msgpack \<Rightarrow> endpoint \<Rightarrow> client_handle \<Rightarrow> bool \<Rightarrow> (trust_error + subscription) option" where
  "client_subscribe M ep c with_der =
     map_option (\<lambda>(result, out).
         bindE (owned_result (Some result)) (\<lambda>_. ok_or (bad ''missing subscription'') out))
       (peios_trust_subscribe M ep (span_of (cl_path c)) (cl_timeout c) (if with_der then 1 else 0) True)"

record root_snapshot =
  rs_generation :: u64
  rs_roots :: "root list"

definition snapshot_of :: "result_handle \<Rightarrow> trust_error + root_snapshot" where
  "snapshot_of result =
     bindE (ok_or (bad ''missing roots'') (peios_trust_result_root_list (Some result))) (\<lambda>view.
     bindE (take_root_list view) (\<lambda>roots.
     Inr \<lparr>rs_generation = peios_trust_result_generation (Some result), rs_roots = roots\<rparr>))"

text \<open>
  \<open>Subscription::next\<close> with a time-out of \<open>nanos\<close>, called at \<open>now\<close>. A time-out that is refused is
  refused before the call.
\<close>

definition client_next ::
  "('r, 'e) msgpack \<Rightarrow> ('e wire_error \<Rightarrow> string) \<Rightarrow> nat \<Rightarrow> nat \<Rightarrow> nat \<Rightarrow> subscription \<Rightarrow>
   ((trust_error + root_snapshot) \<times> subscription) option" where
  "client_next M describe_error latest now nanos sub =
     (case timeout_of nanos of
        Inl e \<Rightarrow> Some (Inl e, sub)
      | Inr ms \<Rightarrow>
          map_option (\<lambda>(result, after).
              (bindE (owned_result (Some result)) snapshot_of, case after of None \<Rightarrow> sub | Some sub \<Rightarrow> sub))
            (peios_trust_subscription_next M describe_error latest now (Some sub) ms))"

section \<open>Certificates and changes\<close>

definition result_text :: "result_handle \<Rightarrow> trust_error + string" where
  "result_text result = owned_view ''missing library result'' peios_trust_result_text take_text result"

text \<open>A result of which only the error matters.\<close>

definition owned_unit :: "result_handle \<Rightarrow> trust_error + unit" where
  "owned_unit result = bindE (owned_result (Some result)) (\<lambda>_. Inr ())"

definition client_certificate :: "bytes \<Rightarrow> string \<Rightarrow> trust_error + bytes" where
  "client_certificate bs description =
     owned_view ''missing library result'' peios_trust_result_bytes take_array
       (peios_trust_certificate (span_of bs) (span_of (as_bytes description)))"

definition client_inspect :: "lib \<Rightarrow> bytes \<Rightarrow> trust_error + details" where
  "client_inspect L cert =
     owned_view ''missing library result'' peios_trust_result_details take_details
       (peios_trust_inspect L (span_of cert))"

definition client_vet :: "lib \<Rightarrow> int option \<Rightarrow> bytes \<Rightarrow> trust_error + parsed" where
  "client_vet L now cert =
     owned_view ''missing library result'' peios_trust_result_parsed take_parsed
       (peios_trust_vet L now (span_of cert))"

text \<open>\<open>*view != 0\<close>.\<close>

definition take_boolean :: "u32 \<Rightarrow> trust_error + bool" where
  "take_boolean view = Inr (view \<noteq> 0)"

definition client_usable_name :: "string \<Rightarrow> trust_error + bool" where
  "client_usable_name name =
     owned_view ''missing library result'' peios_trust_result_boolean take_boolean
       (peios_trust_usable_name (span_of (as_bytes name)))"

definition client_may_reload ::
  "('k, 's) registry_api \<Rightarrow> ('sd, 'tok, 'conn) security \<Rightarrow> 'tok \<Rightarrow> 's \<Rightarrow> (trust_error + bool) option" where
  "client_may_reload W S own s =
     map_option (owned_view ''missing library result'' peios_trust_result_boolean take_boolean)
       (peios_trust_may_reload W S own s)"

definition client_may_change :: "('k, 's) registry_api \<Rightarrow> 's \<Rightarrow> trust_error + unit" where
  "client_may_change W s = owned_unit (peios_trust_may_change W s)"

definition client_may_set_compat :: "('k, 's) registry_api \<Rightarrow> 's \<Rightarrow> trust_error + unit" where
  "client_may_set_compat W s = owned_unit (peios_trust_may_set_compat W s)"

definition client_set_compat :: "('k, 's) registry_api \<Rightarrow> u32 \<Rightarrow> 's \<Rightarrow> (trust_error + unit) \<times> 's" where
  "client_set_compat W mode s = (case peios_trust_set_compat W mode s of (r, s) \<Rightarrow> (owned_unit r, s))"

definition client_add ::
  "('k, 's) registry_api \<Rightarrow> lib \<Rightarrow> (string \<Rightarrow> string) \<Rightarrow> int option \<Rightarrow> string \<Rightarrow> bytes \<Rightarrow> string list \<Rightarrow> 's \<Rightarrow>
   (trust_error + parsed) \<times> 's" where
  "client_add W L debug now name cert purposes s =
     (case peios_trust_add W L debug now (span_of (as_bytes name)) (span_of cert)
        (span_of (map (\<lambda>p. span_of (as_bytes p)) purposes)) s of
        (r, s) \<Rightarrow> (owned_view ''missing library result'' peios_trust_result_parsed take_parsed r, s))"

definition client_remove :: "('k, 's) registry_api \<Rightarrow> string \<Rightarrow> 's \<Rightarrow> (trust_error + unit) \<times> 's" where
  "client_remove W name s =
     (case peios_trust_remove W (span_of (as_bytes name)) s of (r, s) \<Rightarrow> (owned_unit r, s))"

definition client_distrusted :: "('k, 's) registry_api \<Rightarrow> 's \<Rightarrow> trust_error + distrusted list" where
  "client_distrusted W s =
     owned_view ''missing library result'' peios_trust_result_distrusted_list take_distrusted_list
       (peios_trust_get_distrusted W s)"

definition client_distrust ::
  "('k, 's) registry_api \<Rightarrow> ('r, 'e) msgpack \<Rightarrow> ('e wire_error \<Rightarrow> string) \<Rightarrow> endpoint \<Rightarrow> string \<Rightarrow> string \<Rightarrow> 's \<Rightarrow>
   ((trust_error + string option) \<times> 's) option" where
  "client_distrust W M describe_error ep fp reason s =
     map_option (\<lambda>(r, s). (owned_view ''missing library result'' peios_trust_result_text take_maybe_text r, s))
       (peios_trust_distrust W M describe_error ep (span_of (as_bytes fp)) (span_of (as_bytes reason)) s)"

definition client_restore :: "('k, 's) registry_api \<Rightarrow> string \<Rightarrow> 's \<Rightarrow> (trust_error + string) \<times> 's" where
  "client_restore W fp s =
     (case peios_trust_restore W (span_of (as_bytes fp)) s of (r, s) \<Rightarrow> (result_text r, s))"

definition client_resolve ::
  "('r, 'e) msgpack \<Rightarrow> ('e wire_error \<Rightarrow> string) \<Rightarrow> endpoint \<Rightarrow> lib \<Rightarrow> (string \<Rightarrow> io_error + bytes) \<Rightarrow> string \<Rightarrow>
   (trust_error + string) option" where
  "client_resolve M describe_error ep L read_file argument =
     map_option (owned_view ''missing fingerprint'' peios_trust_result_text take_text)
       (peios_trust_resolve M describe_error ep L read_file (span_of (as_bytes argument)))"

definition client_fingerprint :: "lib \<Rightarrow> bytes \<Rightarrow> trust_error + string" where
  "client_fingerprint L cert = result_text (peios_trust_fingerprint L (span_of cert))"

definition client_to_pem :: "bytes \<Rightarrow> trust_error + string" where
  "client_to_pem cert = result_text (peios_trust_to_pem (span_of cert))"

definition client_from_pem :: "string \<Rightarrow> trust_error + bytes list" where
  "client_from_pem document =
     owned_view ''missing library result'' peios_trust_result_byte_list take_byte_list
       (peios_trust_from_pem (span_of (as_bytes document)))"

definition client_normalise_fingerprint :: "string \<Rightarrow> trust_error + string" where
  "client_normalise_fingerprint t =
     result_text (peios_trust_normalise_fingerprint (span_of (as_bytes t)))"

definition client_fingerprint_in :: "string \<Rightarrow> root list \<Rightarrow> trust_error + string" where
  "client_fingerprint_in t roots =
     result_text (peios_trust_fingerprint_in (span_of (as_bytes t))
       (span_of (map (\<lambda>r. span_of (as_bytes (r_fingerprint r))) roots)))"

section \<open>Views copied back\<close>

text \<open>
  A kind of value that crosses the interface: what makes its view, what copies it back, and the
  values a Rust type can hold (a \<open>String\<close> is UTF-8).
\<close>

locale crossing =
  fixes put :: "'a \<Rightarrow> 'v" and get :: "'v \<Rightarrow> trust_error + 'a" and ok :: "'a \<Rightarrow> bool"
  assumes get_put: "ok x \<Longrightarrow> get (put x) = Inr x"
begin

lemma get_all: "\<forall>x \<in> set xs. ok x \<Longrightarrow> bindE (take_array (Span (map put xs))) (mapE get) = Inr xs"
proof -
  assume all: "\<forall>x \<in> set xs. ok x"
  then have "mapE get (map put xs) = Inr xs" by (induction xs) (simp_all add: get_put)
  then show ?thesis by (auto simp: take_array_def)
qed

end

lemma take_array_Span [simp]: "take_array (Span xs) = Inr xs"
  by (auto simp: take_array_def)

interpretation text_crossing: crossing arena_text take_text utf8
  by unfold_locales (simp add: arena_text_def arena_bytes_def take_text_def)

interpretation bytes_crossing: crossing arena_bytes take_array "\<lambda>_. True"
  by unfold_locales (simp add: arena_bytes_def)

lemma take_strings_arena [simp]: "\<forall>t \<in> set ts. utf8 t \<Longrightarrow> take_strings (arena_strings ts) = Inr ts"
  unfolding take_strings_def arena_strings_def by (rule text_crossing.get_all)

lemma take_byte_list_arena [simp]: "take_byte_list (arena_byte_list bs) = Inr bs"
  unfolding take_byte_list_def arena_byte_list_def by (rule bytes_crossing.get_all) simp

lemma take_text_arena [simp]: "utf8 t \<Longrightarrow> take_text (arena_text t) = Inr t"
  by (rule text_crossing.get_put)

lemma take_bytes_arena [simp]: "take_array (arena_bytes bs) = Inr bs"
  by (simp add: arena_bytes_def)

definition utf8_opt :: "string option \<Rightarrow> bool" where
  "utf8_opt v = (case v of None \<Rightarrow> True | Some t \<Rightarrow> utf8 t)"

lemma take_maybe_text_arena [simp]: "utf8_opt v \<Longrightarrow> take_maybe_text (arena_maybe_text v) = Inr v"
proof (cases v)
  case (Some t)
  assume "utf8_opt v"
  then have "take_text (Span (as_bytes t)) = Inr t"
    using Some text_crossing.get_put [of t] by (simp add: utf8_opt_def arena_text_def arena_bytes_def)
  then show ?thesis by (simp add: Some take_maybe_text_def arena_maybe_text_def arena_text_def arena_bytes_def)
qed (simp add: take_maybe_text_def arena_maybe_text_def absent_def)

definition root_texts :: "root \<Rightarrow> bool" where
  "root_texts r \<longleftrightarrow> utf8 (r_fingerprint r) \<and> utf8 (r_subject r) \<and> (\<forall>p \<in> set (r_purposes r). utf8 p) \<and>
     utf8_opt (r_name r)"

definition status_texts :: "status \<Rightarrow> bool" where
  "status_texts s \<longleftrightarrow> utf8_opt (s_message s) \<and> (\<forall>p \<in> set (s_rendered s). utf8 p)"

definition parsed_texts :: "parsed \<Rightarrow> bool" where
  "parsed_texts p \<longleftrightarrow> utf8 (fingerprint p) \<and> utf8 (subject p) \<and> utf8 (subject_hash_text p)"

definition details_texts :: "details \<Rightarrow> bool" where
  "details_texts d \<longleftrightarrow> utf8_opt (common_name d) \<and> utf8_opt (organisation d) \<and> utf8_opt (unit_name d) \<and>
     utf8_opt (country d) \<and> utf8 (d_subject d) \<and> utf8 (d_issuer d) \<and> utf8 (d_serial d) \<and> utf8 (d_key d)"

definition distrusted_texts :: "distrusted \<Rightarrow> bool" where
  "distrusted_texts x \<longleftrightarrow> utf8 (x_fingerprint x) \<and> utf8 (x_reason x)"

interpretation root_crossing: crossing arena_root take_root root_texts
  by unfold_locales (auto simp: arena_root_def take_root_def root_texts_def split: Source.splits)

interpretation status_crossing: crossing arena_status take_status status_texts
  by unfold_locales (auto simp: arena_status_def take_status_def status_texts_def split: Health.splits)

interpretation parsed_crossing: crossing arena_parsed take_parsed parsed_texts
  by unfold_locales (auto simp: arena_parsed_def take_parsed_def parsed_texts_def)

interpretation details_crossing: crossing arena_details take_details details_texts
  by unfold_locales (auto simp: arena_details_def take_details_def details_texts_def)

interpretation distrusted_crossing: crossing arena_distrusted take_distrusted distrusted_texts
  by unfold_locales (auto simp: arena_distrusted_def take_distrusted_def distrusted_texts_def)

lemma take_root_list_arena [simp]:
  "\<forall>r \<in> set roots. root_texts r \<Longrightarrow> take_root_list (arena_root_list roots) = Inr roots"
  unfolding take_root_list_def arena_root_list_def by (rule root_crossing.get_all)

lemma take_distrusted_list_arena [simp]:
  "\<forall>x \<in> set entries. distrusted_texts x \<Longrightarrow> take_distrusted_list (arena_distrusted_list entries) = Inr entries"
  unfolding take_distrusted_list_def arena_distrusted_list_def by (rule distrusted_crossing.get_all)

section \<open>What a failure becomes\<close>

definition errno_of :: "lib_error \<Rightarrow> nat" where
  "errno_of e = (case lib_raw e of Some n \<Rightarrow> n | None \<Rightarrow> errno_of_kind (lib_kind e))"

definition reported :: "lib_error \<Rightarrow> trust_error" where
  "reported e = \<lparr>te_code = errno_of e, te_kind = from_failure (failure_of e), te_message = lib_text e\<rparr>"

text \<open>The kernel's errors have numbers above zero, and messages are Rust strings.\<close>

definition reportable :: "lib_error \<Rightarrow> bool" where
  "reportable e \<longleftrightarrow> lib_raw e \<noteq> Some 0 \<and> utf8 (lib_text e)"

lemma errno_of_kind_positive [simp]: "0 < errno_of_kind k"
  by (cases k) (simp_all add: EINVAL_def)

lemma owned_result_error [simp]:
  "reportable e \<Longrightarrow> owned_result (Some (finish (Inl e))) = Inl (reported e)"
  by (auto simp: reportable_def owned_result_def finish_def result_of_error_def accessor_defs reported_def
      errno_of_def result_default_def Let_def split: option.splits)

lemma owned_result_ok [simp]: "rh_error h = 0 \<Longrightarrow> owned_result (Some (finish (Inr h))) = Inr h"
  by (simp add: owned_result_def finish_def peios_trust_result_error_def)

lemma carrying_error [simp]: "rh_error (carrying p) = 0"
  by (simp add: carrying_def result_default_def)

lemma carrying_payload [simp]: "rh_payload (carrying p) = p"
  by (simp add: carrying_def)

lemma default_error [simp]: "rh_error result_default = 0"
  by (simp add: result_default_def)

lemma owned_view_error: "reportable e \<Longrightarrow> owned_view missing view copy (finish (Inl e)) = Inl (reported e)"
  by (simp add: owned_view_def)

lemma owned_view_ok:
  "rh_error h = 0 \<Longrightarrow> view (Some h) = Some v \<Longrightarrow> owned_view missing view copy (finish (Inr h)) = copy v"
  by (simp add: owned_view_def)

text \<open>The kind a caller sees of each error of the layers below.\<close>

fun client_kind :: "client_error \<Rightarrow> ErrorKind" where
  "client_kind (Denied _) = KindDenied"
| "client_kind (Absent _) = KindNotFound"
| "client_kind (Failed _) = KindOther"

fun client_code :: "client_error \<Rightarrow> nat" where
  "client_code (Denied _) = 13"
| "client_code (Absent _) = 2"
| "client_code (Failed _) = 5"

fun cert_kind :: "cert_error \<Rightarrow> ErrorKind" where
  "cert_kind (Malformed _) = KindMalformed"
| "cert_kind NotACa = KindNotACa"
| "cert_kind Expired = KindExpired"
| "cert_kind NoCertificate = KindNoCertificate"

definition told :: "client_error \<Rightarrow> trust_error" where
  "told e = \<lparr>te_code = client_code e, te_kind = client_kind e, te_message = client_error_text e\<rparr>"

definition told_cert :: "cert_error \<Rightarrow> trust_error" where
  "told_cert e = \<lparr>te_code = EINVAL, te_kind = cert_kind e, te_message = cert_error_text e\<rparr>"

lemma reported_management [simp]: "reported (management_error e) = told e"
  by (cases e) (simp_all add: reported_def told_def management_error_def errno_of_def failure_defs from_failure_def)

lemma reported_cert [simp]: "reported (refused_cert e) = told_cert e"
  by (cases e) (simp_all add: reported_def told_cert_def refused_cert_def errno_of_def failure_defs
      from_failure_def EINVAL_def)

lemma reportable_management [simp]: "reportable (management_error e) \<longleftrightarrow> utf8 (client_error_text e)"
  by (cases e) (simp_all add: reportable_def management_error_def)

lemma reportable_cert [simp]: "reportable (refused_cert e) \<longleftrightarrow> utf8 (cert_error_text e)"
  by (simp add: reportable_def refused_cert_def)

end
