(* ===== verification/Delivery.thy ===== *)
theory Delivery
  imports TrustClient
begin

text \<open>
  What arrives: the snapshots a stream carries against the snapshots a subscription or a single
  call returns, however the stream is cut into reads, wherever the calls time out in between.
\<close>

section \<open>Snapshots as replies\<close>

lemma snapshot_shape:
  "\<exists>batches b. snapshot_replies g roots = map (\<lambda>b. ReplyRoots g b True) batches @ [ReplyRoots g b False] \<and>
    roots = concat batches @ b"
proof -
  obtain bs where b: "bs \<noteq> []" "snapshot_replies g roots = chunk_replies g bs" "concat bs = roots"
    using snapshot_batches by blast
  then have "roots_of (snapshot_replies g roots) = Some (Inr (g, roots))"
    using roots_of_chunks [OF b(1)] by simp
  then show ?thesis by (simp add: roots_of_iff)
qed

lemma gather_chunks:
  assumes "case generation of None \<Rightarrow> True | Some previous \<Rightarrow> previous = g"
  shows "gather generation roots (map (\<lambda>b. ReplyRoots g b True) batches @ [ReplyRoots g b False]) =
    Inr (ReplyRoots g (roots @ concat batches @ b) False)"
  using assms
  by (induction batches arbitrary: generation roots) (auto split: option.splits)

lemma gather_snapshot [simp]: "gather None [] (snapshot_replies g roots) = Inr (ReplyRoots g roots False)"
proof -
  obtain batches b where "snapshot_replies g roots = map (\<lambda>b. ReplyRoots g b True) batches @ [ReplyRoots g b False]"
    "roots = concat batches @ b"
    using snapshot_shape by blast
  then show ?thesis using gather_chunks [where generation = None and g = g and roots = "[]" and batches = batches and b = b] by simp
qed

text \<open>The replies of the snapshots of a stream, one after the other.\<close>

definition sent_replies :: "(u64 \<times> root list) list \<Rightarrow> Reply list" where
  "sent_replies snaps = concat (map (\<lambda>(g, roots). snapshot_replies g roots) snaps)"

lemma sent_replies_simps [simp]:
  "sent_replies [] = []" "sent_replies ((g, roots) # snaps) = snapshot_replies g roots @ sent_replies snaps"
  by (simp_all add: sent_replies_def)

lemma sent_replies_roots: "r \<in> set (sent_replies snaps) \<Longrightarrow> \<exists>g roots announced. r = ReplyRoots g roots announced"
proof -
  assume "r \<in> set (sent_replies snaps)"
  then obtain g roots where "r \<in> set (snapshot_replies g roots)" by (auto simp: sent_replies_def)
  with snapshot_shape [of g roots] have "r \<noteq> ReplyOk" "r \<noteq> ReplyError e" "r \<noteq> ReplyStatus s" for e s by auto
  then show ?thesis by (metis Reply.exhaust)
qed

lemma first_reply:
  assumes "list_all is_more held" and "held @ r # rest = xs @ y # more_replies"
    and "list_all is_more xs" and "\<not> is_more y"
  shows "if is_more r then True else held = xs \<and> r = y \<and> rest = more_replies"
  using assms
proof (induction held arbitrary: xs)
  case Nil
  then show ?case by (cases xs) auto
next
  case (Cons h held)
  then obtain xs' where "xs = h # xs'" by (cases xs) auto
  then show ?case using Cons by auto
qed

text \<open>The reply that ends the chunks held is the end of the first snapshot.\<close>

lemma last_chunk:
  assumes "held @ r # rest = sent_replies snaps" and "list_all is_more held" and "\<not> is_more r"
  shows "\<exists>g roots later. snaps = (g, roots) # later \<and> held @ [r] = snapshot_replies g roots \<and>
    rest = sent_replies later"
proof -
  obtain g roots later where s: "snaps = (g, roots) # later"
    using assms(1) by (cases snaps) auto
  obtain batches b where shape:
    "snapshot_replies g roots = map (\<lambda>b. ReplyRoots g b True) batches @ [ReplyRoots g b False]"
    using snapshot_shape by blast
  have "held @ r # rest = map (\<lambda>b. ReplyRoots g b True) batches @ ReplyRoots g b False # sent_replies later"
    using assms(1) by (simp add: s shape)
  from first_reply [OF assms(2) this] assms(3)
  have "held = map (\<lambda>b. ReplyRoots g b True) batches \<and> r = ReplyRoots g b False \<and> rest = sent_replies later"
    by (auto simp: list_all_iff)
  then show ?thesis by (simp add: s shape)
qed

section \<open>The stream\<close>

lemma frame_prefix:
  assumes "prefix (frame_of p @ x) (frame_of q @ y)"
    and "length p \<le> MAX_MESSAGE_BYTES" and "length q \<le> MAX_MESSAGE_BYTES"
  shows "p = q \<and> prefix x y"
proof -
  obtain z where "frame_of q @ y = (frame_of p @ x) @ z" using assms(1) by (auto simp: prefix_def)
  then have "recv (frame_of q @ y) = (Inr (p, x @ z) :: unit wire_error + bytes \<times> bytes)"
    using recv_frame [OF assms(2), of "x @ z"] by simp
  moreover have "recv (frame_of q @ y) = (Inr (q, y) :: unit wire_error + bytes \<times> bytes)"
    by (rule recv_frame [OF assms(3)])
  ultimately show ?thesis by (auto simp: prefix_def)
qed

lemma frame_nonempty [simp]: "frame_of p \<noteq> []"
proof -
  have "length (frame_of p) = 4 + length p" by (simp add: frame_of_def)
  then show ?thesis by (metis add_is_0 length_0_conv zero_neq_numeral)
qed

text \<open>
  Where a reader stands: it holds some chunks of the first of the snapshots still to come, and the
  bytes it has and will get are a part of the rest of what was sent.
\<close>

definition tracks :: "('r, 'e) msgpack \<Rightarrow> (u64 \<times> root list) list \<Rightarrow> Reply list \<Rightarrow> channel \<Rightarrow> bool" where
  "tracks M snaps held ch \<longleftrightarrow> well_held (ch_incoming ch) \<and> list_all is_more held \<and>
     (\<exists>rest. held @ rest = sent_replies snaps \<and> prefix (unread ch) (wire M rest))"

lemma tracks_receive:
  assumes "receive M describe_error end_time ch = (r, ch')" and "tracks M snaps held ch"
    and "\<forall>x \<in> set (sent_replies snaps). readable M x"
  shows "(\<exists>e. r = Inl e \<and> tracks M snaps held ch') \<or>
    (\<exists>reply rest. r = Inr reply \<and> held @ reply # rest = sent_replies snaps \<and> well_held (ch_incoming ch') \<and>
       prefix (unread ch') (wire M rest))"
proof -
  obtain rest where t: "well_held (ch_incoming ch)" "list_all is_more held" "held @ rest = sent_replies snaps"
    "prefix (unread ch) (wire M rest)"
    using assms(2) by (auto simp: tracks_def)
  note out = receive_outcome [OF assms(1) t(1)]
  show ?thesis
  proof (cases "\<exists>e. r = Inl e \<and> unread ch' = unread ch")
    case True
    then show ?thesis using out t by (auto simp: tracks_def)
  next
    case False
    then obtain payload where p: "length payload \<le> MAX_MESSAGE_BYTES" "unread ch = frame_of payload @ unread ch'"
      "r = map_err (\<lambda>e. IoError InvalidData None (describe_error e)) (decode_reply M payload)"
      using out by (auto simp: receive_result_def)
    have "rest \<noteq> []" using t(4) by (auto simp: p(2) wire_def)
    then obtain x xs where x: "rest = x # xs" by (cases rest) auto
    then have "readable M x" using assms(3) t(3) by (metis in_set_conv_decomp)
    then obtain px where px: "encode_reply M x = Some px" "length px \<le> MAX_MESSAGE_BYTES"
      "decode_reply M px = Inr x" by (auto simp: readable_def)
    have "prefix (frame_of payload @ unread ch') (frame_of px @ wire M xs)"
      using t(4) by (simp add: p(2) x wire_Cons px(1))
    from frame_prefix [OF this p(1) px(2)] show ?thesis
      using p(3) px(3) t(3) out x by auto
  qed
qed

section \<open>One snapshot at a time\<close>

lemma expected_roots [simp]:
  "expected request (ReplyRoots g roots announced) \<longleftrightarrow>
    (case request of ReqRoots _ _ \<Rightarrow> True | ReqSubscribe _ \<Rightarrow> True | _ \<Rightarrow> False)"
  by (cases request) auto

definition wants_roots :: "Request \<Rightarrow> bool" where
  "wants_roots request \<longleftrightarrow> (case request of ReqRoots _ _ \<Rightarrow> True | ReqSubscribe _ \<Rightarrow> True | _ \<Rightarrow> False)"

lemma receive_turns_tracks:
  assumes "tracks M snaps held ch" and "\<forall>x \<in> set (sent_replies snaps). readable M x" and "wants_roots request"
  shows "\<exists>r held' ch'. receive_turns M describe_error request end_time held used ch = Some (r, held', ch') \<and>
    ((\<exists>e. r = Inl e \<and> (io_kind e = TimedOut \<longrightarrow> tracks M snaps held' ch')) \<or>
     (\<exists>g roots later. r = Inr (ReplyRoots g roots False) \<and> snaps = (g, roots) # later \<and> held' = [] \<and>
        tracks M later [] ch'))"
  using assms
proof (induction M describe_error request end_time held used ch rule: receive_turns.induct)
  case (1 M describe_error request end_time held used ch)
  obtain r ch1 where r: "receive M describe_error end_time ch = (r, ch1)" by fastforce
  from tracks_receive [OF this 1(2,3)] show ?case
  proof (elim disjE exE conjE)
    fix e assume "r = Inl e" "tracks M snaps held ch1"
    then show ?thesis using r by (simp add: receive_turns.simps [of M describe_error request end_time held])
  next
    fix reply rest
    assume n: "r = Inr reply" "held @ reply # rest = sent_replies snaps" "well_held (ch_incoming ch1)"
      "prefix (unread ch1) (wire M rest)"
    then have mem: "reply \<in> set (sent_replies snaps)" by (metis in_set_conv_decomp)
    obtain g roots announced where reply: "reply = ReplyRoots g roots announced"
      using sent_replies_roots [OF mem] by blast
    obtain payload where p: "encode_reply M reply = Some payload"
      using 1(3) mem by (auto simp: readable_def)
    have exp: "expected request reply" using 1(4) by (simp add: reply wants_roots_def)
    have held: "list_all is_more held" using 1(2) by (simp add: tracks_def)
    note step = receive_turns.simps [of M describe_error request end_time held used ch]
    show ?thesis
    proof (cases "MAX_SNAPSHOT_BYTES < used + length payload")
      case True
      then show ?thesis using r n(1) p exp by (simp add: step reply invalid_input_def)
    next
      case small: False
      show ?thesis
      proof (cases announced)
        case True
        have t: "tracks M snaps (held @ [reply]) ch1"
          using n held True by (auto simp: tracks_def reply intro!: exI [of _ rest])
        have "receive_turns M describe_error request end_time held used ch =
            receive_turns M describe_error request end_time (held @ [reply]) (used + length payload) ch1"
          using r n(1) p exp small True by (simp add: step reply)
        moreover note 1(1) [OF r [symmetric] n(1) _ reply p small _ t 1(3,4)]
        ultimately show ?thesis using exp True by (simp add: reply)
      next
        case False
        then have "\<not> is_more reply" by (simp add: reply)
        from last_chunk [OF n(2) held this] obtain g' roots' later where l: "snaps = (g', roots') # later"
          "held @ [reply] = snapshot_replies g' roots'" "rest = sent_replies later" by blast
        have "receive_turns M describe_error request end_time held used ch =
            Some (gather None [] (held @ [reply]), [], ch1)"
          using r n(1) p exp small False by (simp add: step reply)
        then show ?thesis using l n(3,4) by (auto simp: tracks_def)
      qed
    qed
  qed
qed

lemma pending_size_readable:
  "\<forall>x \<in> set replies. readable M x \<Longrightarrow> \<exists>n. pending_size M replies = Some n"
  by (induction replies) (auto simp: readable_def)

lemma receive_complete_tracks:
  assumes "tracks M snaps held ch" and "\<forall>x \<in> set (sent_replies snaps). readable M x" and "wants_roots request"
  shows "\<exists>r held' ch'. receive_complete M describe_error request held end_time ch = Some (r, held', ch') \<and>
    ((\<exists>e. r = Inl e \<and> (io_kind e = TimedOut \<longrightarrow> tracks M snaps held' ch')) \<or>
     (\<exists>g roots later. r = Inr (ReplyRoots g roots False) \<and> snaps = (g, roots) # later \<and> held' = [] \<and>
        tracks M later [] ch'))"
proof -
  have "set held \<subseteq> set (sent_replies snaps)"
    using assms(1) by (metis tracks_def set_append Un_upper1)
  then have "\<forall>x \<in> set held. readable M x" using assms(2) by blast
  from pending_size_readable [OF this] obtain n where "pending_size M held = Some n" by blast
  then show ?thesis
    using receive_turns_tracks [OF assms, of describe_error end_time n] by (simp add: receive_complete_def)
qed

section \<open>Delivery in time\<close>

lemma snapshot_more:
  assumes "held @ r # rest = snapshot_replies g roots"
  shows "is_more r \<longleftrightarrow> rest \<noteq> []"
proof -
  obtain batches b where shape:
    "snapshot_replies g roots = map (\<lambda>b. ReplyRoots g b True) batches @ [ReplyRoots g b False]"
    using snapshot_shape by blast
  show ?thesis
  proof (cases rest rule: rev_cases)
    case Nil
    then show ?thesis using assms shape by simp
  next
    case (snoc front l)
    then have "held @ r # front = map (\<lambda>b. ReplyRoots g b True) batches" using assms shape by simp
    then have "r \<in> set (map (\<lambda>b. ReplyRoots g b True) batches)" by (metis in_set_conv_decomp)
    then show ?thesis using snoc by auto
  qed
qed

lemma receive_turns_delivers:
  assumes "held @ R = snapshot_replies g roots" and "R \<noteq> []" and "unread ch = wire M R @ rest"
    and "well_held (ch_incoming ch)" and "flowing ch"
    and "in_time end_time (length (wire M R) + length R + n) ch"
    and "used + length (wire M R) \<le> MAX_SNAPSHOT_BYTES + 4 * length R"
    and "\<forall>x \<in> set R. readable M x" and "wants_roots request"
  shows "\<exists>ch'. receive_turns M describe_error request end_time held used ch =
      Some (Inr (ReplyRoots g roots False), [], ch') \<and>
    ch_incoming ch' = [] \<and> arriving ch' = rest \<and> flowing ch' \<and> in_time end_time n ch'"
  using assms
proof (induction R arbitrary: held used ch)
  case Nil
  then show ?case by simp
next
  case (Cons r R)
  obtain payload where p: "encode_reply M r = Some payload" "length payload \<le> MAX_MESSAGE_BYTES"
    "decode_reply M payload = Inr r"
    using Cons.prems(8) by (auto simp: readable_def)
  have w: "wire M (r # R) = frame_of payload @ wire M R" by (simp add: wire_Cons p(1))
  have fl: "length (frame_of payload) = 4 + length payload" by (simp add: frame_of_def)
  let ?left = "Suc (length (frame_of payload) - length (ch_incoming ch))"
  have u: "unread ch = frame_of payload @ wire M R @ rest" using Cons.prems(3) by (simp add: w)
  have le: "?left + (length (wire M R) + length R + n) \<le> length (wire M (r # R)) + length (r # R) + n"
    by (simp add: w)
  have "in_time end_time ?left ch" using Cons.prems(6) by (rule in_time_mono) (simp add: w)
  from receive_delivers [OF p(2) u Cons.prems(4,5) this, of M describe_error]
  obtain ch1 where 1: "receive M describe_error end_time ch = (Inr r, ch1)" "ch_incoming ch1 = []"
    "arriving ch1 = wire M R @ rest" "flowing ch1"
    "\<forall>n. in_time end_time (?left + n) ch \<longrightarrow> in_time end_time n ch1"
    by (auto simp: p(3))
  have it: "in_time end_time (length (wire M R) + length R + n) ch1"
    using 1(5) in_time_mono [OF Cons.prems(6) le] by blast
  have "r \<in> set (snapshot_replies g roots)" using Cons.prems(1) by (metis in_set_conv_decomp)
  then obtain g' batch announced where r: "r = ReplyRoots g' batch announced"
    using sent_replies_roots [of r "[(g, roots)]"] by auto
  have exp: "expected request r" using Cons.prems(9) by (simp add: r wants_roots_def)
  have small: "\<not> MAX_SNAPSHOT_BYTES < used + length payload"
  proof -
    have "4 * length R \<le> length (wire M R)"
      unfolding wire_def using Cons.prems(8) by (induction R) (auto simp: frame_of_def)
    then show ?thesis using Cons.prems(7) by (simp add: w fl)
  qed
  note step = receive_turns.simps [of M describe_error request end_time held used ch]
  show ?case
  proof (cases "R = []")
    case True
    have "\<not> announced" using snapshot_more [OF Cons.prems(1)] True by (cases announced) (simp_all add: r)
    then have "receive_turns M describe_error request end_time held used ch =
        Some (gather None [] (held @ [r]), [], ch1)"
      using 1(1) p(1) exp small by (simp add: step r)
    then show ?thesis using Cons.prems(1) True 1(2-4) it by (simp add: wire_def)
  next
    case False
    have "announced" using snapshot_more [OF Cons.prems(1)] False by (cases announced) (simp_all add: r)
    then have again: "receive_turns M describe_error request end_time held used ch =
        receive_turns M describe_error request end_time (held @ [r]) (used + length payload) ch1"
      using 1(1) p(1) exp small by (simp add: step r)
    have "unread ch1 = wire M R @ rest" using 1(2,3) by (simp add: unread_def)
    from Cons.IH [OF _ False this _ 1(4) it _ _ Cons.prems(9), of "held @ [r]" "used + length payload"]
    show ?thesis using Cons.prems(1,7,8) 1(2) by (simp add: again w fl)
  qed
qed

section \<open>A connection that works\<close>

text \<open>What connecting and sending leave alone.\<close>

lemma connect_reads:
  "connect path end_time cn = Inr ch \<Longrightarrow>
    ch_incoming ch = [] \<and> ch_reads ch = ch_reads (cn_channel cn)"
  by (auto simp: connect_def same_stream_def Let_def conv dest!: wait_for_same remaining_time_outcome
      split: if_splits option.splits prod.splits sum.splits)

lemma send_request_reads:
  "send_request M end_time request ch = Some (Inr u, ch') \<Longrightarrow>
    ch_incoming ch' = ch_incoming ch \<and> ch_reads ch' = ch_reads ch"
  by (auto simp: send_request_def dest!: send_loop_outcome split: if_splits)


text \<open>
  A connection on which nothing goes wrong before \<open>end_time\<close>: the kernel connects at once and takes
  the request in one piece, what is to come has arrived, and the clock can be read \<open>n\<close> more times.
\<close>

definition prompt :: "nat \<Rightarrow> nat \<Rightarrow> connection \<Rightarrow> bool" where
  "prompt end_time n cn \<longleftrightarrow>
     cn_socket cn = Inr () \<and> cn_connect cn = None \<and> cn_pending cn = Inr None \<and> flowing (cn_channel cn) \<and>
     in_time end_time (2 + n) (cn_channel cn) \<and>
     (\<exists>k ws. ch_writes (cn_channel cn) = Took k # ws \<and> 4 + MAX_MESSAGE_BYTES \<le> k)"

lemma connect_prompt:
  assumes "prompt end_time n cn" and "usable_path path"
  shows "\<exists>ch k ws. connect path end_time cn = Inr ch \<and> ch_incoming ch = [] \<and>
    ch_reads ch = ch_reads (cn_channel cn) \<and> in_time end_time (Suc n) ch \<and>
    ch_writes ch = Took k # ws \<and> 4 + MAX_MESSAGE_BYTES \<le> k"
proof -
  have "in_time end_time (Suc (Suc n)) (cn_channel cn)" using assms(1) by (simp add: prompt_def)
  from in_time_step [OF this] obtain u ch where c: "remaining_time end_time (cn_channel cn) = (Inr u, ch)"
    "in_time end_time (Suc n) ch" "same_stream (cn_channel cn) ch" by blast
  have "connect path end_time cn = Inr (ch\<lparr>ch_incoming := []\<rparr>)"
    using assms c(1) by (simp add: connect_def prompt_def)
  moreover obtain k ws where "ch_writes (cn_channel cn) = Took k # ws" "4 + MAX_MESSAGE_BYTES \<le> k"
    using assms(1) unfolding prompt_def by blast
  moreover have "in_time end_time (Suc n) (ch\<lparr>ch_incoming := []\<rparr>)" using c(2) by (simp add: in_time_def)
  ultimately show ?thesis using c(3)
    by (intro exI [of _ "ch\<lparr>ch_incoming := []\<rparr>"] exI [of _ k] exI [of _ ws]) (simp add: same_stream_def)
qed

lemma send_loop_prompt:
  assumes "frame \<noteq> []" and "length frame \<le> k" and "ch_writes ch = Took k # ws"
    and "in_time end_time (Suc n) ch"
  shows "\<exists>ch'. send_loop end_time frame ch = (Inr (), ch') \<and>
    ch_incoming ch' = ch_incoming ch \<and> ch_reads ch' = ch_reads ch \<and> in_time end_time n ch'"
proof -
  from in_time_step [OF assms(4)] obtain u ch1 where c: "remaining_time end_time ch = (Inr u, ch1)"
    "in_time end_time n ch1" "same_stream ch ch1" by blast
  let ?ch2 = "ch1\<lparr>ch_writes := ws, ch_sent := ch_sent ch1 @ take k frame\<rparr>"
  have "send_turn end_time frame ch = (Again ?ch2, [])"
    using c(1,3) assms(1-3) by (auto simp: send_turn_def next_write_def same_stream_def min_def)
  then have "send_loop end_time frame ch = (Inr (), ?ch2)"
    using assms(1) by (simp add: send_loop.simps [of end_time frame ch] send_loop.simps [of end_time "[]"])
  then show ?thesis using c(2,3) by (intro exI [of _ ?ch2]) (simp add: same_stream_def in_time_def)
qed

lemma send_prompt:
  assumes "encode_request M request = Some payload" and "length payload \<le> MAX_MESSAGE_BYTES"
    and "in_time end_time (Suc n) ch" and "ch_writes ch = Took k # ws" and "4 + MAX_MESSAGE_BYTES \<le> k"
  shows "\<exists>ch'. send_request M end_time request ch = Some (Inr (), ch') \<and>
    ch_incoming ch' = ch_incoming ch \<and> ch_reads ch' = ch_reads ch \<and> in_time end_time n ch'"
proof -
  have len: "length (frame_of payload) \<le> k" using assms(2,5) by (simp add: frame_of_def)
  show ?thesis using send_loop_prompt [OF frame_nonempty len assms(4,3)] assms(1,2)
    by (simp add: send_request_def frame_of_def)
qed

section \<open>One exchange\<close>

lemma tracks_start:
  "ch_incoming ch = [] \<Longrightarrow> prefix (arriving ch) (wire M (sent_replies snaps)) \<Longrightarrow> tracks M snaps [] ch"
  by (auto simp: tracks_def unread_def)

text \<open>An exchange that ends well has the whole snapshot, whatever part of it arrives.\<close>

lemma exchange_call_roots:
  assumes "exchange_call M describe_error ep path ms request = Some (Inr result)"
    and "prefix (arriving (cn_channel (ep_connection ep))) (wire M (snapshot_replies g roots))"
    and "\<forall>x \<in> set (snapshot_replies g roots). readable M x" and "wants_roots request"
  shows "result = (carrying (PayloadRootList (arena_root_list roots)))\<lparr>rh_generation := g\<rparr>"
proof -
  obtain end_time ch ch1 reply rest where
    c: "connect path end_time (ep_connection ep) = Inr ch" and
    s: "send_request M end_time request ch = Some (Inr (), ch1)" and
    r: "receive_complete M describe_error request [] end_time ch1 = Some (reply, rest)" and
    o: "bindE (map_err Plain reply) reply_result = Inr result"
    using assms(1) by (auto simp: exchange_call_def split: sum.splits option.splits)
  have "ch_incoming ch1 = []" "arriving ch1 = arriving (cn_channel (ep_connection ep))"
    using connect_reads [OF c] send_request_reads [OF s] by (simp_all add: arriving_def)
  then have "tracks M [(g, roots)] [] ch1" using assms(2) by (intro tracks_start) simp_all
  from receive_complete_tracks [OF this _ assms(4), of describe_error end_time] assms(3) r o
  show ?thesis by (auto simp: conv)
qed

text \<open>And a refusal, or a part of one, never looks like a snapshot.\<close>

lemma exchange_call_refused:
  assumes "prefix (arriving (cn_channel (ep_connection ep))) (wire M [ReplyError message])"
    and "readable M (ReplyError message)"
  shows "exchange_call M describe_error ep path ms request \<noteq> Some (Inr result)"
proof
  assume "exchange_call M describe_error ep path ms request = Some (Inr result)"
  then obtain end_time ch ch1 reply rest where
    c: "connect path end_time (ep_connection ep) = Inr ch" and
    s: "send_request M end_time request ch = Some (Inr (), ch1)" and
    r: "receive_complete M describe_error request [] end_time ch1 = Some (reply, rest)" and
    o: "bindE (map_err Plain reply) reply_result = Inr result"
    by (auto simp: exchange_call_def split: sum.splits option.splits)
  have i: "ch_incoming ch1 = []" and a: "prefix (unread ch1) (wire M [ReplyError message])"
    using connect_reads [OF c] send_request_reads [OF s] assms(1) by (simp_all add: arriving_def unread_def)
  obtain px where px: "encode_reply M (ReplyError message) = Some px" "length px \<le> MAX_MESSAGE_BYTES"
    "decode_reply M px = Inr (ReplyError message)" using assms(2) by (auto simp: readable_def)
  obtain x ch2 where x: "receive M describe_error end_time ch1 = (x, ch2)" by fastforce
  note out = receive_outcome [OF x] i
  have "(\<exists>e. x = Inl e) \<or> x = Inr (ReplyError message)"
  proof (cases "\<exists>e. x = Inl e")
    case False
    then obtain payload where p: "length payload \<le> MAX_MESSAGE_BYTES" "unread ch1 = frame_of payload @ unread ch2"
      "x = map_err (\<lambda>e. IoError InvalidData None (describe_error e)) (decode_reply M payload)"
      using out by (auto simp: receive_result_def)
    have "prefix (frame_of payload @ unread ch2) (frame_of px @ [])"
      using a p(2) px(1) by (simp add: wire_def)
    from frame_prefix [OF this p(1) px(2)] show ?thesis using p(3) px(3) by simp
  qed simp
  then have "(\<exists>e. reply = Inl e) \<or> reply = Inr (ReplyError message)"
    using r x by (auto simp: receive_complete_def receive_turns.simps [of M describe_error request end_time "[]"])
  then show False using o by auto
qed

lemma exchange_call_delivers:
  assumes "deadline (ep_latest ep) (ep_now ep) ms = Inr end_time" and "usable_path path"
    and "prompt end_time (length (wire M replies) + length replies) (ep_connection ep)"
    and "replies = snapshot_replies g roots"
    and "arriving (cn_channel (ep_connection ep)) = wire M replies"
    and "length (wire M replies) \<le> MAX_SNAPSHOT_BYTES + 4 * length replies"
    and "\<forall>x \<in> set replies. readable M x" and "wants_roots request"
    and "encode_request M request = Some payload" and "length payload \<le> MAX_MESSAGE_BYTES"
  shows "exchange_call M describe_error ep path ms request =
    Some (Inr ((carrying (PayloadRootList (arena_root_list roots)))\<lparr>rh_generation := g\<rparr>))"
proof -
  obtain ch k ws where c: "connect path end_time (ep_connection ep) = Inr ch" "ch_incoming ch = []"
    "ch_reads ch = ch_reads (cn_channel (ep_connection ep))"
    "in_time end_time (Suc (length (wire M replies) + length replies)) ch"
    "ch_writes ch = Took k # ws" "4 + MAX_MESSAGE_BYTES \<le> k"
    using connect_prompt [OF assms(3,2)] by blast
  from send_prompt [OF assms(9,10) c(4-6)] obtain ch1 where
    s: "send_request M end_time request ch = Some (Inr (), ch1)" "ch_incoming ch1 = ch_incoming ch"
      "ch_reads ch1 = ch_reads ch" "in_time end_time (length (wire M replies) + length replies) ch1" by blast
  have u: "unread ch1 = wire M replies @ []"
    using assms(5) c(2,3) s(2,3) by (simp add: unread_def arriving_def)
  have f: "flowing ch1" using assms(3) c(3) s(3) by (simp add: flowing_def prompt_def)
  have ne: "replies \<noteq> []" using snapshot_shape [of g roots] assms(4) by auto
  have "\<exists>ch'. receive_turns M describe_error request end_time [] 0 ch1 =
      Some (Inr (ReplyRoots g roots False), [], ch') \<and>
    ch_incoming ch' = [] \<and> arriving ch' = [] \<and> flowing ch' \<and> in_time end_time 0 ch'"
    using assms(4,6-8) u f ne s(2,4) c(2) by (intro receive_turns_delivers) simp_all
  then show ?thesis
    using assms(1) c(1) s(1) by (auto simp: exchange_call_def receive_complete_def)
qed

end
