(* ===== verification/ClientApi.thy ===== *)
theory ClientApi
  imports Delivery
begin

text \<open>
  What the Rust client promises over the C interface: its functions are those of the client core
  with errors told by code and kind, and a subscription returns the snapshots that were sent.
\<close>

section \<open>The interface is transparent\<close>

lemma span_of_text: "span_of (as_bytes t) = arena_text t"
  by (simp add: span_of_def arena_text_def arena_bytes_def)

lemma span_of_bytes: "span_of bs = arena_bytes (bs :: bytes)"
  by (simp add: span_of_def arena_bytes_def)

lemma span_of_strings: "span_of (map (\<lambda>t. span_of (as_bytes t)) ts) = arena_strings ts"
  by (simp add: span_of_def [of "map _ _"] span_of_text arena_strings_def)

text \<open>What a call may be given: text and lists within the bounds of \<open>inputs.rs\<close>.\<close>

definition fits_text :: "string \<Rightarrow> bool" where
  "fits_text t \<longleftrightarrow> length t \<le> MAX_TEXT_BYTES \<and> utf8 t"

definition fits_strings :: "string list \<Rightarrow> bool" where
  "fits_strings ts \<longleftrightarrow>
     length ts \<le> 65536 \<and> sum_list (map length ts) \<le> MAX_TEXT_BYTES \<and> (\<forall>t \<in> set ts. utf8 t)"

lemma input_text_fits: "fits_text t \<Longrightarrow> input_text (span_of (as_bytes t)) = Inr t"
  by (simp add: span_of_text fits_text_def)

lemma input_bytes_fits: "length bs \<le> MAX_TEXT_BYTES \<Longrightarrow> input_bytes (span_of bs) = Inr bs"
  by (simp add: span_of_bytes)

lemma input_strings_fits:
  "fits_strings ts \<Longrightarrow> input_strings (span_of (map (\<lambda>t. span_of (as_bytes t)) ts)) = Inr ts"
  unfolding span_of_strings by (rule input_strings_arena) (simp_all add: fits_strings_def)

lemmas fits = input_text_fits input_bytes_fits input_strings_fits

lemma input_text_long: "MAX_TEXT_BYTES < length t \<Longrightarrow> \<exists>e. input_text (span_of (as_bytes t)) = Inl e"
  by (simp add: span_of_text input_text_def input_bytes_def)

text \<open>A call that answers \<open>x\<close> through the view \<open>put x\<close>, or fails as \<open>tell\<close> says.\<close>

lemma owned_view_answer:
  assumes "\<And>e. r = Inl e \<Longrightarrow> reportable (tell e)"
    and "\<And>x. r = Inr x \<Longrightarrow> view (Some (carrying (p x))) = Some (put x) \<and> copy (put x) = Inr x"
  shows "owned_view missing view copy (finish (bindE (map_err tell r) (\<lambda>x. Inr (carrying (p x))))) =
    map_err (\<lambda>e. reported (tell e)) r"
  using assms by (cases r) (simp_all add: owned_view_error owned_view_ok)

lemma owned_unit_answer:
  assumes "\<forall>e. r = Inl e \<longrightarrow> utf8 (client_error_text e)"
  shows "owned_unit (unit_result r) = map_err told r"
  using assms by (cases r) (simp_all add: owned_unit_def unit_result_def)

text \<open>A failure never comes back as an answer, whatever its number.\<close>

lemma error_payload [simp]: "rh_payload (result_of_error e) = PayloadEmpty"
  by (simp add: result_of_error_def result_default_def)

definition only_answers :: "(result_handle option \<Rightarrow> 'v option) \<Rightarrow> bool" where
  "only_answers view \<longleftrightarrow> (\<forall>e. view (Some (result_of_error e)) = None)"

lemma accessors_only_answer [simp]:
  "only_answers peios_trust_result_text" "only_answers peios_trust_result_parsed"
  "only_answers peios_trust_result_root_list" "only_answers peios_trust_result_bytes"
  "only_answers peios_trust_result_status" "only_answers peios_trust_result_details"
  "only_answers peios_trust_result_boolean" "only_answers peios_trust_result_byte_list"
  "only_answers peios_trust_result_distrusted_list"
  by (simp_all add: only_answers_def accessor_defs)

lemma owned_view_failed:
  assumes "only_answers view"
  shows "\<exists>e'. owned_view missing view copy (finish (Inl e)) = Inl e'"
  using assms unfolding only_answers_def
  by (cases "take_text (rh_message (result_of_error e))")
    (simp_all add: owned_view_def owned_result_def finish_def Let_def peios_trust_result_message_def)

text \<open>Errors and answers a Rust program can hold.\<close>

definition told_well :: "('a \<Rightarrow> bool) \<Rightarrow> client_error + 'a \<Rightarrow> bool" where
  "told_well ok r \<longleftrightarrow> (case r of Inl e \<Rightarrow> utf8 (client_error_text e) | Inr x \<Rightarrow> ok x)"

lemma client_add_core:
  assumes "fits_text name" and "length bs \<le> MAX_TEXT_BYTES" and "fits_strings purposes"
    and "add W L debug now name bs purposes s = (r, s')" and "told_well parsed_texts r"
  shows "client_add W L debug now name bs purposes s = (map_err told r, s')"
proof -
  have "owned_view ''missing library result'' peios_trust_result_parsed take_parsed
      (finish (bindE (map_err management_error r) (\<lambda>p. Inr (carrying (PayloadParsed (arena_parsed p)))))) =
    map_err (\<lambda>e. reported (management_error e)) r"
    using assms(5) by (intro owned_view_answer)
      (auto simp: told_well_def peios_trust_result_parsed_def parsed_crossing.get_put)
  then show ?thesis using assms(1-4) by (simp add: client_add_def peios_trust_add_def fits)
qed

lemma client_remove_core:
  assumes "fits_text name" and "remove_addition W name s = (r, s')" and "told_well (\<lambda>_. True) r"
  shows "client_remove W name s = (map_err told r, s')"
  using assms owned_unit_answer [of r]
  by (simp add: client_remove_def peios_trust_remove_def fits told_well_def split: sum.splits)

lemma client_restore_core:
  assumes "fits_text fp" and "restore W fp s = (r, s')" and "told_well utf8 r"
  shows "client_restore W fp s = (map_err told r, s')"
proof -
  have "result_text (finish (bindE (map_err management_error r)
      (\<lambda>fp. Inr (carrying (PayloadText (arena_text fp)))))) = map_err (\<lambda>e. reported (management_error e)) r"
    unfolding result_text_def using assms(3) by (intro owned_view_answer)
      (auto simp: told_well_def peios_trust_result_text_def)
  then show ?thesis using assms(1,2) by (simp add: client_restore_def peios_trust_restore_def fits)
qed

lemma client_distrust_core:
  assumes "fits_text fp" and "fits_text reason"
    and "distrust W M describe_error ep fp reason s = Some (r, s')" and "told_well utf8_opt r"
  shows "client_distrust W M describe_error ep fp reason s = Some (map_err told r, s')"
proof -
  have "owned_view ''missing library result'' peios_trust_result_text take_maybe_text
      (finish (bindE (map_err management_error r) (\<lambda>was. Inr (carrying (PayloadText (arena_maybe_text was)))))) =
    map_err (\<lambda>e. reported (management_error e)) r"
    using assms(4) by (intro owned_view_answer)
      (auto simp: told_well_def peios_trust_result_text_def)
  then show ?thesis using assms(1-3) by (simp add: client_distrust_def peios_trust_distrust_def fits)
qed

definition told_cert_well :: "('a \<Rightarrow> bool) \<Rightarrow> cert_error + 'a \<Rightarrow> bool" where
  "told_cert_well ok r \<longleftrightarrow> (case r of Inl e \<Rightarrow> utf8 (cert_error_text e) | Inr x \<Rightarrow> ok x)"

lemma client_vet_core:
  assumes "length bs \<le> MAX_TEXT_BYTES" and "told_cert_well parsed_texts (vet L now bs)"
  shows "client_vet L now bs = map_err told_cert (vet L now bs)"
proof -
  have "owned_view ''missing library result'' peios_trust_result_parsed take_parsed
      (finish (bindE (map_err refused_cert (vet L now bs)) (\<lambda>p. Inr (carrying (PayloadParsed (arena_parsed p)))))) =
    map_err (\<lambda>e. reported (refused_cert e)) (vet L now bs)"
    using assms(2) by (intro owned_view_answer)
      (auto simp: told_cert_well_def peios_trust_result_parsed_def parsed_crossing.get_put)
  then show ?thesis using assms(1) by (simp add: client_vet_def peios_trust_vet_def fits)
qed

lemma client_inspect_core:
  assumes "length bs \<le> MAX_TEXT_BYTES" and "told_cert_well details_texts (describe L bs)"
  shows "client_inspect L bs = map_err told_cert (describe L bs)"
proof -
  have "owned_view ''missing library result'' peios_trust_result_details take_details
      (finish (bindE (map_err refused_cert (describe L bs)) (\<lambda>d. Inr (carrying (PayloadDetails (arena_details d)))))) =
    map_err (\<lambda>e. reported (refused_cert e)) (describe L bs)"
    using assms(2) by (intro owned_view_answer)
      (auto simp: told_cert_well_def peios_trust_result_details_def details_crossing.get_put)
  then show ?thesis using assms(1) by (simp add: client_inspect_def peios_trust_inspect_def fits)
qed

lemma client_certificate_core:
  assumes "length bs \<le> MAX_TEXT_BYTES" and "fits_text what" and "told_well (\<lambda>_. True) (certificate_of bs what)"
  shows "client_certificate bs what = map_err told (certificate_of bs what)"
proof -
  have "owned_view ''missing library result'' peios_trust_result_bytes take_array
      (finish (bindE (map_err management_error (certificate_of bs what))
        (\<lambda>cert. Inr (carrying (PayloadBytes (arena_bytes cert)))))) =
    map_err (\<lambda>e. reported (management_error e)) (certificate_of bs what)"
    using assms(3) by (intro owned_view_answer) (auto simp: told_well_def peios_trust_result_bytes_def)
  then show ?thesis using assms(1,2) by (simp add: client_certificate_def peios_trust_certificate_def fits)
qed

lemma result_text_of: "utf8 t \<Longrightarrow> result_text (finish (Inr (text_result t))) = Inr t"
  unfolding result_text_def text_result_def
  by (simp add: owned_view_ok peios_trust_result_text_def)

lemma result_text_failed: "reportable e \<Longrightarrow> result_text (finish (Inl e)) = Inl (reported e)"
  by (simp add: result_text_def owned_view_error)

lemma client_fingerprint_in_core:
  assumes "fits_text t" and "fits_strings (map r_fingerprint roots)" and "told_well utf8 (fingerprint_in t roots)"
  shows "client_fingerprint_in t roots = map_err told (fingerprint_in t roots)"
proof -
  have "map (\<lambda>r. span_of (as_bytes (r_fingerprint r))) roots =
      map (\<lambda>t. span_of (as_bytes t)) (map r_fingerprint roots)" by simp
  then have s: "input_strings (span_of (map (\<lambda>r. span_of (as_bytes (r_fingerprint r))) roots)) =
      Inr (map r_fingerprint roots)"
    using input_strings_fits [OF assms(2)] by (simp only: list.map_comp comp_def)
  show ?thesis using assms(1,3)
    by (cases "fingerprint_in t roots")
      (auto simp: client_fingerprint_in_def peios_trust_fingerprint_in_def fits s told_well_def fingerprint_in_def
        result_text_of result_text_failed)
qed

lemma hex_digit_ascii: "ord (hex_digit n) < 0x80"
proof -
  have "hex_digit n \<in> set ''0123456789abcdef''" unfolding hex_digit_def by (rule nth_mem) simp
  then show ?thesis by auto
qed

lemma fingerprint_utf8 [simp]: "utf8 (fingerprint_of L bs)"
  by (rule utf8_ascii) (auto simp: fingerprint_of_def hex_byte_def list_all_iff hex_digit_ascii)

lemma client_fingerprint_core:
  "length bs \<le> MAX_TEXT_BYTES \<Longrightarrow> client_fingerprint L bs = Inr (fingerprint_of L bs)"
  by (simp add: client_fingerprint_def peios_trust_fingerprint_def fits result_text_of)

lemma client_from_pem_core: "fits_text t \<Longrightarrow> client_from_pem t = Inr (from_pem t)"
  by (simp add: client_from_pem_def peios_trust_from_pem_def fits owned_view_ok peios_trust_result_byte_list_def)

lemma client_usable_name_core: "fits_text t \<Longrightarrow> client_usable_name t = Inr (usable_name t)"
  by (simp add: client_usable_name_def peios_trust_usable_name_def fits owned_view_ok
      peios_trust_result_boolean_def take_boolean_def)

text \<open>Conversely, what the client reports as done was done.\<close>

lemma from_bytes_Nil [simp]: "from_bytes [] = []"
  by (simp add: from_bytes_def)

lemma input_text_exact: "input_text (span_of (as_bytes t)) = Inr t' \<Longrightarrow> t' = t"
  by (auto simp: span_of_text input_text_def input_bytes_def input_array_def arena_text_def arena_bytes_def conv
      split: if_splits)

lemma input_bytes_exact: "input_bytes (span_of bs) = Inr bs' \<Longrightarrow> bs' = bs"
  by (auto simp: span_of_def input_bytes_def input_array_def split: if_splits)

lemma strings_loop_exact: "strings_loop used (map (\<lambda>t. span_of (as_bytes t)) ts) = Inr ts' \<Longrightarrow> ts' = ts"
  by (induction ts arbitrary: used ts') (auto simp: conv dest!: input_text_exact split: if_splits)

lemma input_strings_exact: "input_strings (span_of (map (\<lambda>t. span_of (as_bytes t)) ts)) = Inr ts' \<Longrightarrow> ts' = ts"
  by (auto simp: span_of_def [of "map _ _"] input_strings_def input_array_def conv dest!: strings_loop_exact
      split: if_splits)

lemma owned_view_Inr:
  assumes "owned_view missing view copy (finish r) = Inr x" and "only_answers view"
  shows "\<exists>result. r = Inr result"
proof (cases r)
  case (Inl e)
  then show ?thesis using owned_view_failed [OF assms(2), of missing copy e] assms(1) by auto
qed simp

lemma client_distrust_done:
  assumes "client_distrust W M describe_error ep fp reason s = Some (Inr was, s')"
  shows "\<exists>was. distrust W M describe_error ep fp reason s = Some (Inr was, s')"
proof -
  obtain result where p: "peios_trust_distrust W M describe_error ep (span_of (as_bytes fp)) (span_of (as_bytes reason)) s =
      Some (result, s')"
    "owned_view ''missing library result'' peios_trust_result_text take_maybe_text result = Inr was"
    using assms by (auto simp: client_distrust_def)
  show ?thesis
  proof (cases "bindE (input_text (span_of (as_bytes fp))) (\<lambda>fp. bindE (input_text (span_of (as_bytes reason)))
      (\<lambda>reason. Inr (fp, reason)))")
    case (Inl e)
    then show ?thesis using p owned_view_failed [of peios_trust_result_text "''missing library result''" take_maybe_text "Plain e"]
      by (auto simp: peios_trust_distrust_def)
  next
    case (Inr x)
    then have "x = (fp, reason)" by (auto simp: conv dest!: input_text_exact)
    then obtain r where r: "distrust W M describe_error ep fp reason s = Some (r, s')"
      "result = finish (bindE (map_err management_error r) (\<lambda>was. Inr (carrying (PayloadText (arena_maybe_text was)))))"
      using p(1) Inr by (auto simp: peios_trust_distrust_def)
    then show ?thesis using owned_view_Inr [OF p(2) [unfolded r(2)]] by (cases r) auto
  qed
qed

lemma client_add_done:
  assumes "client_add W L debug now name bs purposes s = (Inr p, s')"
  shows "\<exists>p. add W L debug now name bs purposes s = (Inr p, s')"
proof -
  obtain result where p: "peios_trust_add W L debug now (span_of (as_bytes name)) (span_of bs)
      (span_of (map (\<lambda>p. span_of (as_bytes p)) purposes)) s = (result, s')"
    "owned_view ''missing library result'' peios_trust_result_parsed take_parsed result = Inr p"
    using assms by (auto simp: client_add_def split: prod.splits)
  show ?thesis
  proof (cases "bindE (input_text (span_of (as_bytes name))) (\<lambda>name. bindE (input_bytes (span_of bs)) (\<lambda>cert.
      bindE (input_strings (span_of (map (\<lambda>p. span_of (as_bytes p)) purposes))) (\<lambda>purposes. Inr (name, cert, purposes))))")
    case (Inl e)
    then show ?thesis using p owned_view_failed [of peios_trust_result_parsed "''missing library result''" take_parsed "Plain e"]
      by (auto simp: peios_trust_add_def)
  next
    case (Inr x)
    then have "x = (name, bs, purposes)"
      by (auto simp: conv dest!: input_text_exact input_bytes_exact input_strings_exact)
    then obtain r where r: "add W L debug now name bs purposes s = (r, s')"
      "result = finish (bindE (map_err management_error r) (\<lambda>p. Inr (carrying (PayloadParsed (arena_parsed p)))))"
      using p(1) Inr by (auto simp: peios_trust_add_def split: prod.splits)
    then show ?thesis using owned_view_Inr [OF p(2) [unfolded r(2)]] by (cases r) auto
  qed
qed

text \<open>An input outside the bounds is refused before anything is changed.\<close>

lemma client_add_refused:
  assumes "MAX_TEXT_BYTES < length name \<or> MAX_TEXT_BYTES < length bs \<or> 65536 < length purposes"
  shows "\<exists>e. client_add W L debug now name bs purposes s = (Inl e, s)"
proof -
  have "\<exists>e. bindE (input_text (span_of (as_bytes name))) (\<lambda>name. bindE (input_bytes (span_of bs)) (\<lambda>cert.
      bindE (input_strings (span_of (map (\<lambda>p. span_of (as_bytes p)) purposes))) (\<lambda>purposes.
        Inr (name, cert, purposes)))) = Inl e"
  proof (cases "input_text (span_of (as_bytes name))")
    case (Inr name')
    then have "length name' \<le> MAX_TEXT_BYTES" "length name' = length name"
      using input_text_Inr [OF Inr] by (auto simp: span_of_text input_text_def input_bytes_def split: if_splits)
    then show ?thesis using assms Inr
      by (cases "input_bytes (span_of bs)")
        (auto simp: span_of_def input_bytes_def input_strings_def split: if_splits)
  qed simp
  then obtain e where e: "bindE (input_text (span_of (as_bytes name))) (\<lambda>name. bindE (input_bytes (span_of bs)) (\<lambda>cert.
      bindE (input_strings (span_of (map (\<lambda>p. span_of (as_bytes p)) purposes))) (\<lambda>purposes.
        Inr (name, cert, purposes)))) = Inl e" by blast
  then show ?thesis
    using owned_view_failed [of peios_trust_result_parsed "''missing library result''" take_parsed "Plain e"]
    by (simp add: client_add_def peios_trust_add_def)
qed

section \<open>Subscriptions\<close>

definition as_snapshot :: "u64 \<times> root list \<Rightarrow> root_snapshot" where
  "as_snapshot x = \<lparr>rs_generation = fst x, rs_roots = snd x\<rparr>"

text \<open>The snapshots to come, from where a subscription stands; a closed one gets none.\<close>

definition follows :: "('r, 'e) msgpack \<Rightarrow> (u64 \<times> root list) list \<Rightarrow> subscription \<Rightarrow> bool" where
  "follows M snaps sub \<longleftrightarrow> wants_roots (sub_request sub) \<and>
     (case sub_channel sub of None \<Rightarrow> True | Some ch \<Rightarrow> tracks M snaps (sub_pending sub) ch)"

lemma subscription_next_follows:
  assumes "follows M snaps sub" and "\<forall>x \<in> set (sent_replies snaps). readable M x"
  shows "\<exists>r sub'. subscription_next M describe_error latest now ms sub = Some (r, sub') \<and>
    ((\<exists>e. r = Inl e) \<and> follows M snaps sub' \<or>
     (\<exists>g roots later. r = Inr ((carrying (PayloadRootList (arena_root_list roots)))\<lparr>rh_generation := g\<rparr>) \<and>
        snaps = (g, roots) # later \<and> follows M later sub'))"
proof (cases "deadline latest now ms")
  case (Inl e)
  then show ?thesis using assms(1) by (simp add: subscription_next_def)
next
  case (Inr end_time)
  show ?thesis
  proof (cases "sub_channel sub")
    case None
    then show ?thesis using assms(1) Inr by (simp add: subscription_next_def)
  next
    case (Some ch)
    have t: "tracks M snaps (sub_pending sub) ch" and w: "wants_roots (sub_request sub)"
      using assms(1) Some by (simp_all add: follows_def)
    from receive_complete_tracks [OF t assms(2) w, of describe_error end_time]
    obtain r held' ch' where
      c: "receive_complete M describe_error (sub_request sub) (sub_pending sub) end_time ch = Some (r, held', ch')" and
      o: "(\<exists>e. r = Inl e \<and> (io_kind e = TimedOut \<longrightarrow> tracks M snaps held' ch')) \<or>
        (\<exists>g roots later. r = Inr (ReplyRoots g roots False) \<and> snaps = (g, roots) # later \<and> held' = [] \<and>
          tracks M later [] ch')" by blast
    from o show ?thesis
    proof (elim disjE exE conjE)
      fix e assume "r = Inl e" "io_kind e = TimedOut \<longrightarrow> tracks M snaps held' ch'"
      then show ?thesis using Inr Some c w by (simp add: subscription_next_def Let_def follows_def)
    next
      fix g roots later
      assume "r = Inr (ReplyRoots g roots False)" "snaps = (g, roots) # later" "held' = []" "tracks M later [] ch'"
      then show ?thesis using Inr Some c w by (simp add: subscription_next_def Let_def follows_def)
    qed
  qed
qed

lemma snapshot_failed: "\<exists>e'. bindE (owned_result (Some (finish (Inl e)))) snapshot_of = Inl e'"
proof -
  have "snapshot_of (result_of_error e) = Inl (bad ''missing roots'')"
    by (simp add: snapshot_of_def peios_trust_result_root_list_def)
  then show ?thesis
    by (cases "take_text (rh_message (result_of_error e))")
      (simp_all add: owned_result_def finish_def Let_def peios_trust_result_message_def)
qed

lemma snapshot_taken:
  assumes "\<forall>r \<in> set roots. root_texts r"
  shows "bindE (owned_result (Some (finish (Inr ((carrying (PayloadRootList (arena_root_list roots)))
    \<lparr>rh_generation := g\<rparr>))))) snapshot_of = Inr (as_snapshot (g, roots))"
proof -
  let ?h = "(carrying (PayloadRootList (arena_root_list roots)))\<lparr>rh_generation := g\<rparr>"
  have "rh_error ?h = 0" by (simp add: carrying_def result_default_def)
  then have "owned_result (Some (finish (Inr ?h))) = Inr ?h" by (rule owned_result_ok)
  then show ?thesis using assms
    by (simp add: snapshot_of_def peios_trust_result_root_list_def peios_trust_result_generation_def
        as_snapshot_def carrying_def)
qed

lemma client_next_follows:
  assumes "follows M snaps sub" and "\<forall>x \<in> set (sent_replies snaps). readable M x"
    and "\<forall>(g, roots) \<in> set snaps. \<forall>r \<in> set roots. root_texts r"
  shows "\<exists>r sub'. client_next M describe_error latest now nanos sub = Some (r, sub') \<and>
    ((\<exists>e. r = Inl e) \<and> follows M snaps sub' \<or>
     (\<exists>x later. r = Inr (as_snapshot x) \<and> snaps = x # later \<and> follows M later sub'))"
proof (cases "timeout_of nanos")
  case (Inl e)
  then show ?thesis using assms(1) by (simp add: client_next_def)
next
  case (Inr ms)
  from subscription_next_follows [OF assms(1,2), of describe_error latest now ms]
  obtain r sub' where c: "subscription_next M describe_error latest now ms sub = Some (r, sub')" and
    o: "(\<exists>e. r = Inl e) \<and> follows M snaps sub' \<or>
     (\<exists>g roots later. r = Inr ((carrying (PayloadRootList (arena_root_list roots)))\<lparr>rh_generation := g\<rparr>) \<and>
        snaps = (g, roots) # later \<and> follows M later sub')" by blast
  have "client_next M describe_error latest now nanos sub =
      Some (bindE (owned_result (Some (finish r))) snapshot_of, sub')"
    using Inr c by (simp add: client_next_def peios_trust_subscription_next_def)
  then show ?thesis
  proof -
    assume n: "client_next M describe_error latest now nanos sub =
      Some (bindE (owned_result (Some (finish r))) snapshot_of, sub')"
    from o show ?thesis
    proof (elim disjE exE conjE)
      fix e assume "r = Inl e" "follows M snaps sub'"
      then show ?thesis using n snapshot_failed [of e] by auto
    next
      fix g roots later
      assume f: "r = Inr ((carrying (PayloadRootList (arena_root_list roots)))\<lparr>rh_generation := g\<rparr>)"
        "snaps = (g, roots) # later" "follows M later sub'"
      then have "\<forall>r \<in> set roots. root_texts r" using assms(3) by simp
      then show ?thesis using n f snapshot_taken [of roots g] by auto
    qed
  qed
qed

subsection \<open>A subscriber as a machine\<close>

text \<open>
  The state is what the subscriber has got and its handle, or \<open>None\<close> after a panic. An event is one
  call of \<open>next\<close>: the latest instant, the time of the call and its time-out.
\<close>

type_synonym next_call = "nat \<times> nat \<times> nat"

definition next_step ::
  "('r, 'e) msgpack \<Rightarrow> ('e wire_error \<Rightarrow> string) \<Rightarrow> (root_snapshot list \<times> subscription) option \<Rightarrow> next_call \<Rightarrow>
   (root_snapshot list \<times> subscription) option" where
  "next_step M describe_error st ev =
     (case st of
        None \<Rightarrow> None
      | Some (got, sub) \<Rightarrow>
          (case ev of (latest, now, nanos) \<Rightarrow>
             map_option (\<lambda>(r, sub). (case r of Inl _ \<Rightarrow> got | Inr snapshot \<Rightarrow> got @ [snapshot], sub))
               (client_next M describe_error latest now nanos sub)))"

definition takable :: "('r, 'e) msgpack \<Rightarrow> (u64 \<times> root list) list \<Rightarrow> bool" where
  "takable M snaps \<longleftrightarrow> (\<forall>x \<in> set (sent_replies snaps). readable M x) \<and>
     (\<forall>(g, roots) \<in> set snaps. \<forall>r \<in> set roots. root_texts r)"

definition in_order ::
  "('r, 'e) msgpack \<Rightarrow> (u64 \<times> root list) list \<Rightarrow> (root_snapshot list \<times> subscription) option \<Rightarrow> bool" where
  "in_order M snaps st \<longleftrightarrow> takable M snaps \<and>
     (\<exists>got sub taken later. st = Some (got, sub) \<and> snaps = taken @ later \<and> got = map as_snapshot taken \<and>
        follows M later sub)"

definition extends :: "('a list \<times> 'b) option \<Rightarrow> ('a list \<times> 'b) option \<Rightarrow> bool" where
  "extends st st' \<longleftrightarrow>
     (case (st, st') of (Some (got, _), Some (got', _)) \<Rightarrow> prefix got got' | (None, _) \<Rightarrow> True | _ \<Rightarrow> False)"

lemma in_orderI:
  "takable M snaps \<Longrightarrow> snaps = taken @ later \<Longrightarrow> follows M later sub \<Longrightarrow>
    in_order M snaps (Some (map as_snapshot taken, sub))"
  by (auto simp: in_order_def)

lemma in_order_step:
  assumes "in_order M snaps st"
  shows "in_order M snaps (next_step M describe_error st ev) \<and> extends st (next_step M describe_error st ev)"
proof -
  obtain got sub taken later where st: "st = Some (got, sub)" "snaps = taken @ later"
    "got = map as_snapshot taken" "follows M later sub" and ok: "takable M snaps"
    using assms by (auto simp: in_order_def)
  obtain latest now nanos where ev: "ev = (latest, now, nanos)" by (metis prod_cases3)
  have "\<forall>x \<in> set (sent_replies later). readable M x" "\<forall>(g, roots) \<in> set later. \<forall>r \<in> set roots. root_texts r"
    using ok by (auto simp: takable_def st(2) sent_replies_def)
  from client_next_follows [OF st(4) this, of describe_error latest now nanos]
  obtain r sub' where n: "client_next M describe_error latest now nanos sub = Some (r, sub')" and
    o: "(\<exists>e. r = Inl e) \<and> follows M later sub' \<or>
      (\<exists>x rest. r = Inr (as_snapshot x) \<and> later = x # rest \<and> follows M rest sub')" by blast
  from o show ?thesis
  proof (elim disjE exE conjE)
    fix e assume "r = Inl e" "follows M later sub'"
    then show ?thesis using n st ok by (auto simp: next_step_def ev in_order_def extends_def)
  next
    fix x rest assume "r = Inr (as_snapshot x)" "later = x # rest" "follows M rest sub'"
    then have "next_step M describe_error st ev = Some (map as_snapshot (taken @ [x]), sub')"
      "in_order M snaps (Some (map as_snapshot (taken @ [x]), sub'))"
      using n st ok in_orderI [of M snaps "taken @ [x]" rest sub'] by (simp_all add: next_step_def ev)
    then show ?thesis using st by (simp add: extends_def)
  qed
qed

interpretation subscriber: machine "next_step M describe_error" "in_order M snaps" "\<lambda>_. 0" "\<lambda>_. extends"
  for M describe_error snaps
proof
  show "in_order M snaps st \<Longrightarrow> in_order M snaps (next_step M describe_error st ev)" for st ev
    by (simp add: in_order_step)
  show "in_order M snaps st \<Longrightarrow> extends st st" for st
    by (auto simp: in_order_def extends_def)
  show "extends a b \<Longrightarrow> extends b c \<Longrightarrow> extends a c" for a b c :: "(root_snapshot list \<times> subscription) option"
    by (auto simp: extends_def split: option.splits)
  show "in_order M snaps st \<Longrightarrow> extends st (next_step M describe_error st ev)" for st ev
    by (simp add: in_order_step)
qed

text \<open>A subscription starts at the beginning of what is sent to it.\<close>

lemma client_subscribe_follows:
  assumes "client_subscribe M ep c with_der = Some (Inr sub)"
    and "prefix (arriving (cn_channel (ep_connection ep))) (wire M (sent_replies snaps))"
  shows "follows M snaps sub"
proof -
  obtain request end_time path ch ch' where
    i: "bindE (input_boolean (if with_der then 1 else 0)) (\<lambda>with_der.
        bindE (deadline (ep_latest ep) (ep_now ep) (cl_timeout c)) (\<lambda>end_time.
        bindE (input_bytes (span_of (cl_path c))) (\<lambda>path.
        bindE (connect path end_time (ep_connection ep)) (\<lambda>ch. Inr (ReqSubscribe with_der, end_time, ch))))) =
      Inr (request, end_time, ch)" and
    s: "send_request M end_time request ch = Some (Inr (), ch')" and
    sub: "sub = \<lparr>sub_channel = Some ch', sub_request = request, sub_pending = []\<rparr>"
    using assms(1)
    by (auto simp: client_subscribe_def peios_trust_subscribe_def conv split: sum.splits prod.splits)
      (metis old.unit.exhaust sum.exhaust)
  then have r: "request = ReqSubscribe with_der" and "\<exists>path. connect path end_time (ep_connection ep) = Inr ch"
    by (auto simp: conv)
  then have "ch_incoming ch' = []" "arriving ch' = arriving (cn_channel (ep_connection ep))"
    using connect_reads send_request_reads [OF s] by (fastforce simp: arriving_def)+
  then show ?thesis using assms(2) tracks_start [of ch' M snaps]
    by (simp add: follows_def sub r wants_roots_def)
qed

lemma client_subscribe_prompt:
  assumes "deadline (ep_latest ep) (ep_now ep) (cl_timeout c) = Inr end_time" and "usable_path (cl_path c)"
    and "prompt end_time n (ep_connection ep)"
    and "encode_request M (ReqSubscribe with_der) = Some payload" and "length payload \<le> MAX_MESSAGE_BYTES"
  shows "\<exists>sub. client_subscribe M ep c with_der = Some (Inr sub)"
proof -
  from connect_prompt [OF assms(3,2)] obtain ch k ws where
    c: "connect (cl_path c) end_time (ep_connection ep) = Inr ch" "in_time end_time (Suc n) ch"
      "ch_writes ch = Took k # ws" "4 + MAX_MESSAGE_BYTES \<le> k" by blast
  from send_prompt [OF assms(4,5) c(2-4)] obtain ch' where
    s: "send_request M end_time (ReqSubscribe with_der) ch = Some (Inr (), ch')" by blast
  have "length (cl_path c) \<le> MAX_TEXT_BYTES" using assms(2) by (simp add: usable_path_def MAX_TEXT_BYTES_def)
  then show ?thesis using assms(1) c(1) s
    by (simp add: client_subscribe_def peios_trust_subscribe_def fits)
qed

subsection \<open>A sample\<close>

text \<open>A daemon that has sent \<open>bs\<close>, at a time when nothing is slow.\<close>

definition sample_link :: "bytes \<Rightarrow> endpoint" where
  "sample_link bs = \<lparr>ep_latest = 100, ep_now = 0,
     ep_connection = \<lparr>cn_socket = Inr (), cn_connect = None, cn_pending = Inr None,
       cn_channel = \<lparr>ch_incoming = [], ch_sent = [], ch_clock = replicate (100 + length bs) 0,
         ch_reads = [Arrived bs], ch_writes = [Took (4 + MAX_MESSAGE_BYTES)], ch_waits = []\<rparr>\<rparr>\<rparr>"

definition sample_handle :: client_handle where
  "sample_handle = \<lparr>cl_path = as_bytes ''/s'', cl_timeout = 10\<rparr>"

lemma sample_link_prompt: "bs \<noteq> [] \<Longrightarrow> n \<le> 98 + length bs \<Longrightarrow> prompt 10 n (ep_connection (sample_link bs))"
  by (auto simp: prompt_def sample_link_def flowing_def in_time_def)

lemma sample_link_arriving [simp]: "arriving (cn_channel (ep_connection (sample_link bs))) = bs"
  by (simp add: sample_link_def arriving_def)

lemma sample_link_deadline [simp]:
  "deadline (ep_latest (sample_link bs)) (ep_now (sample_link bs)) (cl_timeout sample_handle) = Inr 10"
  by (simp add: deadline_def sample_link_def sample_handle_def)

lemma sample_path [simp]: "usable_path (cl_path sample_handle)"
  by (simp add: usable_path_def sample_handle_def as_bytes_def)

lemma wide_request: "encode_request wide request = Some payload \<Longrightarrow>
    length payload = sum_list (map (\<lambda>t. length (put_tok t)) (request_tokens request))"
  by (auto simp: encode_request_def expect_def wide_def length_concat comp_def split: if_splits)

lemma sample_takable: "takable wide [(7, sample_roots)]"
  using sample_readable
  by (auto simp: takable_def sample_roots_def root_texts_def sample_root_def utf8_opt_def)

section \<open>Properties\<close>

text \<open>
  C5. A subscription is exact: whatever the reads, the time-outs and the errors between, and however
  little of the stream arrives, the snapshots a subscriber gets from any number of calls of
  \<open>next\<close> are the first ones the daemon sent, each whole and with its generation, none lost, none
  repeated, none mixed; and no call panics.
\<close>

theorem subscription_exact:
  assumes "client_subscribe M ep c with_der = Some (Inr sub)"
    and "prefix (arriving (cn_channel (ep_connection ep))) (wire M (sent_replies snaps))"
    and "takable M snaps"
  shows "\<exists>got sub'. run (next_step M describe_error) (Some ([], sub)) calls = Some (got, sub') \<and>
    prefix got (map as_snapshot snaps)"
proof -
  have "in_order M snaps (Some ([], sub))"
    using client_subscribe_follows [OF assms(1,2)] assms(3) by (simp add: in_order_def)
  then have "in_order M snaps (run (next_step M describe_error) (Some ([], sub)) calls)"
    by (rule subscriber.inv_run)
  then show ?thesis by (auto simp: in_order_def)
qed

theorem subscription_exact_witness:
  "\<exists>sub got sub'. client_subscribe wide (sample_link (wire wide (sent_replies [(7, sample_roots)])))
      sample_handle True = Some (Inr sub) \<and>
    run (next_step wide (\<lambda>_. [])) (Some ([], sub)) [(100, 1, 3), (100, 5, 1000000)] = Some (got, sub') \<and>
    prefix got [as_snapshot (7, sample_roots)]"
proof -
  let ?bs = "wire wide (sent_replies [(7, sample_roots)])"
  have "?bs \<noteq> []" using snapshot_shape [of 7 sample_roots] by (auto simp: wire_def)
  then have p: "prompt 10 1 (ep_connection (sample_link ?bs))" by (rule sample_link_prompt) simp
  obtain payload where e: "encode_request wide (ReqSubscribe True) = Some payload" "length payload \<le> MAX_MESSAGE_BYTES"
    using request_codec [OF wide_laws, of "ReqSubscribe True"] wide_request [of "ReqSubscribe True"]
    by (auto simp: MAX_MESSAGE_BYTES_def)
  obtain sub where s: "client_subscribe wide (sample_link ?bs) sample_handle True = Some (Inr sub)"
    using client_subscribe_prompt [OF sample_link_deadline sample_path p e] by blast
  have "prefix (arriving (cn_channel (ep_connection (sample_link ?bs)))) ?bs" by simp
  from subscription_exact [OF s this sample_takable, where describe_error = "\<lambda>_. []" and
      calls = "[(100, 1, 3), (100, 5, 1000000)]"] s
  show ?thesis by (simp only: list.map) blast
qed

text \<open>
  C24. The C interface in the middle changes nothing: for inputs within its bounds the Rust client's
  functions \<open>vet\<close>, \<open>inspect\<close>, \<open>certificate\<close>, \<open>fingerprint_in\<close>, \<open>fingerprint\<close>, \<open>from_pem\<close> and
  \<open>usable_name\<close> answer what the code behind them answers, and an error keeps its kind, its number and
  its message.
\<close>

theorem client_agrees:
  assumes "length bs \<le> MAX_TEXT_BYTES" and "fits_text t" and "fits_strings (map r_fingerprint roots)"
    and "told_cert_well parsed_texts (vet L now bs)" and "told_cert_well details_texts (describe L bs)"
    and "told_well (\<lambda>_. True) (certificate_of bs t)" and "told_well utf8 (fingerprint_in t roots)"
  shows "client_vet L now bs = map_err told_cert (vet L now bs) \<and>
    client_inspect L bs = map_err told_cert (describe L bs) \<and>
    client_certificate bs t = map_err told (certificate_of bs t) \<and>
    client_fingerprint_in t roots = map_err told (fingerprint_in t roots) \<and>
    client_fingerprint L bs = Inr (fingerprint_of L bs) \<and>
    client_from_pem t = Inr (from_pem t) \<and> client_usable_name t = Inr (usable_name t)"
  using assms client_vet_core client_inspect_core client_certificate_core client_fingerprint_in_core
    client_fingerprint_core client_from_pem_core client_usable_name_core by blast

theorem client_agrees_witness:
  "\<exists>e. client_vet sample_lib (Some 5) [] = Inl e \<and> te_kind e = KindMalformed \<and> te_code e = 22 \<and>
    (\<exists>e. client_fingerprint_in ''abcd'' [] = Inl e \<and> te_kind e = KindOther)"
proof -
  have v: "vet sample_lib (Some 5) [] = Inl (Malformed ''empty'')"
    by (simp add: vet_def parse_def sample_lib_def)
  have d: "describe sample_lib [] = Inl (Malformed ''empty'')"
    by (simp add: describe_def sample_lib_def)
  have c: "certificate_of [] ''abcd'' = Inr []" by (simp add: certificate_of_def from_pem_def)
  have f: "fingerprint_in ''abcd'' [] = Inl (Failed (''abcd'' @ '' is too short; give at least eight digits''))"
    by (simp add: fingerprint_in_def fingerprint_among_def normalise_fingerprint_def ascii_defs hex_def)
  from client_agrees [of "[]" "''abcd''" "[]" sample_lib "Some 5"] v d c f show ?thesis
    by (simp add: fits_text_def fits_strings_def MAX_TEXT_BYTES_def told_cert_well_def told_well_def
        told_cert_def told_def EINVAL_def)
qed

end
