(* ===== verification/EndToEnd.thy ===== *)
theory EndToEnd
  imports ClientApi DaemonProps
begin

text \<open>
  The daemon at one end of the socket and the Rust client at the other: what the client's \<open>roots\<close>
  returns against what the daemon's \<open>handle\<close> served, when all, a part or nothing of the answer
  arrives.
\<close>

section \<open>What the daemon sent\<close>

lemma handle_roots_sent:
  assumes "handle P rd stream (ReqRoots with_der purpose) (t, out) = Some (d', Some stream')"
    and "sent (st_peer stream) = []"
    and "permits (p_security P) (t_control t) (st_conn stream) TRUST_QUERY"
    and "\<forall>x \<in> set (snapshot_replies (t_generation t) (trustd_roots t with_der purpose)). readable (p_msgpack P) x"
  shows "prefix (sent (st_peer stream'))
    (wire (p_msgpack P) (snapshot_replies (t_generation t) (trustd_roots t with_der purpose)))"
proof -
  let ?replies = "snapshot_replies (t_generation t) (trustd_roots t with_der purpose)"
  have "\<forall>x \<in> set ?replies. encode_reply (p_msgpack P) x \<noteq> None" using assms(4) by (auto simp: readable_def)
  note out = send_roots_outcome [OF this]
  obtain ok where "send_roots_to P (t_generation t) (trustd_roots t with_der purpose) stream = Some (ok, stream')"
    using assms(1,3) by (auto simp: handle_def)
  then obtain peer' deadline where "send_roots (p_msgpack P) deadline (t_generation t)
      (trustd_roots t with_der purpose) (st_peer stream) = Some (ok, peer')" "st_peer stream' = peer'"
    by (auto simp: send_roots_to_def send_with_def)
  then show ?thesis using out [of deadline "st_peer stream"] assms(2) by (auto simp: take_is_prefix)
qed

lemma handle_refused_sent:
  assumes "handle P rd stream request (t, out) = Some (d', Some stream')"
    and "sent (st_peer stream) = []"
    and "\<not> permits (p_security P) (t_control t) (st_conn stream) (required_right request)"
    and "readable (p_msgpack P) (ReplyError ''access denied'')"
  shows "prefix (sent (st_peer stream')) (wire (p_msgpack P) [ReplyError ''access denied''])"
proof -
  have e: "encode_reply (p_msgpack P) (ReplyError ''access denied'') \<noteq> None" using assms(4) by (auto simp: readable_def)
  obtain ok where "respond_to P (ReplyError ''access denied'') stream = Some (ok, stream')"
    using assms(1,3) by (auto simp: handle_def)
  then obtain peer' deadline where "respond (p_msgpack P) deadline (ReplyError ''access denied'')
      (st_peer stream) = Some (ok, peer')" "st_peer stream' = peer'"
    by (auto simp: respond_to_def send_with_def)
  then show ?thesis using respond_outcome [OF e, of deadline "st_peer stream"] assms(2) by (auto simp: take_is_prefix)
qed

section \<open>What the client makes of it\<close>

text \<open>A call of the client that answered made its exchange with the socket's path.\<close>

lemma client_roots_Inr:
  assumes "client_roots M describe_error ep c with_der purpose = Some (Inr roots)"
  shows "\<exists>path request result. wants_roots request \<and>
    exchange_call M describe_error ep path (cl_timeout c) request = Some (Inr result) \<and>
    owned_view ''missing library result'' peios_trust_result_root_list take_root_list (finish (Inr result)) = Inr roots"
proof -
  obtain r where r: "peios_trust_roots M describe_error ep (span_of (cl_path c)) (cl_timeout c)
      (if with_der then 1 else 0) (maybe_span purpose) = Some r"
    "owned_view ''missing library result'' peios_trust_result_root_list take_root_list r = Inr roots"
    using assms by (auto simp: client_roots_def)
  have failed: "owned_view ''missing library result'' peios_trust_result_root_list take_root_list (finish (Inl e)) \<noteq> Inr roots"
    for e
    using owned_view_failed [of peios_trust_result_root_list "''missing library result''" take_root_list e] by auto
  show ?thesis
  proof (cases "bindE (input_bytes (span_of (cl_path c))) (\<lambda>path. bindE (input_boolean (if with_der then 1 else 0))
      (\<lambda>with_der. bindE (input_maybe_text (maybe_span purpose)) (\<lambda>purpose. Inr (path, ReqRoots with_der purpose))))")
    case (Inl e)
    then show ?thesis using r failed by (auto simp: peios_trust_roots_def)
  next
    case (Inr x)
    then obtain path request where x: "x = (path, request)" "wants_roots request"
      by (auto simp: conv wants_roots_def)
    obtain out where o: "exchange_call M describe_error ep path (cl_timeout c) request = Some out" "finish out = r"
      using r(1) Inr x(1) by (auto simp: peios_trust_roots_def)
    then show ?thesis using x r(2) failed by (cases out) auto
  qed
qed

lemma owned_root_list:
  assumes "\<forall>r \<in> set roots. root_texts r"
  shows "owned_view missing peios_trust_result_root_list take_root_list
    (finish (Inr ((carrying (PayloadRootList (arena_root_list roots)))\<lparr>rh_generation := g\<rparr>))) = Inr roots"
  using assms by (simp add: owned_view_ok peios_trust_result_root_list_def carrying_def result_default_def)

lemma takable_one:
  "takable M [(g, roots)] \<longleftrightarrow>
    (\<forall>x \<in> set (snapshot_replies g roots). readable M x) \<and> (\<forall>r \<in> set roots. root_texts r)"
  by (simp add: takable_def)

lemma roots_delivered:
  assumes "handle P rd stream (ReqRoots with_der purpose) (t, out) = Some (d', Some stream')"
    and "sent (st_peer stream) = []"
    and "permits (p_security P) (t_control t) (st_conn stream) TRUST_QUERY"
    and "replies = snapshot_replies (t_generation t) (trustd_roots t with_der purpose)"
    and "length (wire (p_msgpack P) replies) \<le> length (sent (st_peer stream'))"
    and "arriving (cn_channel (ep_connection ep)) = sent (st_peer stream')"
    and "takable (p_msgpack P) [(t_generation t, trustd_roots t with_der purpose)]"
    and "length (wire (p_msgpack P) replies) \<le> MAX_SNAPSHOT_BYTES + 4 * length replies"
    and "deadline (ep_latest ep) (ep_now ep) (cl_timeout c) = Inr end_time" and "usable_path (cl_path c)"
    and "prompt end_time (length (wire (p_msgpack P) replies) + length replies) (ep_connection ep)"
    and "encode_request (p_msgpack P) (ReqRoots with_der purpose) = Some payload"
    and "length payload \<le> MAX_MESSAGE_BYTES" and "\<forall>p. purpose = Some p \<longrightarrow> fits_text p"
  shows "client_roots (p_msgpack P) describe_error ep c with_der purpose =
    Some (Inr (trustd_roots t with_der purpose))"
proof -
  have s: "\<forall>x \<in> set replies. readable (p_msgpack P) x" using assms(4,7) by (simp add: takable_one)
  then have "prefix (sent (st_peer stream')) (wire (p_msgpack P) replies)"
    unfolding assms(4) by (rule handle_roots_sent [OF assms(1-3)])
  then have "sent (st_peer stream') = wire (p_msgpack P) replies" using assms(5) by (auto simp: prefix_def)
  then have "exchange_call (p_msgpack P) describe_error ep (cl_path c) (cl_timeout c) (ReqRoots with_der purpose) =
      Some (Inr ((carrying (PayloadRootList (arena_root_list (trustd_roots t with_der purpose))))
        \<lparr>rh_generation := t_generation t\<rparr>))"
    using assms(6,8,11) by (intro exchange_call_delivers [OF assms(9,10) _ assms(4) _ _ s _ assms(12,13)])
      (simp_all add: wants_roots_def)
  moreover have "maybe_span purpose = arena_maybe_text purpose"
    by (simp add: maybe_span_def arena_maybe_text_def absent_def span_of_text split: option.split)
  moreover have "input_maybe_text (arena_maybe_text purpose) = Inr purpose"
    using assms(14) by (intro input_maybe_text_arena) (auto simp: fits_text_def)
  moreover have "length (cl_path c) \<le> MAX_TEXT_BYTES" using assms(10) by (simp add: usable_path_def MAX_TEXT_BYTES_def)
  ultimately show ?thesis using assms(7) owned_root_list
    by (simp add: client_roots_def peios_trust_roots_def fits takable_one)
qed

lemma roots_seen:
  assumes "handle P rd stream (ReqRoots with_der purpose) (t, out) = Some (d', Some stream')"
    and "sent (st_peer stream) = []"
    and "prefix (arriving (cn_channel (ep_connection ep))) (sent (st_peer stream'))"
    and "takable (p_msgpack P) [(t_generation t, trustd_roots t with_der purpose)]"
    and "readable (p_msgpack P) (ReplyError ''access denied'')"
    and "client_roots (p_msgpack P) describe_error ep c with_der purpose = Some (Inr roots)"
  shows "permits (p_security P) (t_control t) (st_conn stream) TRUST_QUERY \<and>
    roots = trustd_roots t with_der purpose"
proof -
  obtain path request result where c: "wants_roots request"
    "exchange_call (p_msgpack P) describe_error ep path (cl_timeout c) request = Some (Inr result)"
    "owned_view ''missing library result'' peios_trust_result_root_list take_root_list (finish (Inr result)) = Inr roots"
    using client_roots_Inr [OF assms(6)] by blast
  have ok: "permits (p_security P) (t_control t) (st_conn stream) TRUST_QUERY"
  proof (rule ccontr)
    assume "\<not> permits (p_security P) (t_control t) (st_conn stream) TRUST_QUERY"
    then have "\<not> permits (p_security P) (t_control t) (st_conn stream) (required_right (ReqRoots with_der purpose))"
      by simp
    from handle_refused_sent [OF assms(1,2) this assms(5)]
    have "prefix (arriving (cn_channel (ep_connection ep))) (wire (p_msgpack P) [ReplyError ''access denied''])"
      using assms(3) prefix_order.trans by blast
    then show False using exchange_call_refused [OF _ assms(5)] c(2) by blast
  qed
  have "prefix (arriving (cn_channel (ep_connection ep)))
      (wire (p_msgpack P) (snapshot_replies (t_generation t) (trustd_roots t with_der purpose)))"
    using handle_roots_sent [OF assms(1,2) ok] assms(3,4) prefix_order.trans unfolding takable_one by blast
  from exchange_call_roots [OF c(2) this _ c(1)] assms(4) c(3) show ?thesis
    using ok owned_root_list [of "trustd_roots t with_der purpose"] by (simp add: takable_one)
qed

section \<open>A sample\<close>

definition wide_platform :: "(bytes, string, unit, unit, unit) platform" where
  "wide_platform = sample_platform\<lparr>p_msgpack := wide\<rparr>"

text \<open>A daemon that serves one root, and a client's connection that takes everything.\<close>

definition serving :: "(unit, unit) trustd" where
  "serving = sample_new
     \<lparr>t_composed := composed_default\<lparr>c_roots := [root_entry 1]\<rparr>\<rparr>"

definition the_root :: "bool \<Rightarrow> root" where
  "the_root with_der = wire_root with_der (root_entry 1)"

abbreviation one_root :: root where
  "one_root \<equiv> the_root True"

lemma serving_roots: "trustd_roots serving with_der None = [the_root with_der]"
  by (simp add: serving_def trustd_roots_def the_root_def)

lemma serving_generation: "t_generation serving = 0"
  by (simp add: serving_def sample_new_def trustd_new_def)

lemma one_fingerprint: "fingerprint_of sample_lib [1] = ''01'' @ replicate 62 (CHR ''0'')"
  by code_simp

lemma the_root_ok: "root_ok (the_root with_der)" "root_texts (the_root with_der)"
  by (simp_all add: the_root_def wire_root_def root_entry_def one_fingerprint root_ok_def root_tokens_def
      write_str_list_def write_opt_str_def root_texts_def utf8_opt_def SERVER_AUTH_def utf8_ascii list_all_iff)

lemma the_reply:
  "\<exists>payload. encode_reply wide (ReplyRoots 0 [the_root with_der] False) = Some payload \<and> length payload < 1000 \<and>
    readable wide (ReplyRoots 0 [the_root with_der] False)"
proof -
  have ok: "reply_ok (ReplyRoots 0 [the_root with_der] False)" using the_root_ok by simp
  obtain payload where p: "encode_reply wide (ReplyRoots 0 [the_root with_der] False) = Some payload"
    using reply_codec [OF wide_laws ok] by blast
  have len: "length payload < 1000"
    using wide_encode [OF p]
    by (simp add: root_tokens_def the_root_def wire_root_def root_entry_def one_fingerprint write_str_list_def
        write_opt_str_def SERVER_AUTH_def)
  have "readable wide (ReplyRoots 0 [the_root with_der] False)"
    using p len by (intro readable_reply [OF wide_laws ok]) (simp add: MAX_MESSAGE_BYTES_def)
  then show ?thesis using p len by blast
qed

lemma refusal_readable: "readable wide (ReplyError ''access denied'')"
proof (rule readable_reply [OF wide_laws])
  show "reply_ok (ReplyError ''access denied'')" by simp
  show "length payload \<le> MAX_MESSAGE_BYTES" if "encode_reply wide (ReplyError ''access denied'') = Some payload" for payload
    using wide_encode [OF that] by (simp add: MAX_MESSAGE_BYTES_def)
qed

lemma the_snapshot: "snapshot_replies 0 [the_root with_der] = [ReplyRoots 0 [the_root with_der] False]"
  by (simp add: snapshot_replies_def ROOTS_PER_CHUNK_def chunks_step)

lemma serving_takable: "takable wide [(t_generation serving, trustd_roots serving with_der None)]"
  using the_reply [of with_der] the_root_ok [of with_der]
  by (auto simp: takable_one serving_roots serving_generation the_snapshot)

text \<open>The daemon answers, whole, and the client at the other end of the socket gets it.\<close>

definition open_stream :: "bytes \<Rightarrow> unit stream" where
  "open_stream payload =
     \<lparr>st_conn = (), st_peer = \<lparr>sent = [], future = [(0, Wrote (4 + length payload))]\<rparr>, st_clock = []\<rparr>"

definition answered_stream :: "bytes \<Rightarrow> unit stream" where
  "answered_stream payload = \<lparr>st_conn = (), st_peer = \<lparr>sent = frame_of payload, future = []\<rparr>, st_clock = []\<rparr>"

lemma serving_answers:
  assumes "encode_reply wide (ReplyRoots 0 [the_root with_der] False) = Some payload" and "length payload < 1000"
  shows "handle wide_platform rd (open_stream payload) (ReqRoots with_der None) (serving, out) =
    Some ((serving, out), Some (answered_stream payload))"
proof -
  have "send_roots wide WRITE_TIMEOUT 0 [the_root with_der] \<lparr>sent = [], future = [(0, Wrote (4 + length payload))]\<rparr> =
      Some (True, \<lparr>sent = frame_of payload, future = []\<rparr>)"
    using send_one [OF _ _ assms(1), of WRITE_TIMEOUT "[]" "[]"] assms(2) by (simp add: WRITE_TIMEOUT_def)
  then show ?thesis
    by (simp add: handle_def send_roots_to_def send_with_def wide_platform_def serving_roots serving_generation
        open_stream_def answered_stream_def)
qed

lemma serving_allows: "permits (p_security wide_platform) (t_control serving) (st_conn stream) TRUST_QUERY"
  by (simp add: wide_platform_def)

lemma wide_platform_msgpack [simp]: "p_msgpack wide_platform = wide"
  by (simp add: wide_platform_def)

lemma serving_snapshot:
  "snapshot_replies (t_generation serving) (trustd_roots serving with_der None) =
    [ReplyRoots 0 [the_root with_der] False]"
  by (simp add: serving_roots serving_generation the_snapshot)

lemma sample_ask: "\<exists>request. encode_request wide (ReqRoots with_der None) = Some request \<and> length request \<le> MAX_MESSAGE_BYTES"
  using request_codec [OF wide_laws, of "ReqRoots with_der None"] wide_request [of "ReqRoots with_der None"]
  by (auto simp: MAX_MESSAGE_BYTES_def write_opt_str_def)

lemma sample_link_answer:
  assumes "encode_reply wide (ReplyRoots 0 [one_root] False) = Some payload" and "length payload < 1000"
  shows "prompt 10 (length (wire wide [ReplyRoots 0 [one_root] False]) + length [ReplyRoots 0 [one_root] False])
      (ep_connection (sample_link (frame_of payload)))"
    and "length (wire wide [ReplyRoots 0 [one_root] False]) \<le>
      MAX_SNAPSHOT_BYTES + 4 * length [ReplyRoots 0 [one_root] False]"
    and "length (wire wide [ReplyRoots 0 [one_root] False]) \<le> length (sent (st_peer (answered_stream payload)))"
    and "arriving (cn_channel (ep_connection (sample_link (frame_of payload)))) = sent (st_peer (answered_stream payload))"
proof -
  have w: "wire wide [ReplyRoots 0 [one_root] False] = frame_of payload" by (simp add: wire_def assms(1))
  have f: "length (frame_of payload) = 4 + length payload" by (simp add: frame_of_def)
  show "prompt 10 (length (wire wide [ReplyRoots 0 [one_root] False]) + length [ReplyRoots 0 [one_root] False])
      (ep_connection (sample_link (frame_of payload)))"
    unfolding w by (rule sample_link_prompt) simp_all
  show "length (wire wide [ReplyRoots 0 [one_root] False]) \<le>
      MAX_SNAPSHOT_BYTES + 4 * length [ReplyRoots 0 [one_root] False]"
    using assms(2) f unfolding w by (simp add: MAX_SNAPSHOT_BYTES_def)
  show "length (wire wide [ReplyRoots 0 [one_root] False]) \<le> length (sent (st_peer (answered_stream payload)))"
    unfolding w by (simp add: answered_stream_def)
  show "arriving (cn_channel (ep_connection (sample_link (frame_of payload)))) = sent (st_peer (answered_stream payload))"
    by (simp add: answered_stream_def)
qed

lemma sample_delivery:
  assumes "encode_reply wide (ReplyRoots 0 [one_root] False) = Some payload" and "length payload < 1000"
  shows "\<exists>roots. client_roots wide (\<lambda>_. []) (sample_link (frame_of payload)) sample_handle True None = Some (Inr roots)"
proof -
  obtain request where e: "encode_request wide (ReqRoots True None) = Some request" "length request \<le> MAX_MESSAGE_BYTES"
    using sample_ask by blast
  have s: "sent (st_peer (open_stream payload)) = []" by (simp add: open_stream_def)
  note k = sample_link_answer [OF assms]
  from roots_delivered [where P = wide_platform, unfolded wide_platform_msgpack, OF serving_answers [OF assms] s serving_allows
      serving_snapshot [symmetric] k(3,4) serving_takable k(2) sample_link_deadline sample_path k(1) e]
  show ?thesis by blast
qed

section \<open>Properties\<close>

text \<open>
  C4. The client never sees anything but the daemon's roots: when \<open>roots\<close> returns a list, however
  much of the daemon's answer arrived, the daemon had allowed the query and the list is the roots it
  served, all of them and unchanged; a refusal, a cut answer or a failure is an error.
\<close>

theorem client_sees_daemon:
  assumes "handle P rd stream (ReqRoots with_der purpose) (t, out) = Some (d', Some stream')"
    and "sent (st_peer stream) = []"
    and "prefix (arriving (cn_channel (ep_connection ep))) (sent (st_peer stream'))"
    and "takable (p_msgpack P) [(t_generation t, trustd_roots t with_der purpose)]"
    and "readable (p_msgpack P) (ReplyError ''access denied'')"
    and "client_roots (p_msgpack P) describe_error ep c with_der purpose = Some (Inr roots)"
  shows "permits (p_security P) (t_control t) (st_conn stream) TRUST_QUERY \<and>
    roots = trustd_roots t with_der purpose"
  using assms by (rule roots_seen)

theorem client_sees_daemon_witness:
  "\<exists>payload roots. handle wide_platform (sample_readings 1) (open_stream payload) (ReqRoots True None)
      (serving, \<lparr>o_files = fresh_world, o_events = []\<rparr>) =
        Some ((serving, \<lparr>o_files = fresh_world, o_events = []\<rparr>), Some (answered_stream payload)) \<and>
    client_roots wide (\<lambda>_. []) (sample_link (frame_of payload)) sample_handle True None = Some (Inr roots) \<and>
    roots = [one_root]"
proof -
  obtain payload where p: "encode_reply wide (ReplyRoots 0 [one_root] False) = Some payload" "length payload < 1000"
    using the_reply by blast
  obtain roots where c: "client_roots wide (\<lambda>_. []) (sample_link (frame_of payload)) sample_handle True None = Some (Inr roots)"
    using sample_delivery [OF p] by blast
  have s: "sent (st_peer (open_stream payload)) = []" by (simp add: open_stream_def)
  have a: "prefix (arriving (cn_channel (ep_connection (sample_link (frame_of payload)))))
      (sent (st_peer (answered_stream payload)))"
    by (simp add: answered_stream_def)
  from client_sees_daemon [where P = wide_platform, unfolded wide_platform_msgpack, OF serving_answers [OF p] s a
      serving_takable refusal_readable c]
  have "roots = [one_root]" by (simp add: serving_roots)
  then show ?thesis using serving_answers [OF p] c by blast
qed

text \<open>
  C17. And it does see them. When the daemon allows the query and sends its whole answer; when every
  chunk of the answer fits a message and decodes back, and the whole of it fits the client's bound on a
  snapshot (16 MiB, and four bytes of header for each chunk); when the request fits a message and the
  connection takes it, and the answer has all arrived before the client's deadline, over a usable
  path: then \<open>roots\<close> returns, with the roots the daemon serves.
\<close>

theorem client_gets_roots:
  assumes "handle P rd stream (ReqRoots with_der purpose) (t, out) = Some (d', Some stream')"
    and "sent (st_peer stream) = []"
    and "permits (p_security P) (t_control t) (st_conn stream) TRUST_QUERY"
    and "replies = snapshot_replies (t_generation t) (trustd_roots t with_der purpose)"
    and "length (wire (p_msgpack P) replies) \<le> length (sent (st_peer stream'))"
    and "arriving (cn_channel (ep_connection ep)) = sent (st_peer stream')"
    and "takable (p_msgpack P) [(t_generation t, trustd_roots t with_der purpose)]"
    and "length (wire (p_msgpack P) replies) \<le> MAX_SNAPSHOT_BYTES + 4 * length replies"
    and "deadline (ep_latest ep) (ep_now ep) (cl_timeout c) = Inr end_time" and "usable_path (cl_path c)"
    and "prompt end_time (length (wire (p_msgpack P) replies) + length replies) (ep_connection ep)"
    and "encode_request (p_msgpack P) (ReqRoots with_der purpose) = Some payload"
    and "length payload \<le> MAX_MESSAGE_BYTES" and "\<forall>p. purpose = Some p \<longrightarrow> fits_text p"
  shows "client_roots (p_msgpack P) describe_error ep c with_der purpose =
    Some (Inr (trustd_roots t with_der purpose))"
  using assms by (rule roots_delivered)

theorem client_gets_roots_witness:
  "\<exists>payload. encode_reply wide (ReplyRoots 0 [one_root] False) = Some payload \<and>
    client_roots wide (\<lambda>_. []) (sample_link (frame_of payload)) sample_handle True None = Some (Inr [one_root])"
proof -
  obtain payload where p: "encode_reply wide (ReplyRoots 0 [one_root] False) = Some payload" "length payload < 1000"
    using the_reply by blast
  obtain request where e: "encode_request wide (ReqRoots True None) = Some request" "length request \<le> MAX_MESSAGE_BYTES"
    using sample_ask by blast
  have s: "sent (st_peer (open_stream payload)) = []" by (simp add: open_stream_def)
  note k = sample_link_answer [OF p]
  from client_gets_roots [where P = wide_platform, unfolded wide_platform_msgpack, OF serving_answers [OF p] s serving_allows
      serving_snapshot [symmetric] k(3,4) serving_takable k(2) sample_link_deadline sample_path k(1) e]
  have "client_roots wide (\<lambda>_. []) (sample_link (frame_of payload)) sample_handle True None =
      Some (Inr (trustd_roots serving True None))" by simp
  then show ?thesis using p(1) by (auto simp: serving_roots)
qed

end
