(* ===== verification/Enforced.thy ===== *)
theory Enforced
  imports ClientProps EndToEnd
begin

text \<open>
  The client's changes and the daemon together: what a change that the Rust client reports as done
  does to what the daemon serves after its next refresh, through the C interface, the client core,
  the registry and the composition.
\<close>

section \<open>A refresh that is not refused\<close>

lemma refresh_composes:
  assumes "\<not> cannot_refresh P rd" and "refresh P rd (t, out) = Some (t', out')"
  shows "\<exists>config shipped. load (rd_registry rd) = Inr config \<and> rd_bundle rd = Inr shipped \<and>
    compose (p_lib P) shipped (g_additions config) (g_distrust config) (rd_now rd) = Inr (t_composed t')"
proof -
  obtain config shipped where read: "load (rd_registry rd) = Inr config" "rd_bundle rd = Inr shipped"
    "\<forall>e. compose (p_lib P) shipped (g_additions config) (g_distrust config) (rd_now rd) \<noteq> Inl e"
    using assms(1) by (auto simp: cannot_refresh_def split: sum.splits)
  then obtain composed where parts: "load (rd_registry rd) = Inr config" "rd_bundle rd = Inr shipped"
    "compose (p_lib P) shipped (g_additions config) (g_distrust config) (rd_now rd) = Inr composed"
    by (cases "compose (p_lib P) shipped (g_additions config) (g_distrust config) (rd_now rd)") auto
  then obtain t1 changed where "adopt P rd changed composed (t1, out) = Some (t', out')"
    using assms(2) by (auto simp: refresh_def Let_def split: option.splits)
  then have "t_composed t' = composed"
    by (auto simp: adopt_def Let_def dest!: publish_frame render_store_frame split: if_splits prod.splits)
  then show ?thesis using parts by blast
qed

lemma served_fingerprints:
  assumes "r \<in> set (trustd_roots t with_der purpose)"
  shows "r_fingerprint r \<in> entry_fingerprint ` set (c_roots (t_composed t))"
  using assms by (auto simp: trustd_roots_def wire_root_def)

lemma all_served:
  assumes "fp \<in> entry_fingerprint ` set (c_roots (t_composed t))"
  shows "\<exists>r \<in> set (trustd_roots t with_der None). r_fingerprint r = fp"
  using assms by (auto simp: trustd_roots_def wire_root_def)

section \<open>A run\<close>

text \<open>What the sample daemon reads when the registry is in a state of \<open>list_registry\<close>.\<close>

definition list_readings :: "key_list \<Rightarrow> (string list, string) readings" where
  "list_readings s =
     \<lparr>rd_registry = list_view s, rd_meta = no_such, rd_bundle = Inr (repeated 1), rd_now = Some 5,
      rd_policy = (\<lambda>_. Inr True), rd_emit = (\<lambda>_ _. Inr ())\<rparr>"

lemma sample_refreshes:
  assumes "load (list_view s) = Inr config" and "fingerprint_of sample_lib [1] \<notin> set (g_distrust config)"
  shows "\<not> cannot_refresh sample_platform (list_readings s)"
proof -
  have pem: "from_pem (repeated 1) = replicate 50 [1]" unfolding repeated_def by (rule from_pem_blocks)
  have "normalise_fingerprint ` set (g_distrust config) = set (g_distrust config)"
    using load_is_normal [OF assms(1)] by (simp cong: image_cong)
  then have "fingerprint_of sample_lib [1] \<in>
      entry_fingerprint ` set (effective sample_lib (repeated 1) (g_additions config) (g_distrust config) (Some 5))"
    unfolding effective_fingerprints offered_identities using assms(2) pem sample_parse [of "[1]"] by simp
  then have "effective sample_lib (repeated 1) (g_additions config) (g_distrust config) (Some 5) \<noteq> []" by auto
  then have "compose sample_lib (repeated 1) (g_additions config) (g_distrust config) (Some 5) \<noteq> Inl e" for e
    using compose_outcome [where L = sample_lib and pem = "repeated 1" and additions = "g_additions config"
      and distrust = "g_distrust config" and now = "Some 5"] pem
    by (auto simp: MINIMUM_SHIPPED_def)
  then show ?thesis using assms(1) by (simp add: cannot_refresh_def list_readings_def sample_platform_def)
qed

lemma sample_fingerprint: "\<exists>rest. fingerprint_of sample_lib [1] = CHR ''0'' # rest"
  by (simp add: fingerprint_of_def sample_lib_def hex_byte_def hex_digit_def)

lemma pasted_fits: "fits_text sample_pasted"
  using sample_names(4) by (simp add: fits_text_def sample_pasted_def MAX_TEXT_BYTES_def length_concat sum_list_replicate)
    (simp add: utf8_ascii list_all_iff)

lemma sample_client_distrust:
  assumes "fits_text fp" and "fits_text reason" and "spells fp" and n: "normalise_fingerprint fp = concat (replicate 32 ''ab'')"
  shows "\<exists>s'. client_distrust list_registry wide (\<lambda>_. []) no_endpoint fp reason seeded = Some (Inr None, s') \<and>
    \<not> cannot_refresh sample_platform (list_readings s')"
proof -
  let ?v = "\<lparr>v_type = REG_SZ, v_data = as_bytes reason @ [0]\<rparr>"
  obtain s' where s': "distrust list_registry wide (\<lambda>_. []) no_endpoint fp reason seeded = Some (Inr None, s')"
    "map_of s' trust_path = Some []" "map_of s' certificates_path = Some []" "map_of s' add_path = None"
    "map_of s' distrust_path = Some [(normalise_fingerprint fp, ?v)]"
    using seeded_distrust [OF assms(3)] by blast
  have "distrust_entry (as_bytes (concat (replicate 32 ''ab''))) = Inr (Some (concat (replicate 32 ''ab'')))"
    using sample_spells distrust_entry_fingerprint [OF sample_distrust_entries(1)]
    by (simp add: distrust_entry_def text_of_def Let_def utf8_ascii list_all_iff)
  then have l: "load (list_view s') = Inr (config_default\<lparr>g_distrust := [concat (replicate 32 ''ab'')]\<rparr>)"
    using s'(2-5) n by (simp add: load_list load_distrust_list load_additions_list config_default_def)
  have "fingerprint_of sample_lib [1] \<noteq> concat (replicate 32 ''ab'')"
    using sample_fingerprint by (auto simp: numeral_eq_Suc)
  then have r: "\<not> cannot_refresh sample_platform (list_readings s')"
    using sample_refreshes [OF l] by simp
  have "client_distrust list_registry wide (\<lambda>_. []) no_endpoint fp reason seeded = Some (Inr None, s')"
    using client_distrust_core [OF assms(1,2) s'(1)] by (simp add: told_well_def utf8_opt_def)
  then show ?thesis using r by blast
qed

section \<open>What changes do\<close>

lemma distrust_enforced:
  assumes "truthful_view W content path" and "truthful_writes W content path"
    and "distrust W M describe_error ep fp reason s = Some (Inr was, s')"
    and "rd_registry rd = reg_view W s'" and "\<not> cannot_refresh P rd"
    and "refresh P rd (t, out) = Some (t', out')"
  shows "\<forall>r \<in> set (trustd_roots t' with_der purpose). r_fingerprint r \<noteq> normalise_fingerprint fp"
proof -
  obtain config shipped where parts: "load (rd_registry rd) = Inr config"
    "compose (p_lib P) shipped (g_additions config) (g_distrust config) (rd_now rd) = Inr (t_composed t')"
    using refresh_composes [OF assms(5,6)] by blast
  have "normalise_fingerprint fp \<in> set (g_distrust config)"
    using distrust_loaded [OF assms(1-3)] parts(1) assms(4) by simp
  then have "normalise_fingerprint (normalise_fingerprint fp) \<in> normalise_fingerprint ` set (g_distrust config)"
    by (rule imageI)
  then have "normalise_fingerprint fp \<notin> entry_fingerprint ` set (c_roots (t_composed t'))"
    unfolding compose_roots [OF parts(2)] effective_fingerprints by (simp add: normalise_idem)
  then show ?thesis using served_fingerprints by metis
qed

lemma add_enforced:
  assumes "truthful_view W content path" and "truthful_writes W content path" and "bs \<noteq> []"
    and "add W (p_lib P) debug now name bs purposes s = (Inr parsed, s')"
    and "rd_registry rd = reg_view W s'" and "load (reg_view W s') = Inr config"
    and "fingerprint parsed \<notin> set (g_distrust config)" and "parse (p_lib P) bs (rd_now rd) = Inr parsed'"
    and "\<not> cannot_refresh P rd" and "refresh P rd (t, out) = Some (t', out')"
  shows "\<exists>r \<in> set (trustd_roots t' with_der None). r_fingerprint r = fingerprint parsed"
proof -
  obtain shipped where parts:
    "compose (p_lib P) shipped (g_additions config) (g_distrust config) (rd_now rd) = Inr (t_composed t')"
    using refresh_composes [OF assms(9,10)] assms(5,6) by auto
  have a: "vet (p_lib P) now bs = Inr parsed" "\<exists>a \<in> set (g_additions config). add_name a = name \<and> add_der a = bs"
    using add_found [OF assms(1-4,6)] by simp_all
  have fp: "fingerprint parsed = fingerprint_of (p_lib P) bs"
    using a(1) by (auto simp: vet_def parse_fields)
  have "normalise_fingerprint ` set (g_distrust config) = set (g_distrust config)"
    using load_is_normal [OF assms(6)] by (simp cong: image_cong)
  then have "fingerprint parsed \<in> entry_fingerprint ` set (c_roots (t_composed t'))"
    unfolding compose_roots [OF parts] effective_fingerprints offered_identities
    using a(2) assms(7,8) fp by auto
  then show ?thesis by (rule all_served)
qed

section \<open>Properties\<close>

text \<open>
  A distrust takes effect: once the client reports a distrust as done, a refresh that reads the registry it
  left, and composes, leaves no root of that fingerprint among those served, whatever was served
  before, shipped or added, and however the fingerprint was spelled.
\<close>

theorem distrust_takes_effect:
  assumes "truthful_view W content path" and "truthful_writes W content path"
    and "client_distrust W M describe_error ep fp reason s = Some (Inr was, s')"
    and "rd_registry rd = reg_view W s'" and "\<not> cannot_refresh P rd"
    and "refresh P rd (t, out) = Some (t', out')"
  shows "\<forall>r \<in> set (trustd_roots t' with_der purpose). r_fingerprint r \<noteq> normalise_fingerprint fp"
  using client_distrust_done [OF assms(3)] distrust_enforced [OF assms(1,2) _ assms(4-6)] by blast

theorem distrust_takes_effect_witness:
  "\<exists>s' t' out'. client_distrust list_registry wide (\<lambda>_. []) no_endpoint sample_pasted ''why'' seeded =
      Some (Inr None, s') \<and>
    refresh sample_platform (list_readings s') (sample_new,
      \<lparr>o_files = fresh_world, o_events = []\<rparr>) = Some (t', out') \<and>
    (\<forall>r \<in> set (trustd_roots t' False None). r_fingerprint r \<noteq> concat (replicate 32 ''ab''))"
proof -
  have "fits_text ''why''" by (simp add: fits_text_def MAX_TEXT_BYTES_def)
  from sample_client_distrust [OF pasted_fits this sample_spells] obtain s' where
    c: "client_distrust list_registry wide (\<lambda>_. []) no_endpoint sample_pasted ''why'' seeded = Some (Inr None, s')"
    and r: "\<not> cannot_refresh sample_platform (list_readings s')" by blast
  obtain t' out' where d: "refresh sample_platform (list_readings s')
      (sample_new, \<lparr>o_files = fresh_world, o_events = []\<rparr>) = Some (t', out')"
    using refresh_returns [of sample_new]
    by (force simp: sample_new_def trustd_new_def control_fails_def)
  have v: "rd_registry (list_readings s') = reg_view list_registry s'"
    by (simp add: list_readings_def list_registry_def)
  from distrust_takes_effect [OF list_truthful_view list_truthful_writes c v r d] show ?thesis
    using c d sample_spells(2) by auto
qed

text \<open>
  C9. An addition takes effect: once the client reports the addition of a certificate as done, a refresh
  that reads the registry it left serves the certificate, unless its fingerprint is distrusted or it
  no longer parses, as when it has expired by then. When the refresh cannot compose (the bundle cannot be
  read, or the shipped roots are below their floor), it goes on serving the old set and says so.
\<close>

theorem add_takes_effect:
  assumes "truthful_view W content path" and "truthful_writes W content path" and "bs \<noteq> []"
    and "client_add W (p_lib P) debug now name bs purposes s = (Inr parsed, s')"
    and "rd_registry rd = reg_view W s'" and "load (reg_view W s') = Inr config"
    and "fingerprint_of (p_lib P) bs \<notin> set (g_distrust config)" and "parse (p_lib P) bs (rd_now rd) = Inr parsed'"
    and "refresh P rd (t, out) = Some (t', out')"
  shows "if cannot_refresh P rd
    then t_health t' = Degraded \<and> trustd_roots t' with_der None = trustd_roots t with_der None
    else \<exists>r \<in> set (trustd_roots t' with_der None). r_fingerprint r = fingerprint_of (p_lib P) bs"
proof (cases "cannot_refresh P rd")
  case True
  then show ?thesis using refresh_stale [OF True assms(9)] by simp
next
  case False
  obtain p where p: "add W (p_lib P) debug now name bs purposes s = (Inr p, s')"
    using client_add_done [OF assms(4)] by blast
  then have "fingerprint p = fingerprint_of (p_lib P) bs"
    using add_found [OF assms(1-3) p assms(6)] by (auto simp: vet_def parse_fields)
  then show ?thesis using add_enforced [OF assms(1-3) p assms(5,6) _ assms(8) False assms(9)] assms(7) False by simp
qed

lemma two_fingerprint: "fingerprint_of sample_lib [2] = ''02'' @ replicate 62 (CHR ''0'')"
  by code_simp

lemma sample_client_add:
  "\<exists>p s'. client_add list_registry sample_lib id (Some 5) ''corp'' [2] [] seeded = (Inr p, s') \<and>
    parse sample_lib [2] (Some 5) = Inr p \<and>
    load (list_view s') = Inr \<lparr>g_additions = [\<lparr>add_name = ''corp'', add_der = [2], add_purposes = []\<rparr>],
      g_distrust = [], g_compat = CompatFiles, g_control_security = None\<rparr>"
proof -
  have u: "usable_name ''corp''" by (simp add: usable_name_def trim_solid solid_def white_space_def)
  obtain p where v: "vet sample_lib (Some 5) [2] = Inr p"
    using sample_parses(1) by (auto simp: vet_def)
  have "parse sample_lib [2] None = Inr p" using v by (auto simp: vet_def parse_Inr_iff)
  then have texts: "parsed_texts p"
    using sample_parse [of "[2]"] two_fingerprint by (auto simp: parsed_texts_def utf8_ascii list_all_iff)
  obtain s' where s': "add list_registry sample_lib id (Some 5) ''corp'' [2] [] seeded = (Inr p, s')"
    "load (list_view s') = Inr \<lparr>g_additions = [\<lparr>add_name = ''corp'', add_der = [2], add_purposes = []\<rparr>],
      g_distrust = [], g_compat = CompatFiles, g_control_security = None\<rparr>"
    using seeded_add [OF u _ v] by (auto simp: utf8_ascii)
  have "client_add list_registry sample_lib id (Some 5) ''corp'' [2] [] seeded = (Inr p, s')"
    using client_add_core [OF _ _ _ s'(1)] texts
    by (simp add: fits_text_def fits_strings_def MAX_TEXT_BYTES_def told_well_def)
  then show ?thesis using v s'(2) by (auto simp: vet_def)
qed

theorem add_takes_effect_witness:
  "\<exists>p s' t' out'. client_add list_registry sample_lib id (Some 5) ''corp'' [2] [] seeded = (Inr p, s') \<and>
    refresh sample_platform (list_readings s') (sample_new,
      \<lparr>o_files = fresh_world, o_events = []\<rparr>) = Some (t', out') \<and>
    (\<exists>r \<in> set (trustd_roots t' False None). r_fingerprint r = fingerprint_of sample_lib [2])"
proof -
  obtain p s' where s': "client_add list_registry sample_lib id (Some 5) ''corp'' [2] [] seeded = (Inr p, s')"
    "parse sample_lib [2] (Some 5) = Inr p"
    "load (list_view s') = Inr \<lparr>g_additions = [\<lparr>add_name = ''corp'', add_der = [2], add_purposes = []\<rparr>],
      g_distrust = [], g_compat = CompatFiles, g_control_security = None\<rparr>"
    using sample_client_add by blast
  have r: "\<not> cannot_refresh sample_platform (list_readings s')" using sample_refreshes [OF s'(3)] by simp
  obtain t' out' where d: "refresh sample_platform (list_readings s')
      (sample_new, \<lparr>o_files = fresh_world, o_events = []\<rparr>) = Some (t', out')"
    using refresh_returns [of sample_new]
    by (force simp: sample_new_def trustd_new_def control_fails_def)
  have reg: "rd_registry (list_readings s') = reg_view list_registry s'"
    by (simp add: list_readings_def list_registry_def)
  have l: "load (reg_view list_registry s') = Inr \<lparr>g_additions = [\<lparr>add_name = ''corp'', add_der = [2], add_purposes = []\<rparr>],
      g_distrust = [], g_compat = CompatFiles, g_control_security = None\<rparr>"
    using s'(3) by (simp add: list_registry_def)
  have c: "client_add list_registry (p_lib sample_platform) id (Some 5) ''corp'' [2] [] seeded = (Inr p, s')"
    using s'(1) by simp
  from add_takes_effect [OF list_truthful_view list_truthful_writes _ c reg l _ _ d, of p False] r show ?thesis
    using s'(1,2) d by (auto simp: list_readings_def)
qed

end
