(* ===== verification/Cli.thy ===== *)
theory Cli
  imports Enforced
begin

text \<open>
  The operator command (\<open>trust/src/main.rs\<close>): the command line, one definition per verb, and what
  each prints and exits with. The calls are those of \<open>TrustClient\<close>.

  A command returns \<open>None\<close> when the program panics, and otherwise what it leaves: its exit code, what
  it wrote and the state of the registry. A program is started in a \<open>host\<close>: the parameters of the
  layers below, the connection that its call to the daemon makes, the one that the lookup of a
  distrust makes, the debug form of a string, the files and the standard input. Writing to the
  terminal succeeds (\<open>SIGPIPE\<close> has its default action) and the arguments are UTF-8.
\<close>

record ('r, 'e, 'k, 's) host =
  h_msgpack :: "('r, 'e) msgpack"
  h_describe :: "'e wire_error \<Rightarrow> string"
  h_daemon :: endpoint
  h_lookup :: endpoint
  h_registry :: "('k, 's) registry_api"
  h_lib :: lib
  h_now :: "int option"
  h_debug :: "string \<Rightarrow> string"
  h_read_file :: "string \<Rightarrow> io_error + bytes"
  h_stdin :: "io_error + bytes"

record 's ran =
  ran_code :: nat
  ran_out :: string
  ran_err :: string
  ran_state :: 's

section \<open>Printing\<close>

definition line :: "string \<Rightarrow> string" where
  "line t = t @ [CHR 0x0A]"

text \<open>\<open>&t[..n]\<close>, a panic past the end and inside a character.\<close>

definition slice_to :: "nat \<Rightarrow> string \<Rightarrow> string option" where
  "slice_to n t =
     (if n \<le> length t \<and> (n < length t \<longrightarrow> \<not> continuation (t ! n)) then Some (take n t) else None)"

text \<open>\<open>{:<n}\<close>: the width is in characters.\<close>

definition pad_right :: "nat \<Rightarrow> string \<Rightarrow> string" where
  "pad_right n t = t @ replicate (n - length (filter (\<lambda>c. \<not> continuation c) t)) (CHR '' '')"

fun join_comma :: "string list \<Rightarrow> string" where
  "join_comma [] = []"
| "join_comma [t] = t"
| "join_comma (t # ts) = t @ '', '' @ join_comma ts"

definition int_str :: "int \<Rightarrow> string" where
  "int_str i = (if i < 0 then CHR ''-'' # dec_str (nat (- i)) else dec_str (nat i))"

definition succeeded :: "string \<Rightarrow> 's \<Rightarrow> 's ran" where
  "succeeded out s = \<lparr>ran_code = 0, ran_out = out, ran_err = [], ran_state = s\<rparr>"

definition complained :: "nat \<Rightarrow> string \<Rightarrow> 's \<Rightarrow> 's ran" where
  "complained code text s = \<lparr>ran_code = code, ran_out = [], ran_err = text, ran_state = s\<rparr>"

section \<open>Failures\<close>

definition failed_error :: "string \<Rightarrow> trust_error" where
  "failed_error message = \<lparr>te_code = 5, te_kind = KindOther, te_message = message\<rparr>"

definition cli_client :: "trust_error + client_handle" where
  "cli_client = client_system (10 * 1000000000)"

definition failed :: "trust_error \<Rightarrow> 's \<Rightarrow> 's ran" where
  "failed e s = complained (if te_code e = 2 then 2 else 1) (line (''trust: '' @ te_message e)) s"

definition read_input :: "('r, 'e, 'k, 's) host \<Rightarrow> string \<Rightarrow> trust_error + bytes" where
  "read_input H path =
     bindE (if path = ''-'' then map_err (\<lambda>e. failed_error (''stdin: '' @ io_text e)) (h_stdin H)
            else map_err (\<lambda>e. failed_error (path @ '': '' @ io_text e)) (h_read_file H path)) (\<lambda>bs.
     client_certificate bs path)"

section \<open>The verbs\<close>

definition cli_add :: "('r, 'e, 'k, 's) host \<Rightarrow> string \<Rightarrow> string \<Rightarrow> string list \<Rightarrow> 's \<Rightarrow> 's ran" where
  "cli_add H name path purposes s =
     (if \<not> (case client_usable_name name of Inl _ \<Rightarrow> False | Inr usable \<Rightarrow> usable)
      then complained 1 (line (''trust: '' @ h_debug H name @ '' is not a usable name'')) s
      else case read_input H path of
        Inl e \<Rightarrow> failed e s
      | Inr cert \<Rightarrow>
          (case client_vet (h_lib H) (h_now H) cert of
             Inl e \<Rightarrow> complained 1 (line (''trust: '' @ path @ '' is '' @ te_message e)) s
           | Inr _ \<Rightarrow>
               (case client_add (h_registry H) (h_lib H) (h_debug H) (h_now H) name cert purposes s of
                  (Inr parsed, s) \<Rightarrow>
                    succeeded (line (''added '' @ name) @ line (''  '' @ subject parsed) @
                      line (''  SHA-256 '' @ fingerprint parsed) @
                      (if purposes = [] then [] else line (''  for '' @ join_comma purposes))) s
                | (Inl e, s) \<Rightarrow> failed e s)))"

definition cli_remove :: "('r, 'e, 'k, 's) host \<Rightarrow> string \<Rightarrow> 's \<Rightarrow> 's ran" where
  "cli_remove H name s =
     (case client_remove (h_registry H) name s of
        (Inr _, s) \<Rightarrow> succeeded (line (''removed '' @ name)) s
      | (Inl e, s) \<Rightarrow> failed e s)"

definition cli_distrust :: "('r, 'e, 'k, 's) host \<Rightarrow> string \<Rightarrow> string \<Rightarrow> 's \<Rightarrow> 's ran option" where
  "cli_distrust H argument reason s =
     Option.bind (client_resolve (h_msgpack H) (h_describe H) (h_daemon H) (h_lib H) (h_read_file H) argument) (\<lambda>r.
       case r of
         Inl e \<Rightarrow> Some (failed (if te_code e = 2 then failed_error (te_message e) else e) s)
       | Inr fp \<Rightarrow>
           map_option (\<lambda>(r, s).
               case r of
                 Inr was \<Rightarrow>
                   succeeded (line (''distrusted '' @ fp) @
                     (case was of
                        Some subj \<Rightarrow> line (''  was: '' @ subj)
                      | None \<Rightarrow>
                          line (''  no certificate in the store matched; the entry stays in force in case one arrives''))) s
               | Inl e \<Rightarrow> failed e s)
             (client_distrust (h_registry H) (h_msgpack H) (h_describe H) (h_lookup H) fp reason s))"

definition cli_restore :: "('r, 'e, 'k, 's) host \<Rightarrow> string \<Rightarrow> 's \<Rightarrow> 's ran" where
  "cli_restore H argument s =
     (case client_restore (h_registry H) argument s of
        (Inr fp, s) \<Rightarrow> succeeded (line (''restored '' @ fp)) s
      | (Inl e, s) \<Rightarrow> failed e s)"

definition distrusted_line :: "distrusted \<Rightarrow> string option" where
  "distrusted_line entry =
     map_option (\<lambda>short.
         line (short @ ''  '' @ (if x_reason entry = [] then x_fingerprint entry else x_reason entry)))
       (slice_to (min 16 (length (x_fingerprint entry))) (x_fingerprint entry))"

definition cli_list_distrusted :: "('r, 'e, 'k, 's) host \<Rightarrow> 's \<Rightarrow> 's ran option" where
  "cli_list_distrusted H s =
     (case client_distrusted (h_registry H) s of
        Inl e \<Rightarrow> Some (failed e s)
      | Inr entries \<Rightarrow>
          map_option (\<lambda>printed.
              succeeded (concat printed @ line [] @ line (dec_str (length entries) @ '' distrusted'')) s)
            (those (map distrusted_line entries)))"

text \<open>\<open>client().and_then(|client| client.roots(..))\<close> and its like.\<close>

definition ask_roots ::
  "('r, 'e, 'k, 's) host \<Rightarrow> bool \<Rightarrow> string option \<Rightarrow> (trust_error + root list) option" where
  "ask_roots H with_der purpose =
     (case cli_client of
        Inl e \<Rightarrow> Some (Inl e)
      | Inr c \<Rightarrow> client_roots (h_msgpack H) (h_describe H) (h_daemon H) c with_der purpose)"

definition ask_status :: "('r, 'e, 'k, 's) host \<Rightarrow> (trust_error + status) option" where
  "ask_status H =
     (case cli_client of
        Inl e \<Rightarrow> Some (Inl e)
      | Inr c \<Rightarrow> client_status (h_msgpack H) (h_describe H) (h_daemon H) c)"

definition ask_reload :: "('r, 'e, 'k, 's) host \<Rightarrow> (trust_error + unit) option" where
  "ask_reload H =
     (case cli_client of
        Inl e \<Rightarrow> Some (Inl e)
      | Inr c \<Rightarrow> client_reload (h_msgpack H) (h_describe H) (h_daemon H) c)"

definition list_line :: "root \<Rightarrow> string option" where
  "list_line root =
     (let origin =
        (case r_source root of
           Added \<Rightarrow> ''added:'' @ (case r_name root of None \<Rightarrow> [] | Some name \<Rightarrow> name)
         | Shipped \<Rightarrow> ''shipped'')
      in map_option (\<lambda>short. line (short @ ''  '' @ pad_right 9 origin @ ''  '' @ r_subject root))
           (slice_to 16 (r_fingerprint root)))"

definition cli_list :: "('r, 'e, 'k, 's) host \<Rightarrow> string option \<Rightarrow> 's \<Rightarrow> 's ran option" where
  "cli_list H purpose s =
     Option.bind (ask_roots H False purpose) (\<lambda>r.
       case r of
         Inl e \<Rightarrow> Some (failed e s)
       | Inr roots \<Rightarrow>
           map_option (\<lambda>printed.
               succeeded (concat printed @ line [] @ line (dec_str (length roots) @ '' root(s)'')) s)
             (those (map list_line roots)))"

definition match_line :: "root \<Rightarrow> string option" where
  "match_line root =
     map_option (\<lambda>short. line (''  '' @ short @ ''  '' @ r_subject root)) (slice_to 16 (r_fingerprint root))"

definition cli_show :: "('r, 'e, 'k, 's) host \<Rightarrow> string \<Rightarrow> bool \<Rightarrow> 's \<Rightarrow> 's ran option" where
  "cli_show H given pem_only s =
     (let wanted = normalise_fingerprint given
      in Option.bind (ask_roots H True None) (\<lambda>r.
       case r of
         Inl e \<Rightarrow> Some (failed e s)
       | Inr roots \<Rightarrow>
           (case filter (\<lambda>r. prefix wanted (r_fingerprint r)) roots of
              [] \<Rightarrow> Some (complained 2 (line (''trust: no root in the store matches '' @ given)) s)
            | [root] \<Rightarrow>
                if pem_only then Some (succeeded (to_pem (r_der root)) s)
                else Some (succeeded
                  (line (''subject      '' @ r_subject root) @
                   line (''fingerprint  '' @ r_fingerprint root) @
                   line (''source       '' @ source_as_str (r_source root)) @
                   (case r_name root of None \<Rightarrow> [] | Some name \<Rightarrow> line (''added as     '' @ name)) @
                   line (''purposes     '' @ join_comma (r_purposes root)) @
                   line (''expires      '' @ int_str (r_not_after root)) @
                   line [] @ to_pem (r_der root)) s)
            | many \<Rightarrow>
                map_option (\<lambda>printed.
                    complained 1 (line (''trust: '' @ given @ '' matches '' @ dec_str (length many) @
                      '' roots; be more specific'') @ concat printed) s)
                  (those (map match_line many)))))"

definition compat_note :: "u32 \<Rightarrow> string" where
  "compat_note mode =
     (if mode = 0 then '' (no files; the socket is the only store)''
      else if mode = 2 then '' (reserved)''
      else [])"

definition status_text :: "status \<Rightarrow> string" where
  "status_text st =
     line (''generation   '' @ dec_str (unat (s_generation st))) @
     line (''health       '' @ health_as_str (s_health st) @
       (case s_message st of None \<Rightarrow> [] | Some m \<Rightarrow> '' '' @ em_dash @ '' '' @ m)) @
     line (''roots        '' @ dec_str (unat (s_effective st)) @ '' in force'') @
     line (''  shipped    '' @ dec_str (unat (s_shipped st))) @
     line (''  added      '' @ dec_str (unat (s_added st))) @
     line (''  distrusted '' @ dec_str (unat (s_distrusted st))) @
     (if 0 < s_skipped st
      then line (''  skipped    '' @ dec_str (unat (s_skipped st)) @ '' (unusable; see the log)'') else []) @
     line (''compat       GenerateLinuxTrustFiles = '' @ dec_str (unat (s_compat_mode st)) @
       compat_note (s_compat_mode st)) @
     concat (map (\<lambda>path. line (''  rendered   '' @ path)) (s_rendered st))"

definition cli_status :: "('r, 'e, 'k, 's) host \<Rightarrow> 's \<Rightarrow> 's ran option" where
  "cli_status H s =
     map_option (\<lambda>r. case r of Inl e \<Rightarrow> failed e s | Inr st \<Rightarrow> succeeded (status_text st) s) (ask_status H)"

definition cli_reload :: "('r, 'e, 'k, 's) host \<Rightarrow> 's \<Rightarrow> 's ran option" where
  "cli_reload H s =
     map_option (\<lambda>r. case r of
         Inl e \<Rightarrow> complained 1 (line (''trust: '' @ te_message e)) s
       | Inr _ \<Rightarrow> succeeded [] s) (ask_reload H)"

definition usage :: "'s \<Rightarrow> 's ran" where
  "usage s = complained 64
     (line ''usage: trust list [--purpose P] | show <fingerprint> | status'' @
      line ''       trust add <name> <file|-> [--purposes A,B] | remove <name>'' @
      line ''       trust distrust <fingerprint|file> [--reason R] | restore <fingerprint>'' @
      line ''       trust reload'') s"

definition cli_help :: "'s \<Rightarrow> 's ran" where
  "cli_help s = complained 0
     (line ''usage: trust list [--purpose P] | show <fingerprint> [--pem] | status'' @
      line ''       trust add <name> <file|-> [--purposes A,B] | remove <name>'' @
      line ''       trust distrust <fingerprint|file> [--reason R] | restore <fingerprint>'' @
      line ''       trust reload'') s"

definition cli_version :: "'s \<Rightarrow> 's ran" where
  "cli_version s = succeeded (line ''trust 0.1.6'') s"

section \<open>The command line\<close>

definition take_option :: "string \<Rightarrow> string list \<Rightarrow> string option \<times> string list" where
  "take_option flag args =
     (case position (\<lambda>a. a = flag) args of
        None \<Rightarrow> (None, args)
      | Some at \<Rightarrow>
          if length args \<le> at + 1 then (None, args)
          else (Some (args ! (at + 1)), take at args @ drop (at + 2) args))"

record command_line =
  ln_purpose :: "string option"
  ln_purposes :: "string list"
  ln_pem :: bool
  ln_reason :: string
  ln_words :: "string list"

text \<open>\<open>--purposes A,B\<close>: the parts between commas, trimmed, without the empty ones.\<close>

definition purpose_list :: "string \<Rightarrow> string list" where
  "purpose_list v = filter (\<lambda>p. p \<noteq> []) (map trim (split_at (\<lambda>c. c = CHR '','') v))"

definition read_args :: "string list \<Rightarrow> command_line" where
  "read_args args =
     (let (purpose, args) = take_option ''--purpose'' args;
          (purposes, args) = take_option ''--purposes'' args;
          pem_only = (''--pem'' \<in> set args);
          args = filter (\<lambda>a. a \<noteq> ''--pem'') args;
          (long, args) = take_option ''--reason'' args;
          (reason, args) = (case long of Some _ \<Rightarrow> (long, args) | None \<Rightarrow> take_option ''-r'' args)
      in \<lparr>ln_purpose = purpose,
          ln_purposes = (case purposes of None \<Rightarrow> [] | Some v \<Rightarrow> purpose_list v),
          ln_pem = pem_only,
          ln_reason = (case reason of None \<Rightarrow> [] | Some v \<Rightarrow> v),
          ln_words = args\<rparr>)"

definition dispatch :: "('r, 'e, 'k, 's) host \<Rightarrow> command_line \<Rightarrow> 's \<Rightarrow> 's ran option" where
  "dispatch H ln s =
     (case ln_words ln of
        [verb] \<Rightarrow>
          if verb = ''--help'' \<or> verb = ''-h'' \<or> verb = ''help'' then Some (cli_help s)
          else if verb = ''--version'' \<or> verb = ''-V'' \<or> verb = ''version'' then Some (cli_version s)
          else if verb = ''list'' then cli_list H (ln_purpose ln) s
          else if verb = ''distrusted'' then cli_list_distrusted H s
          else if verb = ''status'' then cli_status H s
          else if verb = ''reload'' then cli_reload H s
          else Some (usage s)
      | [verb, a] \<Rightarrow>
          if verb = ''list'' \<and> a = ''--distrusted'' then cli_list_distrusted H s
          else if verb = ''show'' then cli_show H a (ln_pem ln) s
          else if verb = ''remove'' then Some (cli_remove H a s)
          else if verb = ''distrust'' then cli_distrust H a (ln_reason ln) s
          else if verb = ''restore'' then Some (cli_restore H a s)
          else Some (usage s)
      | [verb, a, b] \<Rightarrow>
          if verb = ''add'' then Some (cli_add H a b (ln_purposes ln) s)
          else Some (usage s)
      | _ \<Rightarrow> Some (usage s))"

definition cli_main :: "('r, 'e, 'k, 's) host \<Rightarrow> string list \<Rightarrow> 's \<Rightarrow> 's ran option" where
  "cli_main H args s = dispatch H (read_args args) s"

end
