(* ===== verification/CommandLine.thy ===== *)
theory CommandLine
  imports Cli
begin

text \<open>
  How the operator command reads its command line, and what its exit codes and the registry it
  leaves have to do with the verb it was given.
\<close>

section \<open>The command line\<close>

lemma take_option_Nil [simp]: "take_option flag [] = (None, [])"
  by (simp add: take_option_def)

lemma take_option_Cons:
  "take_option flag (a # args) =
     (if a = flag then (case args of [] \<Rightarrow> (None, [a]) | v # rest \<Rightarrow> (Some v, rest))
      else (fst (take_option flag args), a # snd (take_option flag args)))"
  by (auto simp: take_option_def split: list.split option.split)

text \<open>A command line as its writer means it: words, options with their values, and \<open>--pem\<close>.\<close>

datatype argument = Positional string | Valued string string | PemOnly

fun spelled :: "argument \<Rightarrow> string list" where
  "spelled (Positional w) = [w]"
| "spelled (Valued flag v) = [flag, v]"
| "spelled PemOnly = [''--pem'']"

definition flags :: "string set" where
  "flags = {''--purpose'', ''--purposes'', ''--reason'', ''-r''}"

definition plain :: "string \<Rightarrow> bool" where
  "plain w \<longleftrightarrow> w \<notin> flags \<and> w \<noteq> ''--pem''"

fun sensible :: "argument \<Rightarrow> bool" where
  "sensible (Positional w) = plain w"
| "sensible (Valued flag v) = (flag \<in> flags \<and> plain v)"
| "sensible PemOnly = True"

fun value_of :: "string \<Rightarrow> argument list \<Rightarrow> string option" where
  "value_of flag [] = None"
| "value_of flag (Valued f v # args) = (if f = flag then Some v else value_of flag args)"
| "value_of flag (_ # args) = value_of flag args"

fun words_of :: "argument list \<Rightarrow> string list" where
  "words_of [] = []"
| "words_of (Positional w # args) = w # words_of args"
| "words_of (_ # args) = words_of args"

fun without :: "string \<Rightarrow> argument list \<Rightarrow> argument list" where
  "without flag [] = []"
| "without flag (Valued f v # args) = (if f = flag then args else Valued f v # without flag args)"
| "without flag (a # args) = a # without flag args"

abbreviation spelling :: "argument list \<Rightarrow> string list" where
  "spelling args \<equiv> concat (map spelled args)"

lemma take_option_spelling:
  assumes "\<forall>a \<in> set args. sensible a" and "flag \<in> flags"
  shows "take_option flag (spelling args) = (value_of flag args, spelling (without flag args))"
  using assms(1)
proof (induction args)
  case (Cons a args)
  then show ?case using assms(2) by (cases a) (auto simp: take_option_Cons plain_def flags_def)
qed simp

lemma sensible_without: "\<forall>a \<in> set args. sensible a \<Longrightarrow> \<forall>a \<in> set (without flag args). sensible a"
  by (induction args rule: words_of.induct) auto

lemma value_of_without: "f \<noteq> flag \<Longrightarrow> value_of f (without flag args) = value_of f args"
  by (induction args rule: words_of.induct) auto

lemma words_without: "words_of (without flag args) = words_of args"
  by (induction args rule: words_of.induct) auto

lemma pem_spelling:
  assumes "\<forall>a \<in> set args. sensible a"
  shows "''--pem'' \<in> set (spelling args) \<longleftrightarrow> PemOnly \<in> set args"
    and "filter (\<lambda>a. a \<noteq> ''--pem'') (spelling args) = spelling (filter (\<lambda>a. a \<noteq> PemOnly) args)"
  using assms by (induction args rule: words_of.induct) (auto simp: plain_def flags_def)

lemma filter_pem:
  "words_of (filter (\<lambda>a. a \<noteq> PemOnly) args) = words_of args"
  "value_of flag (filter (\<lambda>a. a \<noteq> PemOnly) args) = value_of flag args"
  by (induction args rule: words_of.induct) auto

lemma pem_without: "PemOnly \<in> set (without flag args) \<longleftrightarrow> PemOnly \<in> set args"
  by (induction args rule: words_of.induct) auto


text \<open>The flags value_of, in order, and that none is value_of twice, nor both forms of the reason.\<close>

fun valued :: "argument list \<Rightarrow> string list" where
  "valued [] = []"
| "valued (Valued flag v # args) = flag # valued args"
| "valued (_ # args) = valued args"

definition once :: "argument list \<Rightarrow> bool" where
  "once args \<longleftrightarrow> distinct (valued args) \<and> \<not> {''--reason'', ''-r''} \<subseteq> set (valued args)"

lemma valued_without: "valued (without flag args) = remove1 flag (valued args)"
  by (induction args rule: valued.induct) auto

lemma valued_pem: "valued (filter (\<lambda>a. a \<noteq> PemOnly) args) = valued args"
  by (induction args rule: valued.induct) auto

lemma valued_flags: "\<forall>a \<in> set args. sensible a \<Longrightarrow> set (valued args) \<subseteq> flags"
  by (induction args rule: valued.induct) auto

lemma value_of_iff: "value_of flag args = None \<longleftrightarrow> flag \<notin> set (valued args)"
  by (induction args rule: valued.induct) auto

lemma words_left: "valued args = [] \<Longrightarrow> PemOnly \<notin> set args \<Longrightarrow> spelling args = words_of args"
  by (induction args rule: words_of.induct) auto

definition or_else :: "'a option \<Rightarrow> 'a option \<Rightarrow> 'a option" where
  "or_else x y = (case x of None \<Rightarrow> y | Some _ \<Rightarrow> x)"

lemma read_args_spelling:
  assumes ok: "\<forall>a \<in> set args. sensible a" and one: "once args"
  shows "read_args (spelling args) =
    \<lparr>ln_purpose = value_of ''--purpose'' args,
     ln_purposes = (case value_of ''--purposes'' args of None \<Rightarrow> [] | Some v \<Rightarrow> purpose_list v),
     ln_pem = (PemOnly \<in> set args),
     ln_reason = (case or_else (value_of ''--reason'' args) (value_of ''-r'' args) of None \<Rightarrow> [] | Some v \<Rightarrow> v),
     ln_words = words_of args\<rparr>"
proof -
  let ?a1 = "without ''--purpose'' args"
  let ?a2 = "without ''--purposes'' ?a1"
  let ?a3 = "filter (\<lambda>a. a \<noteq> PemOnly) ?a2"
  let ?a4 = "without ''--reason'' ?a3"
  let ?a5 = "if value_of ''--reason'' args = None then without ''-r'' ?a4 else ?a4"
  have s1: "\<forall>a \<in> set ?a1. sensible a" using ok by (rule sensible_without)
  then have s2: "\<forall>a \<in> set ?a2. sensible a" by (rule sensible_without)
  then have s3: "\<forall>a \<in> set ?a3. sensible a" by simp
  then have s4: "\<forall>a \<in> set ?a4. sensible a" by (rule sensible_without)
  have f: "''--purpose'' \<in> flags" "''--purposes'' \<in> flags" "''--reason'' \<in> flags" "''-r'' \<in> flags"
    by (simp_all add: flags_def)
  have v: "set (valued args) \<subseteq> flags" using ok by (rule valued_flags)
  have d: "distinct (valued args)" using one by (simp add: once_def)
  have "set (valued ?a5) = {}"
    using v one d by (auto simp: valued_without valued_pem once_def flags_def value_of_iff simp flip: set_empty)
  then have "valued ?a5 = []" by simp
  moreover have "PemOnly \<notin> set ?a5" by (auto simp: pem_without)
  ultimately have w: "spelling ?a5 = words_of args"
    using words_left [of ?a5] by (simp add: words_without filter_pem split: if_splits)
  show ?thesis
    using w unfolding read_args_def
    by (auto simp: take_option_spelling [OF ok f(1)] take_option_spelling [OF s1 f(2)] pem_spelling [OF s2]
        take_option_spelling [OF s3 f(3)] take_option_spelling [OF s4 f(4)] value_of_without filter_pem pem_without
        words_without or_else_def simp del: set_concat split: option.split)
qed

section \<open>Exit codes\<close>

lemma ran_fields [simp]:
  "ran_code (succeeded out s) = 0" "ran_out (succeeded out s) = out" "ran_state (succeeded out s) = s"
  "ran_code (complained code text s) = code" "ran_out (complained code text s) = []"
  "ran_err (complained code text s) = text" "ran_state (complained code text s) = s"
  "ran_err (succeeded out s) = []"
  by (simp_all add: succeeded_def complained_def)

lemma failed_fields [simp]:
  "ran_code (failed e s) = (if te_code e = 2 then 2 else 1)" "ran_out (failed e s) = []" "ran_state (failed e s) = s"
  by (simp_all add: failed_def)

lemma failed_code: "ran_code (failed e s) \<noteq> 0"
  by simp

definition changing :: "string set" where
  "changing = {''add'', ''remove'', ''distrust'', ''restore''}"

definition tame :: "'s \<Rightarrow> 's ran \<Rightarrow> bool" where
  "tame s r \<longleftrightarrow> ran_code r \<in> {0, 1, 2} \<and> ran_state r = s"

lemma tame_simps [simp]:
  "tame s (succeeded out s)" "tame s (failed e s)" "code \<le> 2 \<Longrightarrow> tame s (complained code text s)"
  "tame s (cli_help s)" "tame s (cli_version s)"
  by (auto simp: tame_def cli_help_def cli_version_def)

lemma usage_fields [simp]: "ran_code (usage s) = 64" "ran_out (usage s) = []" "ran_state (usage s) = s"
  by (simp_all add: usage_def)

text \<open>Whatever a command that does not panic leaves has a property.\<close>

definition leaves :: "('s ran \<Rightarrow> bool) \<Rightarrow> 's ran option \<Rightarrow> bool" where
  "leaves P x \<longleftrightarrow> (\<forall>r. x = Some r \<longrightarrow> P r)"

lemma leaves_if: "(c \<Longrightarrow> leaves P x) \<Longrightarrow> (\<not> c \<Longrightarrow> leaves P y) \<Longrightarrow> leaves P (if c then x else y)"
  by simp

lemma leaves_simps [simp]: "leaves P None" "leaves P (Some r) \<longleftrightarrow> P r"
  by (simp_all add: leaves_def)

lemma leaves_map: "(\<And>a. P (f a)) \<Longrightarrow> leaves P (map_option f x)"
  by (cases x) simp_all

lemma leaves_bind: "(\<And>a. leaves P (f a)) \<Longrightarrow> leaves P (Option.bind x f)"
  by (cases x) simp_all

lemma queries_tame:
  "leaves (tame s) (cli_list H purpose s)" "leaves (tame s) (cli_list_distrusted H s)"
  "leaves (tame s) (cli_show H given pem_only s)" "leaves (tame s) (cli_status H s)" "leaves (tame s) (cli_reload H s)"
  unfolding cli_list_def cli_list_distrusted_def cli_show_def cli_status_def cli_reload_def Let_def
  by (simp_all add: leaves_bind leaves_map split: sum.split list.split)

lemma changes_code:
  "ran_code (cli_add H name path purposes s) \<le> 2" "ran_code (cli_remove H name s) \<le> 2"
  "ran_code (cli_restore H name s) \<le> 2" "leaves (\<lambda>r. ran_code r \<le> 2) (cli_distrust H argument reason s)"
  unfolding cli_add_def cli_remove_def cli_restore_def cli_distrust_def
  by (simp_all add: leaves_bind leaves_map split: sum.split prod.split)

lemma leaves_mono: "leaves P x \<Longrightarrow> (\<And>r. P r \<Longrightarrow> Q r) \<Longrightarrow> leaves Q x"
  by (simp add: leaves_def)

lemma dispatch_outcome:
  "leaves (\<lambda>r. tame s r \<or> r = usage s \<or>
     (\<exists>verb rest. ln_words ln = verb # rest \<and> verb \<in> changing) \<and> ran_code r \<le> 2) (dispatch H ln s)"
proof -
  define P where "P = (\<lambda>r. tame s r \<or> r = usage s \<or>
     (\<exists>verb rest. ln_words ln = verb # rest \<and> verb \<in> changing) \<and> ran_code r \<le> 2)"
  have q: "leaves (tame s) x \<Longrightarrow> leaves P x" for x by (erule leaves_mono) (auto simp: P_def)
  have c: "leaves (\<lambda>r. ran_code r \<le> 2) x \<Longrightarrow> ln_words ln = verb # rest \<Longrightarrow> verb \<in> changing \<Longrightarrow> leaves P x"
    for x verb rest by (erule leaves_mono) (auto simp: P_def)
  have u: "leaves P (Some (usage s))" and h: "leaves P (Some (cli_help s))" "leaves P (Some (cli_version s))"
    by (simp_all add: P_def)
  note qs = queries_tame [THEN q]
  have ch: "''add'' \<in> changing" "''remove'' \<in> changing" "''distrust'' \<in> changing" "''restore'' \<in> changing"
    by (simp_all add: changing_def)
  have w: "leaves P (Some r)" if "ran_code r \<le> 2" "ln_words ln = verb # rest" "verb \<in> changing" for r verb rest
    using that by (auto simp: P_def)
  have "leaves P (dispatch H ln s)"
  proof (cases "ln_words ln")
    case Nil
    then show ?thesis using u by (simp add: dispatch_def)
  next
    case (Cons verb rest)
    show ?thesis
    proof (cases rest)
      case Nil
      show ?thesis unfolding dispatch_def Cons Nil list.case by (intro leaves_if u h qs)
    next
      case two: (Cons a rest)
      have words: "ln_words ln = verb # a # rest" using Cons two by simp
      show ?thesis
      proof (cases rest)
        case Nil
        show ?thesis unfolding dispatch_def words Nil list.case
          by (intro leaves_if u qs w [OF changes_code(2) words] w [OF changes_code(3) words]
              c [OF changes_code(4) words]) (simp_all add: changing_def)
      next
        case three: (Cons b rest)
        have words: "ln_words ln = verb # a # b # rest" using words three by simp
        show ?thesis
        proof (cases rest)
          case Nil
          show ?thesis unfolding dispatch_def words Nil list.case
            by (intro leaves_if u w [OF changes_code(1) words]) (simp_all add: changing_def)
        next
          case (Cons d rest)
          show ?thesis unfolding dispatch_def words Cons list.case by (rule u)
        qed
      qed
    qed
  qed
  then show ?thesis by (simp add: P_def)
qed

lemma cli_exit:
  assumes "cli_main H args s = Some r"
  shows "ran_code r \<in> {0, 1, 2, 64}" and "ran_code r = 64 \<Longrightarrow> r = usage s"
    and "ln_words (read_args args) = verb # rest \<Longrightarrow> verb \<notin> changing \<Longrightarrow> ran_state r = s"
  using dispatch_outcome [of s "read_args args" H] assms
  by (auto simp: leaves_def cli_main_def tame_def)

section \<open>Properties\<close>

text \<open>
  C21. A command line means what it says, in any order: when the words are no flags, each option is given at
  most once and has a value that is no flag, the program reads the words in their order, each option's
  value and \<open>--pem\<close>, wherever they stand between the words.
\<close>

theorem command_line_any_order:
  assumes "\<forall>a \<in> set args. sensible a" and "once args"
  shows "read_args (spelling args) =
    \<lparr>ln_purpose = value_of ''--purpose'' args,
     ln_purposes = (case value_of ''--purposes'' args of None \<Rightarrow> [] | Some v \<Rightarrow> purpose_list v),
     ln_pem = (PemOnly \<in> set args),
     ln_reason = (case or_else (value_of ''--reason'' args) (value_of ''-r'' args) of None \<Rightarrow> [] | Some v \<Rightarrow> v),
     ln_words = words_of args\<rparr>"
  using assms by (rule read_args_spelling)

theorem command_line_any_order_witness:
  "read_args [''--reason'', ''stolen key'', ''distrust'', ''--pem'', ''ab12''] =
    \<lparr>ln_purpose = None, ln_purposes = [], ln_pem = True, ln_reason = ''stolen key'', ln_words = [''distrust'', ''ab12'']\<rparr>"
proof -
  let ?args = "[Valued ''--reason'' ''stolen key'', Positional ''distrust'', PemOnly, Positional ''ab12'']"
  have "\<forall>a \<in> set ?args. sensible a" "once ?args" by (simp_all add: plain_def flags_def once_def)
  from command_line_any_order [OF this] show ?thesis by (simp add: or_else_def)
qed

end
