(* ===== verification/CliProps.thy ===== *)
theory CliProps
  imports CommandLine
begin

text \<open>
  What the operator command promises end to end: its verbs over the Rust client, the C interface, the
  socket, the registry and the daemon at the other end.
\<close>

section \<open>The client it makes\<close>


lemma cli_client_is: "cli_client = Inr \<lparr>cl_path = as_bytes SOCKET_PATH, cl_timeout = 10000\<rparr>"
proof -
  have "0 \<notin> set (as_bytes SOCKET_PATH)" by (simp add: SOCKET_PATH_def as_bytes_def)
  then show ?thesis
    by (simp add: cli_client_def client_system_def client_new_def timeout_of_def Let_def)
      (simp add: SOCKET_PATH_def as_bytes_def)
qed

section \<open>A distrust\<close>

text \<open>What the client reports as resolved was resolved.\<close>

lemma client_resolve_done:
  assumes "client_resolve M describe_error ep L read_file argument = Some (Inr fp)"
  shows "resolve M describe_error ep L read_file argument = Some (Inr fp)"
proof -
  obtain result where p: "peios_trust_resolve M describe_error ep L read_file (span_of (as_bytes argument)) = Some result"
    "owned_view ''missing fingerprint'' peios_trust_result_text take_text result = Inr fp"
    using assms by (auto simp: client_resolve_def)
  show ?thesis
  proof (cases "input_text (span_of (as_bytes argument))")
    case (Inl e)
    then show ?thesis
      using p owned_view_failed [of peios_trust_result_text "''missing fingerprint''" take_text "Plain e"]
      by (auto simp: peios_trust_resolve_def)
  next
    case (Inr x)
    then have "x = argument" by (rule input_text_exact)
    then obtain r where r: "resolve M describe_error ep L read_file argument = Some r"
      "result = finish (bindE (map_err management_error r) (\<lambda>fp. Inr (carrying (PayloadText (arena_text fp)))))"
      using p(1) Inr by (auto simp: peios_trust_resolve_def)
    then obtain found where f: "r = Inr found" using owned_view_Inr [OF p(2) [unfolded r(2)]] by (cases r) auto
    then have "take_text (arena_text found) = Inr fp"
      using p(2) unfolding r(2) by (simp add: owned_view_ok peios_trust_result_text_def)
    then have "found = fp" by (auto simp: take_text_def arena_text_def arena_bytes_def split: if_splits)
    then show ?thesis using r(1) f by simp
  qed
qed

text \<open>What the argument of a distrust stands for.\<close>

definition stands_for :: "('r, 'e, 'k, 's) host \<Rightarrow> string \<Rightarrow> string \<Rightarrow> bool" where
  "stands_for H argument fp \<longleftrightarrow>
     (let digits = normalise_fingerprint argument
      in if hex digits \<and> 8 \<le> length digits
         then prefix digits fp \<and> length digits \<le> 64 \<and> (length digits = 64 \<longrightarrow> fp = digits)
         else \<exists>bs cert. h_read_file H argument = Inr bs \<and> certificate_of bs argument = Inr cert \<and>
           fp = fingerprint_of (h_lib H) cert)"

lemma resolve_stands_for:
  assumes "resolve M describe_error ep (h_lib H) (h_read_file H) argument = Some (Inr fp)"
  shows "stands_for H argument fp"
proof -
  let ?d = "normalise_fingerprint argument"
  consider "hex ?d \<and> length ?d = 64" | "hex ?d \<and> 8 \<le> length ?d \<and> length ?d \<noteq> 64" | "\<not> (hex ?d \<and> 8 \<le> length ?d)"
    by fastforce
  then show ?thesis
  proof cases
    case 1
    then show ?thesis using assms by (simp add: resolve_def stands_for_def)
  next
    case 2
    then obtain roots where "fingerprint_in argument roots = Inr fp"
      using assms by (auto simp: resolve_def conv)
    then have "filter (prefix ?d) (map r_fingerprint roots) = [fp] \<and> length ?d \<le> 64"
      using 2 by (auto simp: fingerprint_in_def fingerprint_among_def Let_def simp del: filter_map
          split: if_splits list.splits)
    then have "fp \<in> set (filter (prefix ?d) (map r_fingerprint roots)) \<and> length ?d \<le> 64" by simp
    then have "prefix ?d fp \<and> length ?d \<le> 64" unfolding set_filter by blast
    then show ?thesis using 2 by (auto simp: stands_for_def)
  next
    case 3
    then have n: "\<not> (hex ?d \<and> length ?d = 64)" by auto
    obtain bs cert parsed where f: "h_read_file H argument = Inr bs" "certificate_of bs argument = Inr cert"
      "parse (h_lib H) cert None = Inr parsed" "fingerprint parsed = fp"
      using assms unfolding resolve_def Let_def if_not_P [OF n] if_not_P [OF 3] by (auto simp: conv)
    then have "fp = fingerprint_of (h_lib H) cert" using parse_fields by metis
    then show ?thesis using f(1,2) unfolding stands_for_def Let_def if_not_P [OF 3] by blast
  qed
qed

lemma cli_distrust_done:
  assumes "cli_distrust H argument reason s = Some r" and "ran_code r = 0"
  shows "\<exists>fp was rest. ran_out r = line (''distrusted '' @ fp) @ rest \<and> stands_for H argument fp \<and>
    client_distrust (h_registry H) (h_msgpack H) (h_describe H) (h_lookup H) fp reason s = Some (Inr was, ran_state r)"
proof -
  obtain x where x: "client_resolve (h_msgpack H) (h_describe H) (h_daemon H) (h_lib H) (h_read_file H) argument = Some x"
    using assms(1) by (auto simp: cli_distrust_def bind_eq_Some_conv)
  then obtain fp where fp: "x = Inr fp" using assms by (cases x) (auto simp: cli_distrust_def failed_def split: if_splits)
  obtain y s' where y: "client_distrust (h_registry H) (h_msgpack H) (h_describe H) (h_lookup H) fp reason s = Some (y, s')"
    "r = (case y of Inr was \<Rightarrow> succeeded (line (''distrusted '' @ fp) @
        (case was of Some subj \<Rightarrow> line (''  was: '' @ subj)
         | None \<Rightarrow> line (''  no certificate in the store matched; the entry stays in force in case one arrives''))) s'
       | Inl e \<Rightarrow> failed e s')"
    using assms(1) x fp by (auto simp: cli_distrust_def)
  then obtain was where "y = Inr was" using assms(2) by (cases y) (auto simp: failed_def split: if_splits)
  then show ?thesis using y resolve_stands_for [OF client_resolve_done [OF x [unfolded fp]]] by auto
qed

section \<open>When the socket is missing\<close>

text \<open>What \<open>connect\<close> to a path that is not there comes to.\<close>

definition no_socket :: "('r, 'e, 'k, 's) host \<Rightarrow> string \<Rightarrow> bool" where
  "no_socket H text \<longleftrightarrow>
     ep_now (h_daemon H) + 10000 \<le> ep_latest (h_daemon H) \<and>
     cn_socket (ep_connection (h_daemon H)) = Inr () \<and>
     cn_connect (ep_connection (h_daemon H)) = Some (IoError NotFound (Some 2) text) \<and> utf8 text"

lemma system_path: "usable_path (as_bytes SOCKET_PATH)"
  by (simp add: usable_path_def SOCKET_PATH_def as_bytes_def)

lemma no_socket_exchange:
  assumes "no_socket H text"
  shows "exchange_call M describe_error (h_daemon H) (as_bytes SOCKET_PATH) 10000 request =
    Some (Inl (Plain (IoError NotFound (Some 2) text)))"
proof -
  have "connect (as_bytes SOCKET_PATH) end_time (ep_connection (h_daemon H)) = Inl (IoError NotFound (Some 2) text)"
    for end_time
    using assms system_path by (simp add: no_socket_def connect_def)
  then show ?thesis using assms by (simp add: exchange_call_def no_socket_def deadline_def)
qed

definition absent_error :: "string \<Rightarrow> trust_error" where
  "absent_error text = \<lparr>te_code = 2, te_kind = KindNotFound, te_message = text\<rparr>"

lemma absent_reported:
  assumes "utf8 text"
  shows "owned_view missing view copy (finish (Inl (Plain (IoError NotFound (Some 2) text)))) = Inl (absent_error text)"
    and "owned_result (Some (finish (Inl (Plain (IoError NotFound (Some 2) text))))) = Inl (absent_error text)"
  using assms
  by (simp_all add: owned_view_error reportable_def reported_def absent_error_def errno_of_def failure_defs from_failure_def)

lemma input_path: "input_bytes (span_of (as_bytes SOCKET_PATH)) = Inr (as_bytes SOCKET_PATH)"
  by (rule input_bytes_fits) (simp add: SOCKET_PATH_def MAX_TEXT_BYTES_def)

lemma input_flag: "input_boolean (if b then 1 else 0) = Inr b"
  by (simp add: input_boolean_def)

lemma input_purpose: "\<forall>p. purpose = Some p \<longrightarrow> fits_text p \<Longrightarrow> input_maybe_text (maybe_span purpose) = Inr purpose"
proof -
  assume "\<forall>p. purpose = Some p \<longrightarrow> fits_text p"
  moreover have "maybe_span purpose = arena_maybe_text purpose"
    by (simp add: maybe_span_def arena_maybe_text_def absent_def span_of_text split: option.split)
  ultimately show ?thesis by (simp add: input_maybe_text_arena fits_text_def)
qed

lemma no_socket_asks:
  assumes "no_socket H text"
  shows "\<forall>p. purpose = Some p \<longrightarrow> fits_text p \<Longrightarrow> ask_roots H with_der purpose = Some (Inl (absent_error text))"
    and "ask_status H = Some (Inl (absent_error text))"
    and "ask_reload H = Some (Inl (absent_error text))"
proof -
  have t: "utf8 text" using assms by (simp add: no_socket_def)
  note e = no_socket_exchange [OF assms] absent_reported [OF t] input_path input_flag input_purpose
  show "ask_roots H with_der purpose = Some (Inl (absent_error text))" if "\<forall>p. purpose = Some p \<longrightarrow> fits_text p"
    by (simp add: ask_roots_def cli_client_is client_roots_def peios_trust_roots_def e(1,2,4,5) e(6) [OF that])
  show "ask_status H = Some (Inl (absent_error text))"
    by (simp add: ask_status_def cli_client_is client_status_def peios_trust_get_status_def e(1,2,4))
  show "ask_reload H = Some (Inl (absent_error text))"
    by (simp add: ask_reload_def cli_client_is client_reload_def peios_trust_reload_def e(1,3,4))
qed

section \<open>When the daemon answers\<close>

definition answered where
  "answered P rd stream t out with_der purpose ep \<longleftrightarrow>
     (\<exists>d' stream' end_time payload.
        handle P rd stream (ReqRoots with_der purpose) (t, out) = Some (d', Some stream') \<and> sent (st_peer stream) = [] \<and>
        permits (p_security P) (t_control t) (st_conn stream) TRUST_QUERY \<and>
        (let replies = snapshot_replies (t_generation t) (trustd_roots t with_der purpose);
             bs = wire (p_msgpack P) replies
         in length bs \<le> length (sent (st_peer stream')) \<and>
            length bs \<le> MAX_SNAPSHOT_BYTES + 4 * length replies \<and>
            prompt end_time (length bs + length replies) (ep_connection ep)) \<and>
        arriving (cn_channel (ep_connection ep)) = sent (st_peer stream') \<and>
        takable (p_msgpack P) [(t_generation t, trustd_roots t with_der purpose)] \<and>
        deadline (ep_latest ep) (ep_now ep) 10000 = Inr end_time \<and>
        encode_request (p_msgpack P) (ReqRoots with_der purpose) = Some payload \<and>
        length payload \<le> MAX_MESSAGE_BYTES \<and> (\<forall>p. purpose = Some p \<longrightarrow> fits_text p))"

lemma answered_asks:
  assumes "answered P rd stream t out with_der purpose (h_daemon H)" and "h_msgpack H = p_msgpack P"
  shows "ask_roots H with_der purpose = Some (Inr (trustd_roots t with_der purpose))"
proof -
  obtain d' stream' end_time payload where a: "handle P rd stream (ReqRoots with_der purpose) (t, out) = Some (d', Some stream')"
    "sent (st_peer stream) = []" "permits (p_security P) (t_control t) (st_conn stream) TRUST_QUERY"
    "length (wire (p_msgpack P) (snapshot_replies (t_generation t) (trustd_roots t with_der purpose)))
      \<le> length (sent (st_peer stream'))"
    "length (wire (p_msgpack P) (snapshot_replies (t_generation t) (trustd_roots t with_der purpose))) \<le>
      MAX_SNAPSHOT_BYTES + 4 * length (snapshot_replies (t_generation t) (trustd_roots t with_der purpose))"
    "prompt end_time (length (wire (p_msgpack P) (snapshot_replies (t_generation t) (trustd_roots t with_der purpose))) +
      length (snapshot_replies (t_generation t) (trustd_roots t with_der purpose))) (ep_connection (h_daemon H))"
    "arriving (cn_channel (ep_connection (h_daemon H))) = sent (st_peer stream')"
    "takable (p_msgpack P) [(t_generation t, trustd_roots t with_der purpose)]"
    "deadline (ep_latest (h_daemon H)) (ep_now (h_daemon H)) 10000 = Inr end_time"
    "encode_request (p_msgpack P) (ReqRoots with_der purpose) = Some payload" "length payload \<le> MAX_MESSAGE_BYTES"
    "\<forall>p. purpose = Some p \<longrightarrow> fits_text p"
    using assms(1) unfolding answered_def Let_def by blast
  let ?c = "\<lparr>cl_path = as_bytes SOCKET_PATH, cl_timeout = 10000\<rparr>"
  have d: "deadline (ep_latest (h_daemon H)) (ep_now (h_daemon H)) (cl_timeout ?c) = Inr end_time" using a(9) by simp
  have u: "usable_path (cl_path ?c)" using system_path by simp
  from roots_delivered [OF a(1-3) refl a(4,7,8,5) d u a(6,10-12), where describe_error = "h_describe H"]
  show ?thesis using assms(2) by (simp add: ask_roots_def cli_client_is)
qed






text \<open>Roots whose fingerprints are digests, as those of a daemon are at every point of a run.\<close>

definition digests :: "lib \<Rightarrow> ('sd, 'conn) trustd \<Rightarrow> bool" where
  "digests L t \<longleftrightarrow> (\<forall>e \<in> set (c_roots (t_composed t)).
     entry_fingerprint e = fingerprint_of L (der (e_parsed e)) \<and> length (sha256 L (der (e_parsed e))) = 32)"


lemma run_digests:
  assumes "run (daemon_step P) (daemon_start P signal listening watching policy R rd files) inputs = Running m"
    and "\<And>bs. length (sha256 (p_lib P) bs) = 32"
  shows "digests (p_lib P) (d_trustd m)"
proof -
  have "composed_ok P (d_trustd m)" using run_well [OF assms(1)] by (simp add: well_def)
  from composed_vetted(3) [OF this] show ?thesis
    using assms(2) parse_fields(2) by (fastforce simp: digests_def)
qed

section \<open>A sample\<close>

text \<open>A machine whose daemon is reached over \<open>ep\<close>, and a connection on which all of \<open>bs\<close> arrives.\<close>

definition sample_host :: "endpoint \<Rightarrow> (bytes, string, string list, key_list) host" where
  "sample_host ep =
     \<lparr>h_msgpack = wide, h_describe = (\<lambda>_. []), h_daemon = ep, h_lookup = no_endpoint, h_registry = list_registry,
      h_lib = sample_lib, h_now = Some 5, h_debug = id, h_read_file = (\<lambda>_. Inl (IoError NotFound (Some 2) ''no such file'')),
      h_stdin = Inr []\<rparr>"

definition patient_link :: "bytes \<Rightarrow> endpoint" where
  "patient_link bs = (sample_link bs)\<lparr>ep_latest := 20000\<rparr>"

lemma patient_link_answers:
  assumes "encode_reply wide (ReplyRoots 0 [the_root with_der] False) = Some payload" and "length payload < 1000"
  shows "answered wide_platform rd (open_stream payload) serving out with_der None
    (h_daemon (sample_host (patient_link (frame_of payload))))"
proof -
  have w: "wire wide [ReplyRoots 0 [the_root with_der] False] = frame_of payload" by (simp add: wire_def assms(1))
  have f: "length (frame_of payload) = 4 + length payload" by (simp add: frame_of_def)
  have n: "frame_of payload \<noteq> []" using f by auto
  have p: "prompt 10000 (length (frame_of payload) + 1) (ep_connection (patient_link (frame_of payload)))"
    using f n by (auto simp: prompt_def patient_link_def sample_link_def flowing_def in_time_def)
  have d: "deadline (ep_latest (patient_link bs)) (ep_now (patient_link bs)) 10000 = Inr 10000" for bs
    by (simp add: deadline_def patient_link_def sample_link_def)
  have a: "arriving (cn_channel (ep_connection (patient_link bs))) = bs" for bs
    by (simp add: patient_link_def)
  have s: "length (frame_of payload) \<le> MAX_SNAPSHOT_BYTES + 4 * length [ReplyRoots 0 [the_root with_der] False]"
    using assms(2) f by (simp add: MAX_SNAPSHOT_BYTES_def)
  show ?thesis
    unfolding answered_def wide_platform_msgpack
    using serving_answers [OF assms, of rd out] serving_allows serving_takable [of with_der] sample_ask [of with_der] p d a s
    by (auto simp: Let_def serving_roots serving_generation the_snapshot w sample_host_def
        open_stream_def answered_stream_def intro!: exI [of _ 10000])
qed


section \<open>Where a command can panic\<close>








section \<open>Properties\<close>

text \<open>
  C3. \<open>trust distrust\<close> does what it prints: when the command exits with 0, the fingerprint it printed stands for
  the argument (the digits typed, the only root in the store they start, or the digest of the
  certificate in the file), and a refresh that reads the registry it left leaves no root of that
  fingerprint among those served. When the refresh cannot compose (the bundle cannot be read, the shipped
  roots are below their floor, or nothing would be left), it goes on serving the old set and says so.
\<close>

theorem cli_distrust_enforced:
  assumes "truthful_view (h_registry H) content path" and "truthful_writes (h_registry H) content path"
    and "cli_main H args s = Some r" and "ran_code r = 0" and "ln_words (read_args args) = [''distrust'', argument]"
    and "rd_registry rd = reg_view (h_registry H) (ran_state r)" and "refresh P rd (t, out) = Some (t', out')"
  shows "\<exists>fp rest. ran_out r = line (''distrusted '' @ fp) @ rest \<and> stands_for H argument fp \<and>
    (if cannot_refresh P rd
     then t_health t' = Degraded \<and> trustd_roots t' with_der purpose = trustd_roots t with_der purpose
     else \<forall>root \<in> set (trustd_roots t' with_der purpose). r_fingerprint root \<noteq> normalise_fingerprint fp)"
proof -
  have "cli_distrust H argument (ln_reason (read_args args)) s = Some r"
    using assms(3,5) by (simp add: cli_main_def dispatch_def)
  from cli_distrust_done [OF this assms(4)] obtain fp was rest where
    d: "ran_out r = line (''distrusted '' @ fp) @ rest" "stands_for H argument fp"
    "client_distrust (h_registry H) (h_msgpack H) (h_describe H) (h_lookup H) fp
      (ln_reason (read_args args)) s = Some (Inr was, ran_state r)"
    by blast
  from client_distrust_done [OF d(3)] obtain was where "distrust (h_registry H) (h_msgpack H) (h_describe H)
      (h_lookup H) fp (ln_reason (read_args args)) s = Some (Inr was, ran_state r)"
    by blast
  from distrust_enforced [OF assms(1,2) this assms(6) _ assms(7)] refresh_stale [OF _ assms(7)]
  show ?thesis using d(1,2) by auto
qed

lemma pasted_line: "ln_words (read_args [''distrust'', sample_pasted]) = [''distrust'', sample_pasted]"
  "ln_reason (read_args [''distrust'', sample_pasted]) = []"
proof -
  have "sample_pasted \<noteq> w" if "normalise_fingerprint w \<noteq> concat (replicate 32 ''ab'')" for w
    using that sample_spells(2) by auto
  then have "sample_pasted \<noteq> ''--purpose''" "sample_pasted \<noteq> ''--purposes''" "sample_pasted \<noteq> ''--reason''"
    "sample_pasted \<noteq> ''-r''" "sample_pasted \<noteq> ''--pem''"
    by (simp_all add: normalise_fingerprint_def ascii_defs numeral_eq_Suc)
  then show "ln_words (read_args [''distrust'', sample_pasted]) = [''distrust'', sample_pasted]"
    "ln_reason (read_args [''distrust'', sample_pasted]) = []"
    by (simp_all add: read_args_def take_option_Cons)
qed

theorem cli_distrust_enforced_witness:
  "\<exists>r t' out'. cli_main (sample_host no_endpoint) [''distrust'', sample_pasted] seeded = Some r \<and> ran_code r = 0 \<and>
    refresh sample_platform (list_readings (ran_state r)) (sample_new,
      \<lparr>o_files = fresh_world, o_events = []\<rparr>) = Some (t', out') \<and>
    (\<forall>root \<in> set (trustd_roots t' False None). r_fingerprint root \<noteq> concat (replicate 32 ''ab''))"
proof -
  let ?fp = "concat (replicate 32 ''ab'')"
  have fp: "spells ?fp" "fits_text ?fp" "normalise_fingerprint ?fp = ?fp"
    using sample_spells normalise_idem [of sample_pasted]
    by (simp_all add: spells_def fits_text_def MAX_TEXT_BYTES_def length_concat sum_list_replicate utf8_ascii list_all_iff)
  obtain s' where s': "client_distrust list_registry wide (\<lambda>_. []) no_endpoint ?fp [] seeded = Some (Inr None, s')"
    "\<not> cannot_refresh sample_platform (list_readings s')"
    using sample_client_distrust [OF fp(2) _ fp(1,3), of "[]"] by (auto simp: fits_text_def)
  let ?r = "succeeded (line (''distrusted '' @ concat (replicate 32 ''ab'')) @
    line (''  no certificate in the store matched; the entry stays in force in case one arrives'')) s'"
  let ?H = "sample_host no_endpoint"
  have "client_resolve (h_msgpack ?H) (h_describe ?H) (h_daemon ?H) (h_lib ?H) (h_read_file ?H) sample_pasted =
      Some (Inr ?fp)"
    using sample_spells fp
    by (simp add: Let_def hex_def client_resolve_def peios_trust_resolve_def input_text_fits [OF pasted_fits] resolve_def spells_def
        owned_view_ok peios_trust_result_text_def fits_text_def)
  then have m: "cli_main ?H [''distrust'', sample_pasted] seeded = Some ?r"
    using s'(1) by (simp add: cli_main_def dispatch_def pasted_line cli_distrust_def sample_host_def)
  have v: "rd_registry (list_readings s') = reg_view (h_registry (sample_host no_endpoint)) (ran_state ?r)"
    by (simp add: list_readings_def list_registry_def sample_host_def)
  have tv: "truthful_view (h_registry (sample_host no_endpoint)) list_content id"
    "truthful_writes (h_registry (sample_host no_endpoint)) list_content id"
    using list_truthful_view list_truthful_writes by (simp_all add: sample_host_def)
  obtain t' out' where d: "refresh sample_platform (list_readings s')
      (sample_new, \<lparr>o_files = fresh_world, o_events = []\<rparr>) = Some (t', out')"
    using refresh_returns [of sample_new]
    by (force simp: sample_new_def trustd_new_def control_fails_def)
  have named: "fp = ?fp" if "stands_for ?H sample_pasted fp" for fp
    using that fp(1,3) sample_spells(2) by (simp add: stands_for_def Let_def hex_def spells_def)
  have "ran_code ?r = 0" by simp
  from cli_distrust_enforced [OF tv m this pasted_line(1) _ d, of False None] v s'(2)
  have "\<forall>root \<in> set (trustd_roots t' False None). r_fingerprint root \<noteq> ?fp"
    using named fp(3) by metis
  then show ?thesis using m d \<open>ran_code ?r = 0\<close> by (metis ran_fields(3))
qed



text \<open>
  C10. \<open>trust show --pem\<close> prints the certificate and nothing else: however much of the daemon's answer
  arrives, when the command exits with 0 exactly one root in force has a fingerprint that starts with
  the digits given, and what was printed is a PEM document of exactly its certificate.
\<close>

theorem show_pem_exact:
  assumes "handle P rd stream (ReqRoots True None) (t, out) = Some (d', Some stream')"
    and "sent (st_peer stream) = []"
    and "prefix (arriving (cn_channel (ep_connection (h_daemon H)))) (sent (st_peer stream'))"
    and "takable (p_msgpack P) [(t_generation t, trustd_roots t True None)]"
    and "readable (p_msgpack P) (ReplyError ''access denied'')" and "h_msgpack H = p_msgpack P"
    and "cli_main H args s = Some r" and "ran_code r = 0"
    and "ln_words (read_args args) = [''show'', given]" and "ln_pem (read_args args)"
  shows "\<exists>e. filter (\<lambda>e. prefix (normalise_fingerprint given) (entry_fingerprint e)) (c_roots (t_composed t)) = [e] \<and>
    from_pem (ran_out r) = [der (e_parsed e)]"
proof -
  have c: "cli_show H given True s = Some r" using assms(7,9,10) by (simp add: cli_main_def dispatch_def)
  then obtain a where a: "ask_roots H True None = Some a" by (auto simp: cli_show_def Let_def bind_eq_Some_conv)
  then obtain roots where roots: "a = Inr roots" using c assms(8) by (cases a) (auto simp: cli_show_def split: if_splits)
  then have "client_roots (p_msgpack P) (h_describe H) (h_daemon H)
      \<lparr>cl_path = as_bytes SOCKET_PATH, cl_timeout = 10000\<rparr> True None = Some (Inr roots)"
    using a assms(6) by (simp add: ask_roots_def cli_client_is)
  from roots_seen [OF assms(1-5) this] have served: "roots = trustd_roots t True None" by simp
  let ?m = "filter (\<lambda>r. prefix (normalise_fingerprint given) (r_fingerprint r)) roots"
  obtain root where root: "?m = [root]" "ran_out r = to_pem (r_der root)"
    using c a roots assms(8) by (auto simp: cli_show_def Let_def split: list.splits)
  have "?m = map (wire_root True) (filter (\<lambda>e. prefix (normalise_fingerprint given) (entry_fingerprint e))
      (c_roots (t_composed t)))"
    unfolding served trustd_roots_def by (simp add: filter_map comp_def wire_root_def)
  then obtain e where "filter (\<lambda>e. prefix (normalise_fingerprint given) (entry_fingerprint e)) (c_roots (t_composed t)) = [e]"
    "root = wire_root True e"
    using root(1) by auto
  then show ?thesis using root(2) from_pem_blocks [of "[der (e_parsed e)]"] by (simp add: wire_root_def)
qed

theorem show_pem_exact_witness:
  "\<exists>payload r. cli_main (sample_host (patient_link (frame_of payload))) [''show'', ''01'', ''--pem''] seeded = Some r \<and>
    ran_code r = 0 \<and> from_pem (ran_out r) = [[1]]"
proof -
  obtain payload where p: "encode_reply wide (ReplyRoots 0 [one_root] False) = Some payload" "length payload < 1000"
    using the_reply by blast
  let ?H = "sample_host (patient_link (frame_of payload))"
  have w: "ln_words (read_args [''show'', ''01'', ''--pem'']) = [''show'', ''01'']" "ln_pem (read_args [''show'', ''01'', ''--pem''])"
    by (simp_all add: read_args_def take_option_Cons)
  have n: "normalise_fingerprint ''01'' = ''01''" by (simp add: normalise_fingerprint_def ascii_defs)
  have q: "ask_roots ?H True None = Some (Inr [one_root])"
    using answered_asks [OF patient_link_answers [OF p]] by (simp add: serving_roots sample_host_def)
  have m: "cli_main ?H [''show'', ''01'', ''--pem''] seeded = Some (succeeded (to_pem (r_der one_root)) seeded)"
    using w n q by (simp add: cli_main_def dispatch_def cli_show_def the_root_def wire_root_def root_entry_def one_fingerprint)
  have st: "sent (st_peer (open_stream payload)) = []" by (simp add: open_stream_def)
  have a: "prefix (arriving (cn_channel (ep_connection (h_daemon ?H)))) (sent (st_peer (answered_stream payload)))"
    by (simp add: answered_stream_def sample_host_def patient_link_def)
  have h: "h_msgpack ?H = p_msgpack wide_platform" by (simp add: sample_host_def)
  from show_pem_exact [where P = wide_platform, OF serving_answers [OF p, of "sample_readings 1"
        "\<lparr>o_files = fresh_world, o_events = []\<rparr>"] st a _ _ h m _ w] serving_takable refusal_readable
  obtain e where "filter (\<lambda>e. prefix (normalise_fingerprint ''01'') (entry_fingerprint e)) (c_roots (t_composed serving)) = [e]"
    "from_pem (to_pem (r_der one_root)) = [der (e_parsed e)]"
    by auto
  then have "from_pem (to_pem (r_der one_root)) = [[1]]"
    by (auto simp: serving_def root_entry_def split: if_splits)
  then show ?thesis using m by (intro exI [of _ payload] exI [of _ "succeeded (to_pem (r_der one_root)) seeded"]) simp
qed

text \<open>
  C22. A daemon that is not running looks like an absent certificate: when the socket does not exist \<open>list\<close>,
  \<open>status\<close> and \<open>show\<close> exit with 2, the code that is to mean "this machine does not trust it".
\<close>

theorem missing_socket:
  assumes "no_socket H text" and "\<forall>p. ln_purpose (read_args args) = Some p \<longrightarrow> fits_text p"
    and "ln_words (read_args args) \<in> {[''list''], [''status''], [''show'', given]}"
  shows "cli_main H args s = Some \<lparr>ran_code = 2, ran_out = [], ran_err = ''trust: '' @ text @ [CHR 0x0A], ran_state = s\<rparr>"
proof -
  have t: "Some (failed (absent_error text) s) = Some \<lparr>ran_code = 2, ran_out = [],
      ran_err = ''trust: '' @ text @ [CHR 0x0A], ran_state = s\<rparr>"
    by (simp add: failed_def absent_error_def complained_def line_def)
  have w: "ln_words (read_args args) = [''list''] \<or> ln_words (read_args args) = [''status''] \<or>
      ln_words (read_args args) = [''show'', given]"
    using assms(3) by simp
  have none: "\<forall>p. None = Some p \<longrightarrow> fits_text p" by simp
  show ?thesis unfolding t [symmetric] using w
    by (elim disjE) (simp_all add: cli_main_def dispatch_def cli_list_def cli_status_def cli_show_def
        no_socket_asks(1) [OF assms(1,2)] no_socket_asks(1) [OF assms(1) none] no_socket_asks(2) [OF assms(1)])
qed

definition missing_link :: endpoint where
  "missing_link = \<lparr>ep_latest = 20000, ep_now = 0,
     ep_connection = (ep_connection no_endpoint)\<lparr>cn_connect := Some (IoError NotFound (Some 2) ''No such file'')\<rparr>\<rparr>"

theorem missing_socket_witness:
  "\<exists>r. cli_main (sample_host missing_link) [''show'', ''ab12''] seeded = Some r \<and> ran_code r = 2"
proof -
  have m: "no_socket (sample_host missing_link) ''No such file''"
    by (simp add: no_socket_def sample_host_def missing_link_def no_endpoint_def utf8_ascii)
  have w: "ln_purpose (read_args [''show'', ''ab12'']) = None"
    "ln_words (read_args [''show'', ''ab12'']) \<in> {[''list''], [''status''], [''show'', ''ab12'']}"
    by (simp_all add: read_args_def take_option_Cons)
  from missing_socket [OF m _ w(2), of seeded] w(1) show ?thesis by simp
qed



end
