(* ===== verification/Robust.thy ===== *)
theory Robust
  imports CliProps
begin

text \<open>
  Whatever the peer sends: what a decoder accepts can be encoded again, so that no call of the client
  panics on the bytes that arrive; and the assertions of the repository's fuzz targets
  (\<open>fuzz/fuzz_targets\<close>), as functions of the input that hold for every one.
\<close>

section \<open>What a decoder accepts\<close>

text \<open>
  What else the code relies on of the reader: strings are UTF-8, and sizes and integers have the widths
  of the format.
\<close>

definition reads_valid :: "('r, 'e) msgpack \<Rightarrow> bool" where
  "reads_valid M \<longleftrightarrow>
     (\<forall>r s r'. read_str M r = Inr (s, r') \<longrightarrow> valid_tok (Str s)) \<and>
     (\<forall>r n r'. read_array M r = Inr (n, r') \<longrightarrow> valid_tok (ArrHdr n)) \<and>
     (\<forall>r b r'. read_bin M r = Inr (b, r') \<longrightarrow> valid_tok (Bin b)) \<and>
     (\<forall>r i r'. read_int M r = Inr (i, r') \<longrightarrow> valid_tok (SInt i))"

text \<open>Whatever a read returns has a property.\<close>

definition yields :: "('a \<Rightarrow> bool) \<Rightarrow> 'e + 'a \<times> 'r \<Rightarrow> bool" where
  "yields Q m \<longleftrightarrow> (\<forall>a r. m = Inr (a, r) \<longrightarrow> Q a)"

lemma yieldsD: "yields Q m \<Longrightarrow> m = Inr (a, r) \<Longrightarrow> Q a"
  by (simp add: yields_def)

lemma yields_if: "(c \<Longrightarrow> yields Q x) \<Longrightarrow> (\<not> c \<Longrightarrow> yields Q y) \<Longrightarrow> yields Q (if c then x else y)"
  by simp

lemma yields_assign: "yields (\<lambda>b. Q (upd b)) m \<Longrightarrow> yields Q (assign upd m)"
  by (auto simp: yields_def assign_def conv)

lemma yields_skip: "Q acc \<Longrightarrow> yields Q (do_skip M acc r)"
  by (auto simp: yields_def do_skip_def conv)

lemma yields_bool: "(\<And>b. Q b) \<Longrightarrow> yields Q (get_bool M r)" and yields_uint: "(\<And>n. Q' n) \<Longrightarrow> yields Q' (get_uint M r)"
  by (simp_all add: yields_def)

lemma yields_str:
  assumes "reads_valid M" and "\<And>s. valid_tok (Str s) \<Longrightarrow> Q s"
  shows "yields Q (get_str M r)"
  using assms unfolding yields_def get_str_def reads_valid_def map_err_Inr_iff by blast

lemma yields_bin:
  assumes "reads_valid M" and "\<And>b. valid_tok (Bin b) \<Longrightarrow> Q b"
  shows "yields Q (get_bin M r)"
  using assms unfolding yields_def get_bin_def reads_valid_def map_err_Inr_iff by blast

lemma yields_int:
  assumes "reads_valid M" and "\<And>i. valid_tok (SInt i) \<Longrightarrow> Q i"
  shows "yields Q (get_int M r)"
  using assms unfolding yields_def get_int_def reads_valid_def map_err_Inr_iff by blast

lemma array_size: "reads_valid M \<Longrightarrow> read_array M r = Inr (n, r') \<Longrightarrow> n < 2 ^ 32"
  unfolding reads_valid_def valid_tok.simps by blast

lemma read_times_all:
  assumes "read_times item n out r = Inr (xs, r')" and "\<And>r. yields Q (item r)" and "\<forall>a \<in> set out. Q a"
  shows "length xs = length out + n \<and> (\<forall>a \<in> set xs. Q a)"
  using assms(1,3)
proof (induction n arbitrary: out r)
  case (Suc n)
  then obtain a r1 where "item r = Inr (a, r1)" "read_times item n (out @ [a]) r1 = Inr (xs, r')"
    by (auto simp: conv)
  then show ?case using Suc.IH [of "out @ [a]" r1] Suc.prems(2) yieldsD [OF assms(2)] by auto
qed simp

lemma yields_str_list:
  assumes "reads_valid M" and "\<And>ps. length ps < 2 ^ 32 \<Longrightarrow> \<forall>p \<in> set ps. valid_tok (Str p) \<Longrightarrow> Q ps"
  shows "yields Q (read_str_list M r)"
  unfolding yields_def
proof (intro allI impI)
  fix ps r' assume "read_str_list M r = Inr (ps, r')"
  then obtain n r1 where n: "read_array M r = Inr (n, r1)" "read_times (get_str M) n [] r1 = Inr (ps, r')"
    by (auto simp: read_str_list_def conv split: if_splits)
  have y: "yields (\<lambda>p. valid_tok (Str p)) (get_str M r)" for r by (rule yields_str [OF assms(1)])
  have "length ps = n \<and> (\<forall>p \<in> set ps. valid_tok (Str p))"
    using read_times_all [OF n(2) y] by simp
  then show "Q ps" using assms(2) array_size [OF assms(1) n(1)] by simp
qed

lemma yields_opt_str:
  assumes "reads_valid M" and "\<And>v. \<forall>s. v = Some s \<longrightarrow> valid_tok (Str s) \<Longrightarrow> Q v"
  shows "yields Q (read_opt_str M r)"
  unfolding yields_def
proof (intro allI impI)
  fix v r' assume "read_opt_str M r = Inr (v, r')"
  then consider "v = None" | s r1 where "get_str M r = Inr (s, r1)" "v = Some s"
    by (auto simp: read_opt_str_def conv split: if_splits)
  then show "Q v"
    by cases (use assms(2) yieldsD [OF yields_str [OF assms(1), of "\<lambda>s. Q (Some s)"]] in auto)
qed

lemmas yields_getters = yields_str yields_bin yields_int yields_str_list yields_opt_str

text \<open>An invariant of the closure holds of what the walk over a map leaves.\<close>

lemma field_loop_invariant:
  assumes "field_loop M f n seen acc r = Inr (acc', r')" and "holds seen acc"
    and "\<And>key seen acc r. key \<notin> set seen \<Longrightarrow> holds seen acc \<Longrightarrow> yields (holds (seen @ [key])) (f key acc r)"
  shows "\<exists>seen'. holds seen' acc'"
  using assms(1,2)
proof (induction n arbitrary: seen acc r)
  case (Suc n)
  then obtain key r1 acc1 r2 where "key \<notin> set seen" "f key acc r1 = Inr (acc1, r2)"
    "field_loop M f n (seen @ [key]) acc1 r2 = Inr (acc', r')"
    by (auto simp: conv split: if_splits)
  then show ?case using Suc.IH yieldsD [OF assms(3)] Suc.prems(2) by metis
qed auto

lemma for_each_field_invariant:
  assumes "for_each_field M f acc r = Inr (acc', r')" and "holds [] acc"
    and "\<And>key seen acc r. key \<notin> set seen \<Longrightarrow> holds seen acc \<Longrightarrow> yields (holds (seen @ [key])) (f key acc r)"
  shows "\<exists>seen'. holds seen' acc'"
proof -
  obtain n r1 where "field_loop M f n [] acc r1 = Inr (acc', r')"
    using assms(1) by (auto simp: for_each_field_def conv)
  then show ?thesis using assms(2,3) by (rule field_loop_invariant)
qed

lemma decoded_request:
  assumes "reads_valid M" and "decode_request M bs = Inr request"
  shows "request_ok request"
proof -
  define holds where "holds = (\<lambda>(_ :: string list) acc. \<forall>s. snd (snd (acc :: request_acc)) = Some s \<longrightarrow> valid_tok (Str s))"
  obtain acc r' where a: "for_each_field M (request_field M) (None, False, None) (reader M bs) = Inr (acc, r')"
    "request_finish acc = (Inr request :: 'b wire_error + Request)"
    using assms(2) by (auto simp: decode_request_def conv)
  have "\<exists>seen. holds seen acc"
  proof (rule for_each_field_invariant [OF a(1), where holds = holds])
    fix key seen acc r assume h: "holds seen acc"
    obtain q w p where acc: "acc = (q, w, p)" by (cases acc)
    show "yields (holds (seen @ [key])) (request_field M key acc r)"
      unfolding acc request_field.simps
      by (intro yields_if yields_assign yields_skip yields_bool yields_getters [OF assms(1)])
        (use h in \<open>simp_all add: holds_def acc\<close>)
  qed (simp add: holds_def)
  then show ?thesis using a(2)
    by (cases acc; cases "snd (snd acc)") (auto simp: holds_def split: option.splits if_splits)
qed

lemma root_ok_fields:
  "root_ok root \<longleftrightarrow> length (r_purposes root) < 2 ^ 32 \<and> (\<forall>p \<in> set (r_purposes root). valid_tok (Str p)) \<and>
     valid_tok (Str (r_fingerprint root)) \<and> valid_tok (Str (r_subject root)) \<and>
     (\<forall>n. r_name root = Some n \<longrightarrow> valid_tok (Str n)) \<and> valid_tok (SInt (r_not_after root)) \<and>
     valid_tok (Bin (r_der root))"
  by (cases "r_source root")
    (auto simp: root_ok_def root_tokens_def write_str_list_def write_opt_str_def list_all_iff utf8_ascii
      split: option.splits)

lemma yields_root:
  assumes "reads_valid M"
  shows "yields root_ok (decode_root M r)"
  unfolding yields_def
proof (intro allI impI)
  fix root r' assume d: "decode_root M r = Inr (root, r')"
  have "\<exists>seen :: string list. root_ok root"
  proof (rule for_each_field_invariant [OF d [unfolded decode_root_def], where holds = "\<lambda>_. root_ok"])
    show "root_ok root_default" by (simp add: root_ok_fields root_default_def)
    show "yields root_ok (root_field M key acc r)" if "root_ok acc" for key and seen :: "string list" and acc r
      unfolding root_field_def
      by (intro yields_if yields_assign yields_skip yields_getters [OF assms])
        (use that in \<open>simp_all add: root_ok_fields\<close>)
  qed
  then show "root_ok root" by simp
qed

definition status_ok :: "status \<Rightarrow> bool" where
  "status_ok s \<longleftrightarrow> length (s_rendered s) < 2 ^ 32 \<and> list_all (\<lambda>p. valid_tok (Str p)) (s_rendered s) \<and>
     (\<forall>m. s_message s = Some m \<longrightarrow> valid_tok (Str m))"

lemma yields_status:
  assumes "reads_valid M" and "status_ok s" and "\<And>s. status_ok s \<Longrightarrow> Q s"
  shows "yields Q (status_field M key s r)"
  unfolding status_field_def
  by (intro yields_if yields_assign yields_skip yields_uint yields_getters [OF assms(1)])
    (use assms(2) in \<open>auto simp: status_ok_def list_all_iff intro!: assms(3)\<close>)

text \<open>A list of roots is read once at most, so it is no longer than its header says.\<close>

definition acc_ok :: "string list \<Rightarrow> reply_acc \<Rightarrow> bool" where
  "acc_ok seen acc \<longleftrightarrow>
     (\<forall>e. a_error acc = Some e \<longrightarrow> valid_tok (Str e)) \<and> status_ok (a_status acc) \<and>
     (''roots'' \<notin> set seen \<longrightarrow> a_roots acc = []) \<and> length (a_roots acc) < 2 ^ 32 \<and> (\<forall>r \<in> set (a_roots acc). root_ok r)"

lemma yields_reply_field:
  assumes "reads_valid M" and "key \<notin> set seen" and "acc_ok seen acc"
  shows "yields (acc_ok (seen @ [key])) (reply_field M key acc r)"
proof (cases "key = ''roots''")
  case True
  have empty: "a_roots acc = []" using assms(2,3) by (simp add: True acc_ok_def)
  show ?thesis
    unfolding yields_def
  proof (intro allI impI)
    fix acc' r' assume "reply_field M key acc r = Inr (acc', r')"
    then obtain n r1 roots where n: "read_array M r = Inr (n, r1)" "acc' = acc\<lparr>a_roots := roots\<rparr>"
      "read_times (decode_root M) n [] r1 = Inr (roots, r')"
      by (auto simp: reply_field_def True empty assign_def conv)
    have "length roots = n \<and> (\<forall>r \<in> set roots. root_ok r)"
      using read_times_all [OF n(3) yields_root [OF assms(1)]] by simp
    then show "acc_ok (seen @ [key]) acc'"
      using assms(3) array_size [OF assms(1) n(1)] by (simp add: acc_ok_def n(2) True)
  qed
next
  case False
  have s: "status_ok (a_status acc)" using assms(3) by (simp add: acc_ok_def)
  show ?thesis
    unfolding reply_field_def if_not_P [OF False]
    by (intro yields_if yields_assign yields_bool yields_uint yields_getters [OF assms(1)] yields_status [OF assms(1) s])
      (use assms(3) False in \<open>simp_all add: acc_ok_def status_ok_def\<close>)
qed

lemma decoded_reply:
  assumes "reads_valid M" and "decode_reply M bs = Inr reply"
  shows "reply_ok reply"
proof -
  obtain acc r' where a: "for_each_field M (reply_field M) reply_start (reader M bs) = Inr (acc, r')"
    "reply_finish acc = (Inr reply :: 'b wire_error + Reply)"
    using assms(2) by (auto simp: decode_reply_def conv)
  have "\<exists>seen. acc_ok seen acc"
    by (rule for_each_field_invariant [OF a(1), where holds = acc_ok])
      (simp_all add: yields_reply_field [OF assms(1)] acc_ok_def reply_start_def status_ok_def status_default_def)
  then show ?thesis using a(2)
    by (auto simp: acc_ok_def status_ok_def reply_finish_def list_all_iff utf8_ascii split: option.splits bool.splits if_splits)
qed

section \<open>No call panics on what arrives\<close>

lemma received_ok:
  assumes "reads_valid M" and "receive M describe_error end_time ch = (Inr reply, ch')"
  shows "reply_ok reply"
  using assms
proof (induction M describe_error end_time ch rule: receive.induct)
  case (1 M describe_error end_time ch)
  show ?case
  proof (cases "receive_turn M describe_error end_time ch")
    case (Done d)
    then have "receive_turn M describe_error end_time ch = Done (Inr reply, ch')"
      using 1(3) by (simp add: receive.simps [of M describe_error end_time ch])
    then obtain payload where "decode_reply M payload = Inr reply"
      by (auto simp: receive_turn_def conv split: sum.splits prod.splits need.splits arrival.splits if_splits)
    then show ?thesis using decoded_reply 1(2) by blast
  next
    case (Again ch1)
    then show ?thesis using 1 by (simp add: receive.simps [of M describe_error end_time ch])
  qed
qed

lemma encodes: "msgpack_laws M \<Longrightarrow> reply_ok reply \<Longrightarrow> \<exists>payload. encode_reply M reply = Some payload"
  using reply_codec by blast

lemma receive_turns_total:
  assumes "msgpack_laws M" and "reads_valid M" and "list_all reply_ok pending"
  shows "\<exists>r pending' ch'. receive_turns M describe_error request end_time pending used ch = Some (r, pending', ch') \<and>
    list_all reply_ok pending'"
  using assms
proof (induction M describe_error request end_time pending used ch rule: receive_turns.induct)
  case (1 M describe_error request end_time pending used ch)
  note step = receive_turns.simps [of M describe_error request end_time pending used ch]
  show ?case
  proof (cases "receive M describe_error end_time ch")
    case (Pair r ch1)
    show ?thesis
    proof (cases r)
      case (Inl e)
      then show ?thesis using Pair 1(4) by (simp add: step)
    next
      case (Inr reply)
      have ok: "reply_ok reply" using received_ok [OF 1(3)] Pair Inr by blast
      then obtain payload where e: "encode_reply M reply = Some payload" using encodes [OF 1(2)] by blast
      show ?thesis
      proof (cases "\<exists>g batch. expected request reply \<and> reply = ReplyRoots g batch True \<and>
          used + length payload \<le> MAX_SNAPSHOT_BYTES")
        case True
        then have "receive_turns M describe_error request end_time pending used ch =
            receive_turns M describe_error request end_time (pending @ [reply]) (used + length payload) ch1"
          using Pair Inr e by (auto simp: step)
        then show ?thesis using 1(1) [OF Pair [symmetric] Inr] True e ok 1(2-4) by fastforce
      next
        case False
        then show ?thesis using Pair Inr e 1(4) by (auto simp: step split: Reply.split)
      qed
    qed
  qed
qed

lemma pending_size_total:
  "msgpack_laws M \<Longrightarrow> list_all reply_ok pending \<Longrightarrow> \<exists>n. pending_size M pending = Some n"
proof (induction pending)
  case (Cons r rs)
  then show ?case using encodes [of M r] by fastforce
qed simp

lemma receive_complete_total:
  assumes "msgpack_laws M" and "reads_valid M" and "list_all reply_ok pending"
  shows "\<exists>r pending' ch'. receive_complete M describe_error request pending end_time ch = Some (r, pending', ch') \<and>
    list_all reply_ok pending'"
  using receive_turns_total [OF assms] pending_size_total [OF assms(1,3)] by (fastforce simp: receive_complete_def)

lemma request_encodes: "msgpack_laws M \<Longrightarrow> request_ok request \<Longrightarrow> \<exists>payload. encode_request M request = Some payload"
  using request_codec by blast

lemma exchange_call_total:
  assumes "msgpack_laws M" and "reads_valid M" and "request_ok request"
  shows "exchange_call M describe_error ep path timeout_ms request \<noteq> None"
proof (cases "deadline (ep_latest ep) (ep_now ep) timeout_ms")
  case d: (Inr end_time)
  show ?thesis
  proof (cases "connect path end_time (ep_connection ep)")
    case c: (Inr ch)
    obtain payload where "encode_request M request = Some payload" using request_encodes [OF assms(1,3)] by blast
    then have "\<exists>x. send_request M end_time request ch = Some x" by (simp add: send_request_def)
    then obtain r ch1 where s: "send_request M end_time request ch = Some (r, ch1)" by (metis surj_pair)
    obtain x where "receive_complete M describe_error request [] end_time ch1 = Some x"
      using receive_complete_total [OF assms(1,2), of "[]" describe_error request end_time ch1] by auto
    then show ?thesis using d c s by (simp add: exchange_call_def split: sum.split)
  qed (simp add: exchange_call_def d)
qed (simp add: exchange_call_def)

lemma input_request_ok: "input_maybe_text v = Inr purpose \<Longrightarrow> request_ok (ReqRoots with_der purpose)"
  by (cases purpose) (auto simp: input_maybe_text_def input_text_def input_bytes_def input_array_def conv
      MAX_TEXT_BYTES_def split: span.splits if_splits)

lemma client_calls_total:
  assumes "msgpack_laws M" and "reads_valid M"
  shows "client_roots M describe_error ep c with_der purpose \<noteq> None"
    and "client_status M describe_error ep c \<noteq> None"
    and "client_reload M describe_error ep c \<noteq> None"
proof -
  note total = exchange_call_total [OF assms]
  show "client_roots M describe_error ep c with_der purpose \<noteq> None"
    using total input_request_ok by (auto simp: client_roots_def peios_trust_roots_def conv split: sum.split)
  show "client_status M describe_error ep c \<noteq> None" "client_reload M describe_error ep c \<noteq> None"
    using total [of ReqStatus] total [of ReqReload]
    by (simp_all add: client_status_def client_reload_def peios_trust_get_status_def peios_trust_reload_def split: sum.split)
qed

text \<open>A subscription keeps only what encodes.\<close>

definition kept_ok :: "subscription \<Rightarrow> bool" where
  "kept_ok sub \<longleftrightarrow> list_all reply_ok (sub_pending sub)"

lemma client_next_total:
  assumes "msgpack_laws M" and "reads_valid M" and "kept_ok sub"
  shows "\<exists>r sub'. client_next M describe_error latest now nanos sub = Some (r, sub') \<and> kept_ok sub'"
proof (cases "timeout_of nanos")
  case ms: (Inr ms)
  have "\<exists>r sub'. subscription_next M describe_error latest now ms sub = Some (r, sub') \<and> kept_ok sub'"
  proof (cases "deadline latest now ms")
    case d: (Inr end_time)
    show ?thesis
    proof (cases "sub_channel sub")
      case (Some ch)
      have "list_all reply_ok (sub_pending sub)" using assms(3) by (simp add: kept_ok_def)
      from receive_complete_total [OF assms(1,2) this, of describe_error "sub_request sub" end_time ch]
      obtain r held ch1 where "receive_complete M describe_error (sub_request sub) (sub_pending sub) end_time ch =
          Some (r, held, ch1)" "list_all reply_ok held" by blast
      then show ?thesis using d Some by (simp add: subscription_next_def Let_def kept_ok_def)
    qed (use assms(3) d in \<open>simp add: subscription_next_def\<close>)
  qed (use assms(3) in \<open>simp add: subscription_next_def\<close>)
  then show ?thesis using ms by (auto simp: client_next_def peios_trust_subscription_next_def)
qed (use assms(3) in \<open>simp add: client_next_def\<close>)

text \<open>A subscriber as a machine again: it never gets to the state after a panic.\<close>

definition standing :: "('r, 'e) msgpack \<Rightarrow> (root_snapshot list \<times> subscription) option \<Rightarrow> bool" where
  "standing M st \<longleftrightarrow> msgpack_laws M \<and> reads_valid M \<and> (\<exists>got sub. st = Some (got, sub) \<and> kept_ok sub)"

lemma standing_step:
  assumes "standing M st"
  shows "standing M (next_step M describe_error st ev)"
proof -
  obtain got sub where st: "st = Some (got, sub)" "kept_ok sub" and ok: "msgpack_laws M" "reads_valid M"
    using assms by (auto simp: standing_def)
  obtain latest now nanos where ev: "ev = (latest, now, nanos)" by (metis prod_cases3)
  from client_next_total [OF ok st(2), of describe_error latest now nanos] show ?thesis
    using ok by (auto simp: standing_def next_step_def st(1) ev)
qed

interpretation robust: machine "next_step M describe_error" "standing M" "\<lambda>_. 0" "\<lambda>_ _ _. True" for M describe_error
  by unfold_locales (simp_all add: standing_step)

lemma subscriber_total:
  "msgpack_laws M \<Longrightarrow> reads_valid M \<Longrightarrow> kept_ok sub \<Longrightarrow>
    run (next_step M describe_error) (Some (got, sub)) calls \<noteq> None"
  using robust.inv_run [of M "Some (got, sub)" describe_error calls] by (auto simp: standing_def)

lemma subscribed_kept:
  "client_subscribe M ep c with_der = Some (Inr sub) \<Longrightarrow> kept_ok sub"
  by (auto simp: client_subscribe_def peios_trust_subscribe_def kept_ok_def conv split: sum.splits if_splits)

lemma client_subscribe_total:
  assumes "msgpack_laws M"
  shows "client_subscribe M ep c with_der \<noteq> None"
proof -
  have "send_request M end_time (ReqSubscribe b) ch \<noteq> None" for end_time b ch
    using request_encodes [OF assms, of "ReqSubscribe b"] by (auto simp: send_request_def)
  then show ?thesis
    by (auto simp: client_subscribe_def peios_trust_subscribe_def conv simp del: not_None_eq split: sum.split)
qed

section \<open>The fuzz targets\<close>

text \<open>
  A target is true of an input when none of its assertions fails on it. \<open>cert_parse\<close> goes on to parse
  every block of a text, which asserts nothing.
\<close>

definition fuzz_cert_parse :: "lib \<Rightarrow> bytes \<Rightarrow> bool" where
  "fuzz_cert_parse L data =
     (case parse L data None of
        Inl _ \<Rightarrow> True
      | Inr parsed \<Rightarrow>
          length (fingerprint parsed) = 64 \<and>
          list_all (\<lambda>c. is_ascii_hexdigit c \<and> \<not> is_ascii_upper c) (fingerprint parsed) \<and>
          length (subject_hash_text parsed) = 8 \<and> list_all is_ascii_hexdigit (subject_hash_text parsed) \<and>
          der parsed = data \<and>
          (case from_pem (to_pem (der parsed)) of
             [again] \<Rightarrow> again = der parsed \<and>
               (case parse L again None of
                  Inl _ \<Rightarrow> False
                | Inr reparsed \<Rightarrow> fingerprint reparsed = fingerprint parsed \<and>
                    subject_hash_text reparsed = subject_hash_text parsed)
           | _ \<Rightarrow> False))"

definition fuzz_trust_wire :: "('r, 'e) msgpack \<Rightarrow> bytes \<Rightarrow> bool" where
  "fuzz_trust_wire M data \<longleftrightarrow>
     (case decode_request M data of
        Inl _ \<Rightarrow> True
      | Inr request \<Rightarrow>
          (case encode_request M request of
             None \<Rightarrow> False
           | Some bs \<Rightarrow> (case decode_request M bs of Inl _ \<Rightarrow> False | Inr again \<Rightarrow> again = request))) \<and>
     (case decode_reply M data of
        Inl _ \<Rightarrow> True
      | Inr reply \<Rightarrow>
          (case encode_reply M reply of
             None \<Rightarrow> False
           | Some bs \<Rightarrow> (case decode_reply M bs of Inl _ \<Rightarrow> False | Inr _ \<Rightarrow> True))) \<and>
     (case recv data :: 'e wire_error + bytes \<times> bytes of Inl _ \<Rightarrow> True | Inr _ \<Rightarrow> True)"

text \<open>\<open>arbitrary\<close> input of \<open>compose\<close>; \<open>real\<close> and \<open>real2\<close> are the two fixtures it includes.\<close>

record fuzz_input =
  f_bundle_extra :: bytes
  f_real_copies :: byte
  f_additions :: "(string \<times> bytes) list"
  f_distrust :: "string list"
  f_now :: "int option"

definition fuzz_compose :: "lib \<Rightarrow> string \<Rightarrow> string \<Rightarrow> fuzz_input \<Rightarrow> bool" where
  "fuzz_compose L real real2 input =
     (let bundle = concat (replicate (unat (f_real_copies input) mod 80) (real @ real2)) @
            (if utf8 (from_bytes (f_bundle_extra input)) then from_bytes (f_bundle_extra input) else []);
          additions = map (\<lambda>(name, cert). \<lparr>add_name = name, add_der = cert, add_purposes = []\<rparr>)
            (take 16 (f_additions input))
      in case compose L bundle additions (f_distrust input) (f_now input) of
           Inl _ \<Rightarrow> True
         | Inr composed \<Rightarrow>
             c_roots composed \<noteq> [] \<and>
             list_all (\<lambda>root. entry_fingerprint root \<notin> set (map normalise_fingerprint (f_distrust input)))
               (c_roots composed) \<and>
             (case compose L bundle additions (f_distrust input) (f_now input) of
                Inl _ \<Rightarrow> False
              | Inr again \<Rightarrow> map entry_fingerprint (c_roots again) = map entry_fingerprint (c_roots composed)) \<and>
             (let seen = map entry_fingerprint (c_roots composed)
              in length (remdups_adj (sort seen)) = length seen))"

lemma fingerprint_not_upper: "c \<in> set (fingerprint_of L bs) \<Longrightarrow> \<not> is_ascii_upper c"
  using fingerprint_of_hex [of c L bs] ord_to_ascii_lower [of c] by (auto simp: is_ascii_upper_def)

lemma hash_text: "subject_hash h name_der = Inr t \<Longrightarrow> length t = 8 \<and> list_all is_ascii_hexdigit t"
  by (auto simp: subject_hash_def conv Let_def hex8_def hex_byte_def)

lemma fuzz_cert_parse_holds:
  assumes "length (sha256 L data) = 32"
  shows "fuzz_cert_parse L data"
proof (cases "parse L data None")
  case (Inr parsed)
  then have f: "der parsed = data" "fingerprint parsed = fingerprint_of L data" by (simp_all add: parse_fields)
  obtain hash subject_der where "subject_hash (sha1 L) subject_der = Inr hash" "subject_hash_text parsed = hash"
    using Inr by (auto simp: parse_Inr_iff)
  then have h: "length (subject_hash_text parsed) = 8" "list_all is_ascii_hexdigit (subject_hash_text parsed)"
    using hash_text by blast+
  have "from_pem (to_pem data) = [data]" using from_pem_blocks [of "[data]"] by simp
  then show ?thesis
    using Inr f h assms fingerprint_of_hex [of _ L data] fingerprint_not_upper [of _ L data]
    by (simp add: fuzz_cert_parse_def length_fingerprint_of list_all_iff)
qed (simp add: fuzz_cert_parse_def)

lemma fuzz_trust_wire_holds:
  assumes "msgpack_laws M" and "reads_valid M"
  shows "fuzz_trust_wire M data"
proof -
  have "\<exists>bs. encode_request M request = Some bs \<and> decode_request M bs = Inr request"
    if "decode_request M data = Inr request" for request
    using request_codec [OF assms(1)] decoded_request [OF assms(2) that] by blast
  moreover have "\<exists>bs. encode_reply M reply = Some bs \<and> decode_reply M bs = Inr reply"
    if "decode_reply M data = Inr reply" for reply
    using reply_codec [OF assms(1)] decoded_reply [OF assms(2) that] by blast
  ultimately show ?thesis
    by (fastforce simp: fuzz_trust_wire_def split: sum.split option.split)
qed

lemma fuzz_compose_holds: "fuzz_compose L real real2 input"
proof -
  have "c_roots composed \<noteq> [] \<and>
      list_all (\<lambda>root. entry_fingerprint root \<notin> set (map normalise_fingerprint distrust)) (c_roots composed) \<and>
      length (remdups_adj (sort (map entry_fingerprint (c_roots composed)))) = length (c_roots composed)"
    if "compose L pem additions distrust now = Inr composed" for pem additions distrust now composed
  proof -
    note r = compose_roots [OF that]
    have "c_roots composed \<noteq> []"
      using compose_outcome [where L = L and pem = pem and additions = additions and distrust = distrust and now = now]
      unfolding that sum.case by blast
    moreover have "entry_fingerprint e \<notin> normalise_fingerprint ` set distrust" if "e \<in> set (c_roots composed)" for e
      using that effective_fingerprints [of L pem additions distrust now] unfolding r by blast
    moreover have "distinct (map entry_fingerprint (c_roots composed))"
      unfolding r by (rule effective_distinct)
    ultimately show ?thesis by (simp add: list_all_iff remdups_adj_distinct)
  qed
  then show ?thesis by (simp add: fuzz_compose_def Let_def split: sum.split)
qed

section \<open>A sample\<close>

text \<open>The sample codec with a reader that checks what it returns.\<close>

definition checked :: "('a \<Rightarrow> tok) \<Rightarrow> string + 'a \<times> bytes \<Rightarrow> string + 'a \<times> bytes" where
  "checked f m = bindE m (\<lambda>(a, bs). if valid_tok (f a) then Inr (a, bs) else Inl ''not valid'')"

definition strict :: "(bytes, string) msgpack" where
  "strict = wide\<lparr>read_str := (\<lambda>bs. checked Str (read_str wide bs)), read_array := (\<lambda>bs. checked ArrHdr (read_array wide bs)),
     read_bin := (\<lambda>bs. checked Bin (read_bin wide bs)), read_int := (\<lambda>bs. checked SInt (read_int wide bs))\<rparr>"

lemma strict_valid: "reads_valid strict"
  unfolding reads_valid_def strict_def checked_def by (auto simp: conv split: if_splits)

lemma strict_stands: "list_all valid_tok ts \<Longrightarrow> stands wide r ts \<Longrightarrow> stands strict r ts"
proof (induction ts arbitrary: r)
  case (Cons t ts)
  have "reads_tok strict r t r'" if "reads_tok wide r t r'" for r'
    using that Cons.prems(1) by (cases t) (simp_all add: strict_def checked_def del: valid_tok.simps)
  then show ?case using Cons by (auto simp: strict_def)
qed simp

lemma strict_laws: "msgpack_laws strict"
  using wide_laws strict_stands unfolding msgpack_laws_def complete_value_def
  by (fastforce simp: strict_def)

section \<open>Properties\<close>

text \<open>
  C18. Whatever arrives, the client does not panic: with a codec that is what it documents to be, \<open>roots\<close>,
  \<open>status\<close>, \<open>reload\<close> and \<open>subscribe\<close> return on every sequence of bytes and errors the socket gives them,
  and so does every call of \<open>next\<close> on a subscription.
\<close>

theorem client_never_panics:
  assumes "msgpack_laws M" and "reads_valid M"
  shows "client_roots M describe_error ep c with_der purpose \<noteq> None \<and> client_status M describe_error ep c \<noteq> None \<and>
    client_reload M describe_error ep c \<noteq> None \<and> client_subscribe M ep c with_der \<noteq> None \<and>
    (\<forall>sub calls. client_subscribe M ep c with_der = Some (Inr sub) \<longrightarrow>
      run (next_step M describe_error) (Some ([], sub)) calls \<noteq> None)"
  using client_calls_total [OF assms] client_subscribe_total [OF assms(1)] subscribed_kept
    subscriber_total [OF assms, of _ describe_error "[]"]
  by fastforce

theorem client_never_panics_witness:
  "msgpack_laws strict \<and> reads_valid strict \<and>
    client_roots strict (\<lambda>_. []) (sample_link [1, 2, 3, 4, 5]) sample_handle True None \<noteq> None"
  using client_never_panics [OF strict_laws strict_valid] strict_laws strict_valid by blast

text \<open>
  C19. The fuzz targets hold of every input: what parses has a reproducible identity of 64 and 8
  hexadecimal digits, what decodes encodes again and decodes to itself, and what composes is not
  empty, holds nothing distrusted and nothing twice, and composes the same again.
\<close>

theorem fuzz_targets_hold:
  assumes "length (sha256 L data) = 32" and "msgpack_laws M" and "reads_valid M"
  shows "fuzz_cert_parse L data \<and> fuzz_trust_wire M data \<and> fuzz_compose L real real2 input"
  using fuzz_cert_parse_holds [OF assms(1)] fuzz_trust_wire_holds [OF assms(2,3)] fuzz_compose_holds by blast

theorem fuzz_targets_hold_witness:
  "length (sha256 sample_lib [1]) = 32 \<and> fuzz_cert_parse sample_lib [1] \<and> fuzz_trust_wire strict [1] \<and>
    fuzz_compose sample_lib [] [] \<lparr>f_bundle_extra = [], f_real_copies = 3, f_additions = [], f_distrust = [], f_now = None\<rparr>"
proof -
  have "length (sha256 sample_lib [1]) = 32" by (simp add: sample_lib_def)
  from fuzz_targets_hold [OF this strict_laws strict_valid] this show ?thesis by blast
qed

end
