(* ===== verification/Startup.thy ===== *)
theory Startup
  imports TrustClient DaemonProps
begin

text \<open>
  How the daemon starts: the log (\<open>trustd/src/log.rs\<close>), the control object's default descriptor
  (\<open>trust-core/src/lib.rs\<close>), creating and protecting the socket (\<open>control.rs\<close>), opening the reload
  signal (\<open>reload_signal.rs\<close>) and the registry watch (\<open>config.rs\<close>), the notification of the service
  manager (\<open>notification.rs\<close>) and \<open>main\<close> up to its loop (\<open>main.rs\<close>).

  The crate \<open>peios\<close>, which makes and checks descriptors, is the record \<open>peios\<close>. What the system calls
  answer is the record \<open>start_calls\<close>; what they do is a list of acts, in order.
\<close>

section \<open>The log\<close>

text \<open>
  \<open>log_kmsg\<close> is the \<open>OnceLock\<close>: not yet tried, or whether \<open>/dev/kmsg\<close> could be opened. Each argument
  \<open>opened\<close> is what opening it comes to if this line is the first.
\<close>

record log_state =
  log_out :: string
  log_err :: string
  log_mirror :: string
  log_kmsg :: "bool option"

definition mirror_unavailable :: "string \<Rightarrow> string" where
  "mirror_unavailable err =
     ''trustd: warn: /dev/kmsg mirror unavailable ('' @ err @ ''): log lines go to stdout/stderr only'' @ [CHR 0x0A]"

definition kmsg :: "io_error + unit \<Rightarrow> log_state \<Rightarrow> bool \<times> log_state" where
  "kmsg opened l =
     (case log_kmsg l of
        Some there \<Rightarrow> (there, l)
      | None \<Rightarrow>
          (case opened of
             Inr _ \<Rightarrow> (True, l\<lparr>log_kmsg := Some True\<rparr>)
           | Inl e \<Rightarrow> (False, l\<lparr>log_kmsg := Some False, log_err := log_err l @ mirror_unavailable (io_text e)\<rparr>)))"

definition emit :: "io_error + unit \<Rightarrow> string \<Rightarrow> string \<Rightarrow> log_state \<Rightarrow> log_state" where
  "emit opened level text l =
     (let record_line = ''trustd: '' @ level @ '': '' @ text @ [CHR 0x0A];
          l = (if level = ''info'' then l\<lparr>log_out := log_out l @ record_line\<rparr>
               else l\<lparr>log_err := log_err l @ record_line\<rparr>);
          (there, l) = kmsg opened l;
          priority = (if level = ''error'' then ''3'' else if level = ''warn'' then ''4'' else ''6'')
      in if there then l\<lparr>log_mirror := log_mirror l @ ''<'' @ priority @ ''>'' @ record_line\<rparr> else l)"

text \<open>The mirror is reported missing once, by the first line, and never tried again.\<close>

lemma emit_kmsg: "log_kmsg (emit opened level text l) \<noteq> None"
  by (auto simp: emit_def kmsg_def Let_def split: option.split sum.split prod.split)

lemma emit_again:
  assumes "log_kmsg l = Some False"
  shows "log_mirror (emit opened level text l) = log_mirror l \<and> log_kmsg (emit opened level text l) = Some False \<and>
    log_err (emit opened level text l) =
      log_err l @ (if level = ''info'' then [] else ''trustd: '' @ level @ '': '' @ text @ [CHR 0x0A])"
  using assms by (simp add: emit_def kmsg_def Let_def)

lemma emit_first:
  assumes "log_kmsg l = None" and "opened = Inl e"
  shows "log_err (emit opened ''error'' text l) =
    log_err l @ ''trustd: error: '' @ text @ [CHR 0x0A] @ mirror_unavailable (io_text e)"
  using assms by (simp add: emit_def kmsg_def Let_def)

section \<open>Descriptors\<close>

datatype WellKnown = SystemSid | AdministratorsSid | EveryoneSid

text \<open>\<open>GenericMapping::new(read, write, execute, all)\<close>.\<close>

record generic_mapping =
  gm_read :: u32
  gm_write :: u32
  gm_execute :: u32
  gm_all :: u32

text \<open>
  A list of entries is what \<open>allow\<close> was called with, in order, with no flags. \<open>build_sd\<close> takes the
  owner, the group and the list.
\<close>

record ('sid, 'acl, 'sd, 'tok, 'conn) peios =
  well_known :: "WellKnown \<Rightarrow> 'sid"
  build_acl :: "('sid \<times> u32) list \<Rightarrow> io_error + 'acl"
  build_sd :: "'sid option \<Rightarrow> 'sid option \<Rightarrow> 'acl \<Rightarrow> io_error + 'sd"
  from_validated_bytes :: "bytes \<Rightarrow> 'sd option"
  token_of_peer :: "'conn \<Rightarrow> 'tok option"
  check :: "generic_mapping \<Rightarrow> 'sd \<Rightarrow> u32 \<Rightarrow> 'tok \<Rightarrow> bool option"
  READ_CONTROL :: u32
  GENERIC_READ :: u32
  GENERIC_WRITE :: u32
  GENERIC_EXECUTE :: u32
  GENERIC_ALL :: u32

unbundle bit_operations_syntax

definition TRUST_ALL_ACCESS :: u32 where
  "TRUST_ALL_ACCESS = TRUST_QUERY OR TRUST_CONTROL OR 0x000F0000"

definition default_entries :: "('sid, 'acl, 'sd, 'tok, 'conn) peios \<Rightarrow> ('sid \<times> u32) list" where
  "default_entries A =
     [(well_known A SystemSid, TRUST_ALL_ACCESS), (well_known A AdministratorsSid, TRUST_ALL_ACCESS),
      (well_known A EveryoneSid, TRUST_QUERY OR READ_CONTROL A)]"

text \<open>\<open>None\<close> is the panic of \<open>expect\<close>.\<close>

definition default_control_security :: "('sid, 'acl, 'sd, 'tok, 'conn) peios \<Rightarrow> 'sd option" where
  "default_control_security A =
     (case bindE (build_acl A (default_entries A)) (\<lambda>dacl.
        build_sd A (Some (well_known A SystemSid)) (Some (well_known A SystemSid)) dacl) of
        Inl _ \<Rightarrow> None
      | Inr sd \<Rightarrow> Some sd)"

definition control_mapping :: "('sid, 'acl, 'sd, 'tok, 'conn) peios \<Rightarrow> generic_mapping" where
  "control_mapping A =
     \<lparr>gm_read = TRUST_QUERY OR READ_CONTROL A, gm_write = TRUST_CONTROL OR READ_CONTROL A,
      gm_execute = TRUST_QUERY, gm_all = TRUST_ALL_ACCESS\<rparr>"

text \<open>The parameter of \<open>Control\<close>, with the code's own descriptor, its panic and its mapping in it.\<close>

definition peios_security :: "('sid, 'acl, 'sd, 'tok, 'conn) peios \<Rightarrow> ('sd, 'tok, 'conn) security" where
  "peios_security A =
     \<lparr>validated = from_validated_bytes A, default_sd = default_control_security A, open_peer = token_of_peer A,
      access_check = check A (control_mapping A)\<rparr>"

text \<open>
  The same descriptor through the shared library and the Rust client; \<open>bytes_of\<close> is its self-relative
  form.
\<close>

definition peios_trust_abi_version :: u32 where
  "peios_trust_abi_version = 1"

definition peios_trust_default_control_security ::
  "('sd \<Rightarrow> bytes) \<Rightarrow> ('sid, 'acl, 'sd, 'tok, 'conn) peios \<Rightarrow> result_handle option" where
  "peios_trust_default_control_security bytes_of A =
     map_option (\<lambda>descriptor. finish (Inr (carrying (PayloadBytes (arena_bytes (bytes_of descriptor))))))
       (default_control_security A)"

definition client_default_control_security ::
  "('sd \<Rightarrow> bytes) \<Rightarrow> ('sid, 'acl, 'sd, 'tok, 'conn) peios \<Rightarrow> (trust_error + bytes) option" where
  "client_default_control_security bytes_of A =
     map_option (owned_view ''missing library result'' peios_trust_result_bytes take_array)
       (peios_trust_default_control_security bytes_of A)"

lemma client_sees_default:
  "client_default_control_security bytes_of A =
    map_option (\<lambda>descriptor. Inr (bytes_of descriptor)) (default_control_security A)"
  by (cases "default_control_security A")
    (simp_all add: client_default_control_security_def peios_trust_default_control_security_def owned_view_ok
      peios_trust_result_bytes_def)

section \<open>The socket\<close>

definition TRUSTD_RUN_DIR :: string where
  "TRUSTD_RUN_DIR = ''/run/trustd''"

definition DIRECTORY_MODE :: u32 where "DIRECTORY_MODE = 0x1ED"

definition SOCKET_MODE :: u32 where "SOCKET_MODE = 0x1B6"

datatype 'sd act =
    MadeDir string
  | SetMode string u32
  | SetDacl string 'sd
  | Removed string
  | Bound string
  | SetNonblocking
  | Logged string string

record ('sid, 'sd) start_calls =
  k_create_dir :: "io_error + unit"
  k_dir_mode :: "io_error + unit"
  k_remove :: "io_error + unit"
  k_bind :: "io_error + unit"
  k_socket_mode :: "io_error + unit"
  k_nonblocking :: "io_error + unit"
  k_identity :: "io_error + 'sid"
  k_set_sd :: "string \<Rightarrow> 'sd \<Rightarrow> io_error + unit"

text \<open>\<open>?\<close> after a call that does something, and after a step that did several things.\<close>

definition did :: "io_error + unit \<Rightarrow> 'x list \<Rightarrow> (io_error + unit) \<times> 'x list" where
  "did answer acts = (answer, case answer of Inl _ \<Rightarrow> [] | Inr _ \<Rightarrow> acts)"

definition next_act :: "(io_error + unit) \<times> 'x list \<Rightarrow> (io_error + unit) \<times> 'x list \<Rightarrow> (io_error + unit) \<times> 'x list" where
  "next_act m n = (case m of (Inl e, acts) \<Rightarrow> (Inl e, acts) | (Inr _, acts) \<Rightarrow> (fst n, acts @ snd n))"

definition protect_entries ::
  "('sid, 'acl, 'sd, 'tok, 'conn) peios \<Rightarrow> io_error + 'sid \<Rightarrow> ('sid \<times> u32) list" where
  "protect_entries A me =
     [(well_known A SystemSid, GENERIC_ALL A)] @
     (case me of Inr me \<Rightarrow> [(me, GENERIC_ALL A)] | Inl _ \<Rightarrow> []) @
     [(well_known A EveryoneSid, GENERIC_READ A OR GENERIC_WRITE A OR GENERIC_EXECUTE A)]"

definition protect ::
  "('sid, 'acl, 'sd, 'tok, 'conn) peios \<Rightarrow> ('sid, 'sd) start_calls \<Rightarrow> string \<Rightarrow> 'sd act list" where
  "protect A K path =
     (case k_identity K of
        Inr _ \<Rightarrow> []
      | Inl e \<Rightarrow> [Logged ''warn'' (''could not read trustd's own identity ('' @ io_text e @
          ''); a restart may not be able to replace '' @ path)]) @
     (case bindE (build_acl A (protect_entries A (k_identity K))) (\<lambda>dacl. build_sd A None None dacl) of
        Inr sd \<Rightarrow>
          (case k_set_sd K path sd of
             Inr _ \<Rightarrow> [SetDacl path sd]
           | Inl e \<Rightarrow> [Logged ''error'' (''could not set a descriptor on '' @ path @ '' ('' @ io_text e @
               ''); programs other than SYSTEM and administrators will not be able to reach the socket'')])
      | Inl e \<Rightarrow> [Logged ''warn'' (''could not build a descriptor: '' @ io_text e)])"

definition listen ::
  "('sid, 'acl, 'sd, 'tok, 'conn) peios \<Rightarrow> ('sid, 'sd) start_calls \<Rightarrow> (io_error + unit) \<times> 'sd act list" where
  "listen A K =
     next_act (did (k_create_dir K) [MadeDir TRUSTD_RUN_DIR])
    (next_act (did (k_dir_mode K) [SetMode TRUSTD_RUN_DIR DIRECTORY_MODE])
    (next_act (Inr (), protect A K TRUSTD_RUN_DIR)
    (next_act
       (case k_remove K of
          Inr _ \<Rightarrow> (Inr (), [Removed SOCKET_PATH, Logged ''warn'' (''removed a stale '' @ SOCKET_PATH)])
        | Inl e \<Rightarrow> if io_kind e = NotFound then (Inr (), []) else (Inl e, []))
    (next_act (did (k_bind K) [Bound SOCKET_PATH])
    (next_act (did (k_socket_mode K) [SetMode SOCKET_PATH SOCKET_MODE])
    (next_act (Inr (), protect A K SOCKET_PATH)
       (did (k_nonblocking K) [SetNonblocking])))))))"

section \<open>The other calls of a start\<close>

text \<open>
  \<open>reload_signal::open\<close>: the error number of \<open>pthread_sigmask\<close>, what \<open>signalfd\<close> answers, and whether SIGHUP
  is blocked afterwards, from whether it was before. \<open>raw\<close> is \<open>from_raw_os_error\<close>.
\<close>

definition reload_open :: "(nat \<Rightarrow> io_error) \<Rightarrow> nat \<Rightarrow> io_error + unit \<Rightarrow> bool \<Rightarrow> (io_error + unit) \<times> bool" where
  "reload_open raw masked signalfd blocked =
     (if masked \<noteq> 0 then (Inl (raw masked), blocked)
      else case signalfd of
        Inl e \<Rightarrow> (Inl e, blocked)
      | Inr _ \<Rightarrow> (Inr (), True))"

text \<open>\<open>config::watch\<close>: open the key, ask for notifications, make it non-blocking.\<close>

definition config_watch :: "io_error + 'k \<Rightarrow> io_error + unit \<Rightarrow> io_error + unit \<Rightarrow> io_error + 'k" where
  "config_watch opened notified nonblocking =
     bindE opened (\<lambda>key. bindE notified (\<lambda>_. bindE nonblocking (\<lambda>_. Inr key)))"

text \<open>\<open>notification::send\<close>: the socket, its time-out, and how many bytes \<open>send_to\<close> sent.\<close>

definition notification_send :: "io_error + unit \<Rightarrow> io_error + unit \<Rightarrow> (bytes \<Rightarrow> io_error + nat) \<Rightarrow> bytes \<Rightarrow> io_error + unit" where
  "notification_send socket timeout send_to payload =
     bindE socket (\<lambda>_. bindE timeout (\<lambda>_. bindE (send_to payload) (\<lambda>sent.
       if sent \<noteq> length payload then Inl (IoError WriteZero None ''short notification'') else Inr ())))"

definition notify_ready :: "string option \<Rightarrow> io_error + unit \<Rightarrow> io_error + unit \<Rightarrow> (bytes \<Rightarrow> io_error + nat) \<Rightarrow> 'sd act list" where
  "notify_ready NOTIFY_SOCKET socket timeout send_to =
     (case NOTIFY_SOCKET of
        None \<Rightarrow> []
      | Some _ \<Rightarrow>
          (case notification_send socket timeout send_to (as_bytes ''READY=1'') of
             Inr _ \<Rightarrow> []
           | Inl e \<Rightarrow> [Logged ''warn'' (''notify: '' @ io_text e)]))"

section \<open>\<open>main\<close>\<close>

text \<open>What the calls of a start answer: the signal, the watch, the event policy and the notification.\<close>

record machine_start =
  a_signal :: "io_error + unit"
  a_watch :: "io_error + unit"
  a_policy :: "io_error + unit"
  a_notify_socket :: "string option"
  a_notify :: "io_error + unit"
  a_notify_timeout :: "io_error + unit"
  a_notify_send :: "bytes \<Rightarrow> io_error + nat"

text \<open>Where \<open>main\<close> is before its loop: gone with an exit code and its output, panicked, or in the loop.\<close>

datatype ('m, 'sd) begun =
    Quit nat string string
  | Stopped "'sd act list"
  | Crashed
  | Looping 'm "'sd act list"

text \<open>
  A start that fails has exit code 1 and its last act is the log line that says why. The lines logged
  inside a refresh and by a \<open>ControlSecurity\<close> that is not valid are not in the list. The access checks are
  those of \<open>A\<close> with the code's own descriptor, so that \<open>Crashed\<close> is also the panic of \<open>ControlObject::new\<close>.
\<close>

definition secured where
  "secured A P = P\<lparr>p_security := peios_security A\<rparr>"

definition trustd_main where
  "trustd_main (P :: ('r, 'e, 'sd, 'tok, 'conn) platform) A K B R rd files args =
     (case args of
        argument # _ \<Rightarrow>
          if argument \<in> {''--version'', ''-V'', ''version''} then Quit 0 (''trustd 0.1.6'' @ [CHR 0x0A]) []
          else if argument \<in> {''--help'', ''-h'', ''help''} then Quit 0 [] (''usage: trustd'' @ [CHR 0x0A])
          else Quit 64 [] (''trustd: unexpected argument: '' @ argument @ [CHR 0x0A] @ ''usage: trustd'' @ [CHR 0x0A])
      | [] \<Rightarrow>
          (case a_signal B of
             Inl e \<Rightarrow> Stopped [Logged ''error'' (''reload signal: '' @ io_text e)]
           | Inr _ \<Rightarrow>
          (case listen A K of
             (Inl e, acts) \<Rightarrow> Stopped (acts @ [Logged ''error'' (''control socket: '' @ io_text e)])
           | (Inr _, acts) \<Rightarrow>
              let acts = acts @ (case a_watch B of Inr _ \<Rightarrow> [] | Inl e \<Rightarrow>
                [Logged ''warn'' (''registry watch unavailable ('' @ io_text e @ ''); configuration is read on a timer only'')])
              in (case load R of
                 Inl e \<Rightarrow> Stopped (acts @ [Logged ''error'' (''reading configuration: '' @ io_text e)])
               | Inr config \<Rightarrow>
                  (case control_new (peios_security A) (g_control_security config) of
                     None \<Rightarrow> Crashed
                   | Some control \<Rightarrow>
                  let watching = (case a_watch B of Inl _ \<Rightarrow> False | Inr _ \<Rightarrow> True);
                      policy = (case a_policy B of Inl _ \<Rightarrow> False | Inr _ \<Rightarrow> True);
                      acts = acts @ (case a_policy B of Inr _ \<Rightarrow> [] | Inl e \<Rightarrow>
                        [Logged ''warn'' (''cannot open the event policy ('' @ io_text e @
                          ''); root changes are recorded by tier'')])
                  in (case refresh (secured A P) rd (trustd_new control config policy :: ('sd, 'conn) trustd, \<lparr>o_files = files, o_events = []\<rparr>) of
                        None \<Rightarrow> Crashed
                      | Some (t, out) \<Rightarrow>
                          Looping \<lparr>d_trustd = t, d_outside = out, d_watch = watching\<rparr>
                            (acts @
                             (if t_health t = Degraded
                              then [Logged ''error'' (''started with no usable store: '' @
                                (case t_message t of None \<Rightarrow> [] | Some m \<Rightarrow> m))]
                              else []) @
                             notify_ready (a_notify_socket B) (a_notify B) (a_notify_timeout B) (a_notify_send B))))))))"

section \<open>Lemmas\<close>

definition answers_ok :: "'e + 'a \<Rightarrow> bool" where
  "answers_ok x \<longleftrightarrow> (\<exists>a. x = Inr a)"

lemma answers_ok_simps [simp]: "answers_ok (Inr a)" "\<not> answers_ok (Inl e)"
  by (simp_all add: answers_ok_def)

lemma next_act_ok: "answers_ok (fst (next_act m n)) \<longleftrightarrow> answers_ok (fst m) \<and> answers_ok (fst n)"
  by (cases m) (auto simp: next_act_def split: sum.split)

lemma did_ok [simp]: "answers_ok (fst (did answer acts)) \<longleftrightarrow> answers_ok answer"
  by (simp add: did_def)

text \<open>What may go wrong when the socket is made: nothing about its descriptors stops it.\<close>

lemma listen_ok:
  "answers_ok (fst (listen A K)) \<longleftrightarrow> answers_ok (k_create_dir K) \<and> answers_ok (k_dir_mode K) \<and>
    (\<forall>e. k_remove K = Inl e \<longrightarrow> io_kind e = NotFound) \<and> answers_ok (k_bind K) \<and> answers_ok (k_socket_mode K) \<and>
    answers_ok (k_nonblocking K)"
  by (auto simp: listen_def next_act_ok split: sum.split)

text \<open>A configuration that is read and leaves the control object to the compiled default descriptor.\<close>

definition falls_back where
  "falls_back A R \<longleftrightarrow> (\<exists>config. load R = Inr config \<and>
     (case g_control_security config of None \<Rightarrow> True | Some bs \<Rightarrow> from_validated_bytes A bs = None))"

lemma control_panics:
  "control_new (peios_security A) configured = None \<longleftrightarrow> default_control_security A = None \<and>
    (case configured of None \<Rightarrow> True | Some bs \<Rightarrow> from_validated_bytes A bs = None)"
  by (auto simp: control_new_def peios_security_def split: option.splits)

text \<open>What the start needs of the kernel and the registry.\<close>

definition can_start where
  "can_start K B R \<longleftrightarrow> answers_ok (a_signal B) \<and> answers_ok (k_create_dir K) \<and> answers_ok (k_dir_mode K) \<and>
     \<not> (\<exists>e. k_remove K = Inl e \<and> io_kind e \<noteq> NotFound) \<and> answers_ok (k_bind K) \<and> answers_ok (k_socket_mode K) \<and>
     answers_ok (k_nonblocking K) \<and> answers_ok (load R)"

lemma can_start_parts:
  "can_start K B R \<longleftrightarrow> answers_ok (a_signal B) \<and> answers_ok (fst (listen A K)) \<and> answers_ok (load R)"
  unfolding can_start_def listen_ok by auto

text \<open>The first refresh panics only on the descriptor, having no subscriber.\<close>

lemma first_refresh:
  assumes "load R = Inr config" and "control_new (peios_security A) (g_control_security config) = Some control"
    and t: "t = trustd_new control config policy"
  shows "refresh (secured A P) rd (t, w) = None \<longleftrightarrow>
    default_control_security A = None \<and> (falls_back A R \<or> falls_back A (rd_registry rd))"
proof -
  have p: "p_security (secured A P) = peios_security A" by (simp add: secured_def)
  have "t_subscribers t = []" by (simp add: t trustd_new_def)
  from refresh_returns [OF this, of "secured A P" rd w]
  have "refresh (secured A P) rd (t, w) = None \<longleftrightarrow> control_fails (secured A P) rd t"
    by (cases "refresh (secured A P) rd (t, w)") auto
  moreover have "control_fails (secured A P) rd t \<longleftrightarrow>
      default_control_security A = None \<and> (falls_back A R \<or> falls_back A (rd_registry rd))"
    using assms(1,2) control_panics [of A "g_control_security config"]
    by (auto simp: control_fails_def p t trustd_new_def falls_back_def control_panics)
  ultimately show ?thesis by simp
qed

text \<open>Where \<open>main\<close> gets to, by the calls that can stop it.\<close>

lemma main_from_config:
  fixes P :: "('r, 'e, 'sd, 'tok, 'conn) platform"
  assumes "can_start K B R" and "load R = Inr config"
  shows "(trustd_main P A K B R rd files [] = Crashed \<longleftrightarrow>
      default_control_security A = None \<and> (falls_back A R \<or> falls_back A (rd_registry rd))) \<and>
    (\<not> (default_control_security A = None \<and> (falls_back A R \<or> falls_back A (rd_registry rd))) \<longrightarrow>
      (\<exists>m acts. trustd_main P A K B R rd files [] = Looping m acts \<and>
        daemon_start (secured A P) True True (answers_ok (a_watch B)) (answers_ok (a_policy B)) R rd files = Running m))"
proof -
  have parts: "answers_ok (a_signal B)" "answers_ok (fst (listen A K))"
    using assms(1) unfolding can_start_parts [of K B R A] by simp_all
  obtain s where s: "a_signal B = Inr s" using parts(1) by (auto simp: answers_ok_def)
  obtain acts where l: "listen A K = (Inr (), acts)"
    using parts(2) by (cases "listen A K") (auto simp: answers_ok_def)
  have p: "(case x of Inl _ \<Rightarrow> False | Inr _ \<Rightarrow> True) = answers_ok x" for x :: "io_error + unit"
    by (simp split: sum.split)
  have q: "p_security (secured A P) = peios_security A" by (simp add: secured_def)
  note go = trustd_main_def daemon_start_def Let_def p q s l assms(2)
  show ?thesis
  proof (cases "control_new (peios_security A) (g_control_security config)")
    case None
    then have "default_control_security A = None \<and> falls_back A R"
      using assms(2) by (simp add: control_panics falls_back_def)
    then show ?thesis using None by (simp add: go)
  next
    case (Some control)
    note f = first_refresh [OF assms(2) Some refl, of P rd "answers_ok (a_policy B)" "\<lparr>o_files = files, o_events = []\<rparr>"]
    show ?thesis
    proof (cases "default_control_security A = None \<and> (falls_back A R \<or> falls_back A (rd_registry rd))")
      case True
      then show ?thesis using Some by (simp add: go f [THEN iffD2])
    next
      case False
      then obtain t out where "refresh (secured A P) rd
          (trustd_new control config (answers_ok (a_policy B)) :: ('sd, 'conn) trustd, \<lparr>o_files = files, o_events = []\<rparr>) = Some (t, out)"
        using f by fastforce
      then show ?thesis using Some False by (simp add: go)
    qed
  qed
qed

lemma main_stops:
  assumes "\<not> can_start K B R"
  shows "\<exists>acts. trustd_main P A K B R rd files [] = Stopped acts"
  using assms unfolding can_start_parts [of K B R A]
  by (cases "listen A K") (auto simp: trustd_main_def answers_ok_def Let_def split: sum.split)

lemma main_quits: "\<exists>code out err. trustd_main P A K B R rd files (argument # rest) = Quit code out err"
  by (simp add: trustd_main_def)

lemma main_outcome:
  "((\<exists>m acts. trustd_main P A K B R rd files [] = Looping m acts \<and>
      daemon_start (secured A P) True True (answers_ok (a_watch B)) (answers_ok (a_policy B)) R rd files = Running m) \<longleftrightarrow>
    can_start K B R \<and>
    \<not> (default_control_security A = None \<and> (falls_back A R \<or> falls_back A (rd_registry rd)))) \<and>
   (trustd_main P A K B R rd files [] = Crashed \<longleftrightarrow>
    can_start K B R \<and> default_control_security A = None \<and> (falls_back A R \<or> falls_back A (rd_registry rd))) \<and>
   ((\<exists>acts. trustd_main P A K B R rd files [] = Stopped acts) \<longleftrightarrow> \<not> can_start K B R) \<and>
   (\<forall>argument rest. \<exists>code out err. trustd_main P A K B R rd files (argument # rest) = Quit code out err)"
proof (cases "can_start K B R")
  case True
  then obtain config where "load R = Inr config" by (auto simp: can_start_def answers_ok_def)
  note from_here = main_from_config [OF True this, of P A rd files]
  show ?thesis
  proof (cases "default_control_security A = None \<and> (falls_back A R \<or> falls_back A (rd_registry rd))")
    case bad: True
    then have "trustd_main P A K B R rd files [] = Crashed" using from_here by blast
    then show ?thesis using bad True main_quits [of P A K B R rd files] by simp
  next
    case good: False
    then obtain m acts where "trustd_main P A K B R rd files [] = Looping m acts"
      "daemon_start (secured A P) True True (answers_ok (a_watch B)) (answers_ok (a_policy B)) R rd files = Running m"
      using from_here by blast
    then show ?thesis using good True main_quits [of P A K B R rd files] by simp
  qed
next
  case False
  from main_stops [OF this, of P A rd files] False main_quits [of P A K B R rd files] show ?thesis by auto
qed

text \<open>What an allow list grants to a token that \<open>holds\<close> some of its identities.\<close>

fun granted :: "('tok \<Rightarrow> 'sid \<Rightarrow> bool) \<Rightarrow> ('sid \<times> u32) list \<Rightarrow> 'tok \<Rightarrow> u32" where
  "granted holds [] tok = 0"
| "granted holds ((sid, rights) # entries) tok =
     (if holds tok sid then rights OR granted holds entries tok else granted holds entries tok)"

text \<open>
  The documented check of a descriptor that only allows, for rights that are particular to the object
  and entries without generic rights.
\<close>

definition checks_dacl ::
  "('sid, 'acl, 'sd, 'tok, 'conn) peios \<Rightarrow> ('tok \<Rightarrow> 'sid \<Rightarrow> bool) \<Rightarrow> bool" where
  "checks_dacl A holds \<longleftrightarrow>
     (\<forall>entries acl owner group sd mapping right tok.
        build_acl A entries = Inr acl \<and> build_sd A owner group acl = Inr sd \<and>
        (\<forall>(sid, rights) \<in> set entries. rights AND 0xF0000000 = 0) \<and> right AND 0xFFFF0000 = 0 \<longrightarrow>
        check A mapping sd right tok = Some (right AND granted holds entries tok = right))"

lemma default_grants:
  assumes "READ_CONTROL A = 0x00020000"
  shows "TRUST_QUERY AND granted holds (default_entries A) tok = TRUST_QUERY \<longleftrightarrow>
      holds tok (well_known A SystemSid) \<or> holds tok (well_known A AdministratorsSid) \<or> holds tok (well_known A EveryoneSid)"
    and "TRUST_CONTROL AND granted holds (default_entries A) tok = TRUST_CONTROL \<longleftrightarrow>
      holds tok (well_known A SystemSid) \<or> holds tok (well_known A AdministratorsSid)"
    and "\<forall>(sid, rights) \<in> set (default_entries A). rights AND 0xF0000000 = 0"
  using assms
  by (simp_all add: default_entries_def TRUST_ALL_ACCESS_def TRUST_QUERY_def TRUST_CONTROL_def)

lemma default_check:
  assumes "checks_dacl A holds" and "default_control_security A = Some sd" and "READ_CONTROL A = 0x00020000"
    and "right = TRUST_QUERY \<or> right = TRUST_CONTROL"
  shows "check A mapping sd right tok = Some (right AND granted holds (default_entries A) tok = right)"
proof -
  obtain acl where b: "build_acl A (default_entries A) = Inr acl"
    "build_sd A (Some (well_known A SystemSid)) (Some (well_known A SystemSid)) acl = Inr sd"
    using assms(2) by (auto simp: default_control_security_def conv split: sum.splits)
  have "right AND 0xFFFF0000 = 0" using assms(4) by (auto simp: TRUST_QUERY_def TRUST_CONTROL_def)
  then show ?thesis using assms(1) b default_grants(3) [OF assms(3)] unfolding checks_dacl_def by blast
qed

text \<open>A descriptor of \<open>protect\<close> gives the daemon's own identity everything, once it could be read.\<close>

lemma protect_self:
  "k_identity K = Inr me \<Longrightarrow> holds tok me \<Longrightarrow>
    GENERIC_ALL A AND granted holds (protect_entries A (k_identity K)) tok = GENERIC_ALL A"
  by (simp add: protect_entries_def bit_eq_iff bit_simps) blast

lemma protect_dacl:
  "SetDacl path' sd \<in> set (protect A K path) \<Longrightarrow> path' = path \<and>
    (\<exists>acl. build_acl A (protect_entries A (k_identity K)) = Inr acl \<and> build_sd A None None acl = Inr sd)"
  by (auto simp: protect_def conv split: sum.splits)

text \<open>No socket is bound in a directory that was not made and given its mode, and none with another mode is left.\<close>

lemma bound_after:
  "Bound path \<in> set (snd (listen A K)) \<Longrightarrow> path = SOCKET_PATH \<and>
    (\<exists>later. snd (listen A K) = [MadeDir TRUSTD_RUN_DIR, SetMode TRUSTD_RUN_DIR DIRECTORY_MODE] @ later)"
  by (auto simp: listen_def next_act_def did_def protect_def split: sum.splits if_splits)

section \<open>A sample\<close>

text \<open>Identities and tokens are sets of numbers, and a list and a descriptor are their entries.\<close>

definition sample_peios :: "(nat, (nat \<times> u32) list, (nat \<times> u32) list, nat list, nat list) peios" where
  "sample_peios =
     \<lparr>well_known = (\<lambda>w. case w of SystemSid \<Rightarrow> 0 | AdministratorsSid \<Rightarrow> 1 | EveryoneSid \<Rightarrow> 2),
      build_acl = Inr, build_sd = (\<lambda>_ _. Inr), from_validated_bytes = (\<lambda>_. None), token_of_peer = Some,
      check = (\<lambda>_ sd right tok. Some (right AND granted (\<lambda>tok sid. sid \<in> set tok) sd tok = right)),
      READ_CONTROL = 0x00020000, GENERIC_READ = 0x80000000, GENERIC_WRITE = 0x40000000,
      GENERIC_EXECUTE = 0x20000000, GENERIC_ALL = 0x10000000\<rparr>"

lemma sample_checks: "checks_dacl sample_peios (\<lambda>tok sid. sid \<in> set tok)"
  by (simp add: checks_dacl_def sample_peios_def)

section \<open>Properties\<close>

text \<open>
  C31. Who may reload: with no \<open>ControlSecurity\<close> configured every peer that holds SYSTEM, Administrators
  or Everyone may query, and exactly those that hold SYSTEM or Administrators may reload; a reload of
  any other peer changes nothing and is answered with a refusal.
\<close>

theorem default_control_gates:
  assumes "checks_dacl A holds" and "READ_CONTROL A = 0x00020000"
    and "p_security P = peios_security A" and "control_new (p_security P) None = Some (t_control t)"
    and "token_of_peer A (st_conn stream) = Some tok"
  shows "(permits (p_security P) (t_control t) (st_conn stream) TRUST_QUERY \<longleftrightarrow>
      holds tok (well_known A SystemSid) \<or> holds tok (well_known A AdministratorsSid) \<or>
      holds tok (well_known A EveryoneSid)) \<and>
    (permits (p_security P) (t_control t) (st_conn stream) TRUST_CONTROL \<longleftrightarrow>
      holds tok (well_known A SystemSid) \<or> holds tok (well_known A AdministratorsSid)) \<and>
    (\<not> holds tok (well_known A SystemSid) \<and> \<not> holds tok (well_known A AdministratorsSid) \<longrightarrow>
      handle P rd stream ReqReload (t, out) =
        map_option (\<lambda>(_, s). ((t, out), Some s)) (respond_to P (ReplyError ''access denied'') stream))"
proof -
  have c: "default_control_security A = Some (t_control t)"
    using assms(3,4) by (simp add: control_new_def peios_security_def)
  have p: "permits (p_security P) (t_control t) (st_conn stream) right \<longleftrightarrow>
      right AND granted holds (default_entries A) tok = right"
    if "right = TRUST_QUERY \<or> right = TRUST_CONTROL" for right
    using default_check [OF assms(1) c assms(2) that] assms(3,5) by (simp add: permits_def peios_security_def)
  note q = p [of TRUST_QUERY, unfolded default_grants(1) [OF assms(2)]]
  note c = p [of TRUST_CONTROL, unfolded default_grants(2) [OF assms(2)]]
  show ?thesis using q c by (simp add: handle_def)
qed

theorem default_control_gates_witness:
  "\<exists>sd. control_new (peios_security sample_peios) None = Some sd \<and>
    \<not> permits (peios_security sample_peios) sd [2, 5] TRUST_CONTROL \<and>
    permits (peios_security sample_peios) sd [2, 5] TRUST_QUERY \<and>
    permits (peios_security sample_peios) sd [1, 2] TRUST_CONTROL"
proof -
  let ?S = "peios_security sample_peios"
  obtain sd where sd: "control_new ?S None = Some sd"
    by (auto simp: control_new_def peios_security_def default_control_security_def sample_peios_def)
  let ?P = "\<lparr>p_msgpack = lax, p_describe = (\<lambda>_. []), p_lib = sample_lib, p_security = ?S, p_pid = 1\<rparr>"
  let ?t = "trustd_new sd config_default True"
  let ?s = "\<lambda>tok. \<lparr>st_conn = tok, st_peer = \<lparr>sent = [], future = []\<rparr>, st_clock = []\<rparr>"
  have r: "READ_CONTROL sample_peios = 0x00020000" and k: "token_of_peer sample_peios (st_conn (?s tok)) = Some tok" for tok
    by (simp_all add: sample_peios_def)
  have p: "p_security ?P = ?S" and c: "control_new (p_security ?P) None = Some (t_control ?t)"
    using sd by (simp_all add: trustd_new_def)
  have w: "well_known sample_peios SystemSid = 0" "well_known sample_peios AdministratorsSid = 1"
    "well_known sample_peios EveryoneSid = 2"
    by (simp_all add: sample_peios_def)
  note g = default_control_gates [OF sample_checks r p c k]
  note q = g [THEN conjunct1] and k = g [THEN conjunct2, THEN conjunct1]
  show ?thesis using sd q [of "[2, 5]"] k [of "[2, 5]"] k [of "[1, 2]"] by (simp add: w trustd_new_def)
qed

text \<open>
  C32. \<open>main\<close> without arguments stops with an error exactly when SIGHUP cannot be taken, the socket cannot be
  made (a stale one that is not there is fine) or the configuration cannot be read. It panics exactly when
  the compiled default descriptor does not build and a configuration it reads, at the start or in the
  first refresh, has no valid \<open>ControlSecurity\<close>. Otherwise it gets to its loop, a first refresh that fails
  included, in the state of \<open>daemon_start\<close>, from which every run goes; a watch, an event policy or a descriptor
  of the socket that cannot be had does not stop it. With an argument it quits.
\<close>

theorem main_starts:
  "((\<exists>m acts. trustd_main P A K B R rd files [] = Looping m acts \<and>
      daemon_start (secured A P) True True (answers_ok (a_watch B)) (answers_ok (a_policy B)) R rd files = Running m) \<longleftrightarrow>
    can_start K B R \<and>
    \<not> (default_control_security A = None \<and> (falls_back A R \<or> falls_back A (rd_registry rd)))) \<and>
   (trustd_main P A K B R rd files [] = Crashed \<longleftrightarrow>
    can_start K B R \<and> default_control_security A = None \<and> (falls_back A R \<or> falls_back A (rd_registry rd))) \<and>
   ((\<exists>acts. trustd_main P A K B R rd files [] = Stopped acts) \<longleftrightarrow> \<not> can_start K B R) \<and>
   (\<forall>argument rest. \<exists>code out err. trustd_main P A K B R rd files (argument # rest) = Quit code out err)"
  by (rule main_outcome)

end
