(* ===== verification/Spec2Isabelle.thy ===== *)
theory Spec2Isabelle
  imports Msgpack Store RootEvents Config Control RenderProps DaemonProps ClientProps Robust Startup
begin

text \<open>
  A verification development for trustd, the trust store of a machine, its client libraries and its
  operator command.

  \<^bold>\<open>The program.\<close> \<open>trustd\<close> (\<open>src/trustd\<close>) composes the set of certificate authorities a machine trusts:
  the shipped bundle, plus what an administrator added, less what an administrator distrusted. It
  serves the set over a socket, pushes it to subscribers on every change, renders it as files for
  software that reads \<open>/etc/ssl\<close>, and records every change as an event. Additions and distrusts are values
  and keys of the registry, which clients write and the daemon reads. A client goes through layers: the
  command \<open>trust\<close> (\<open>src/trust\<close>), the Rust client (\<open>src/trust-client\<close>), the C interface of the shared library
  (\<open>src/libtrust\<close>, layouts in \<open>src/trust-abi\<close>), the client core (\<open>src/trust-client-core\<close>), and \<open>src/trust-core\<close>,
  which the daemon shares: certificates, composition and the wire.

  \<^bold>\<open>The theories\<close>, in the order of the layers, with the code they model. A definition has the name it has
  in the code where that is free, or a prefix (\<open>client_add\<close>, \<open>cli_add\<close>); a struct is a record, an enum a
  datatype, an early return, an error and a panic are branches.

  \<^item> \<open>Prelude\<close>: results (\<open>bindE\<close>, \<open>map_err\<close>), Rust strings as their UTF-8 bytes, chunks, big and little endian
    integers; the locales \<open>codec\<close>, \<open>self_delimiting\<close> and \<open>machine\<close>.
  \<^item> \<open>Base64\<close>, \<open>Pem\<close>, \<open>Der\<close>, \<open>Cert\<close>: \<open>trust-core/src/cert.rs\<close>. Encoders and decoders with their round trips;
    \<open>canonical_name\<close> against a reference definition on names; what \<open>parse\<close> accepts.
  \<^item> \<open>Store\<close>: \<open>trust-core/src/store.rs\<close>. \<open>compose\<close> against \<open>effective\<close>, the set it is meant to be.
  \<^item> \<open>Wire\<close>, \<open>Msgpack\<close>: \<open>trust-core/src/lib.rs\<close>. Requests and replies as maps, frames, \<open>roots_of\<close>; a concrete
    codec that satisfies what the code relies on of the MessagePack crate.
  \<^item> \<open>Config\<close>: \<open>trustd/src/config.rs\<close>, \<open>registry_reader.rs\<close>. \<open>load\<close>, complete and well formed or an error.
  \<^item> \<open>Control\<close>: \<open>trustd/src/control.rs\<close>. Reading a request, writing replies and snapshots under a deadline.
  \<^item> \<open>Render\<close>, \<open>RenderProps\<close>: \<open>trustd/src/render.rs\<close> on a tree of files, each call of which may fail half-way.
  \<^item> \<open>RootEvents\<close>: \<open>trustd/src/audit.rs\<close>. The difference of two stores and its records.
  \<^item> \<open>Daemon\<close>, \<open>DaemonInv\<close>, \<open>DaemonProps\<close>: \<open>trustd/src/main.rs\<close>, \<open>reload_signal.rs\<close>. One turn of the poll loop as
    a step of a machine; the invariant \<open>well\<close> and the order \<open>later\<close> of its states; what holds of every run.
  \<^item> \<open>Startup\<close>: \<open>main\<close> up to the loop, with \<open>listen\<close>, \<open>protect\<close>, the default descriptor, the log and the
    notification of the service manager (\<open>main.rs\<close>, \<open>control.rs\<close>, \<open>log.rs\<close>, \<open>notification.rs\<close>, \<open>trust-core\<close>).
  \<^item> \<open>Channel\<close>: \<open>libtrust/src/channel.rs\<close>, and its identical copy in \<open>trust-client-core\<close>.
  \<^item> \<open>ClientCore\<close>, \<open>RegistryTree\<close>, \<open>ClientProps\<close>: \<open>trust-client-core/src/lib.rs\<close>. Add, remove, distrust and
    restore as writes to the registry, and what they do to what the daemon loads.
  \<^item> \<open>Abi\<close>, \<open>Libtrust\<close>, \<open>Manage\<close>: \<open>trust-abi\<close>, \<open>libtrust\<close>. Spans, views and inputs; results, exchanges,
    subscriptions and the management calls.
  \<^item> \<open>TrustClient\<close>, \<open>Delivery\<close>, \<open>ClientApi\<close>: \<open>trust-client\<close>. Every function over the C interface; the locale
    \<open>crossing\<close> of values that cross it; what of a stream of snapshots a subscription returns.
  \<^item> \<open>EndToEnd\<close>, \<open>Enforced\<close>: the daemon at one end of the socket, or of the registry, and the client at the
    other.
  \<^item> \<open>Cli\<close>, \<open>CommandLine\<close>, \<open>CliProps\<close>: \<open>trust/src/main.rs\<close>. The command line, the verbs, what is printed and the
    exit codes; the end-to-end properties from the command down to what the daemon serves.
  \<^item> \<open>Robust\<close>: that what a decoder accepts encodes again, so that no call of the client panics on what
    arrives; the assertions of \<open>fuzz/fuzz_targets\<close>.

  \<^bold>\<open>What the properties say.\<close> Of the store: nothing distrusted is ever in it, by any spelling, and otherwise it
  is exactly the usable certificates, each once, in order. Of the daemon, at every point of every run:
  subscribers hold the present snapshot, a healthy daemon has its store on disk, what is served was
  vetted, equal generations mean equal roots (of points fewer than $2^{64}$ refreshes apart), a refresh
  that cannot read or compose serves on what was served and says so. Of the files: a rendering that
  succeeds leaves exactly the roots, one that fails leaves the old bundle. Of the clients: they see the
  daemon's roots or an error and never anything else; a distrust or an addition that is reported as done
  is in force after the next refresh that composes, until when the old set is served; an addition that fails
  leaves the configuration as it was if its name held no certificate; and no answer makes the library panic
  (the command may, where it cuts a text of the daemon at a fixed byte, or where a default descriptor of the
  code does not build). Some properties show defects, by name: \<open>reload_can_panic\<close>, \<open>bundle_injection\<close>,
  \<open>restore_effect\<close>, \<open>missing_socket\<close>.

  \<^bold>\<open>Parameters.\<close> Code of other crates is an argument of the definitions that use it: the X.509 parser and the
  digests (\<open>lib\<close>), MessagePack (\<open>msgpack\<close>, with \<open>msgpack_laws\<close> and \<open>reads_valid\<close>), the registry (\<open>registry\<close>,
  \<open>registry_api\<close>, with \<open>truthful_view\<close> and \<open>truthful_writes\<close>), descriptors and access checks (\<open>security\<close>, \<open>peios\<close>,
  with \<open>checks_dacl\<close>), the emission policy and the event socket. Each of the hypotheses is shown to hold of
  a sample: \<open>wide\<close> and \<open>strict\<close>, \<open>list_registry\<close>, \<open>sample_peios\<close>, \<open>sample_lib\<close>.

  \<^bold>\<open>The world outside\<close> is a list of what its calls will answer. A loop over such a list ends because it uses
  an element each time, and the list that runs out has a meaning of its own, so no theorem needs enough
  fuel: on a non-blocking stream no more reads is \<open>WouldBlock\<close>; under a write deadline no more writes is a
  peer that takes nothing before the deadline; of a channel no more clock is a clock past every deadline; a
  file-system call with no outcome listed works. A theorem over all lists is one over all behaviours of
  the kernel. Where a loop may find arbitrarily many events, the turns of a run are a list of any length.
  Words have the width of the code (\<open>u32\<close>, \<open>u64\<close>); a \<open>usize\<close> is a natural number, with the checks of the code
  written out; an instant is a number of nanoseconds in the daemon and of milliseconds in the channel.

  \<^bold>\<open>Not modelled.\<close> Lines logged outside the start of the daemon; mode bits of rendered files; allocation,
  lifetimes and the freeing of handles; threads (the program has one); the disposition of \<open>SIGPIPE\<close> and
  writing to the terminal; the text of errors of other crates, which is a parameter; declarations
  (\<open>trust-client/src/ffi.rs\<close>, \<open>trustd/src/lib.rs\<close>), build scripts, the unit tests inside the files, the tests
  under \<open>tests\<close> and the packaging and manual pages, which hold no logic of the program. The copy of \<open>channel.rs\<close>
  in \<open>trust-client-core\<close> has the same lines as the one modelled.
\<close>

end
